(* ===== verification/Prelude.thy ===== *)
theory Prelude
  imports Main "HOL-Library.Word"
begin

text \<open>
  Types, loop combinators and little-endian memory accessors shared by every component.
  The integer types of \<^verbatim>\<open>include/types.h\<close> are machine words; the two \<^verbatim>\<open>for\<close> loop
  shapes the kernel uses (search for the first index, run a body over a range) are modelled
  once, with the lemmas that every component's proofs use.
\<close>

unbundle bit_operations_syntax

section \<open>Primitive types\<close>

type_synonym u8 = "8 word"
type_synonym u16 = "16 word"
type_synonym u32 = "32 word"
type_synonym u64 = "64 word"

text \<open>Memory is a map from byte offsets to bytes.\<close>

type_synonym memory = "nat \<Rightarrow> u8"

named_theorems mem_simps \<open>read-over-write laws of memory accessors\<close>
named_theorems loop_simps \<open>facts on the loop combinators\<close>

lemma all_from_Suc:
  "i < n \<Longrightarrow> (\<forall>j. i \<le> j \<and> j < n \<longrightarrow> Q j) \<longleftrightarrow> Q i \<and> (\<forall>j. Suc i \<le> j \<and> j < n \<longrightarrow> Q j)"
  by (auto simp: Suc_le_eq) (metis order_le_less)

section \<open>Conversions between word lengths\<close>

lemma unat_ucast_8: "unat (ucast (r :: u32) :: u8) = unat r mod 256"
  by (simp add: unsigned_ucast_eq unsigned_take_bit_eq take_bit_eq_mod)

lemma unat_ucast_16: "unat (ucast (r :: u32) :: u16) = unat r mod 65536"
  by (simp add: unsigned_ucast_eq unsigned_take_bit_eq take_bit_eq_mod)

lemma word_gr0_iff: "0 < (n :: 'a::len word) \<longleftrightarrow> n \<noteq> 0"
  by (simp add: word_gt_0)

section \<open>The loop that looks for the first index\<close>

text \<open>\<^verbatim>\<open>for (i = lo; i < hi; i++) if (p(i)) return i;\<close> with \<^term>\<open>None\<close> for falling out
  of the loop.\<close>

function for_find :: "(nat \<Rightarrow> bool) \<Rightarrow> nat \<Rightarrow> nat \<Rightarrow> nat option" where
  "for_find p i hi =
     (if i < hi then (if p i then Some i else for_find p (Suc i) hi) else None)"
  by pat_completeness auto
termination
  by (relation "measure (\<lambda>(p, i, hi). hi - i)") auto

declare for_find.simps [simp del]

lemma for_find_hit [loop_simps]: "i < hi \<Longrightarrow> p i \<Longrightarrow> for_find p i hi = Some i"
  by (subst for_find.simps) simp

lemma for_find_skip: "i < hi \<Longrightarrow> \<not> p i \<Longrightarrow> for_find p i hi = for_find p (Suc i) hi"
  by (subst for_find.simps) simp

lemma for_find_None_iff [loop_simps]:
  "for_find p i hi = None \<longleftrightarrow> (\<forall>j. i \<le> j \<and> j < hi \<longrightarrow> \<not> p j)"
proof (induction p i hi rule: for_find.induct)
  case (1 p i hi)
  show ?case
  proof (cases "i < hi \<and> \<not> p i")
    case True
    then have "for_find p i hi = None \<longleftrightarrow> (\<forall>j. Suc i \<le> j \<and> j < hi \<longrightarrow> \<not> p j)"
      using 1 by (simp add: for_find_skip)
    with True show ?thesis
      by (metis Suc_leI le_neq_implies_less less_imp_le_nat Suc_le_lessD)
  next
    case False
    then show ?thesis by (subst for_find.simps) (cases "i < hi"; auto)
  qed
qed

lemma for_find_Some_iff [loop_simps]:
  "for_find p i hi = Some k \<longleftrightarrow> i \<le> k \<and> k < hi \<and> p k \<and> (\<forall>j. i \<le> j \<and> j < k \<longrightarrow> \<not> p j)"
proof (induction p i hi rule: for_find.induct)
  case (1 p i hi)
  show ?case
  proof (cases "i < hi \<and> \<not> p i")
    case True
    then have "for_find p i hi = Some k \<longleftrightarrow>
        Suc i \<le> k \<and> k < hi \<and> p k \<and> (\<forall>j. Suc i \<le> j \<and> j < k \<longrightarrow> \<not> p j)"
      using 1 by (simp add: for_find_skip)
    with True show ?thesis
      by (metis Suc_leI le_neq_implies_less less_imp_le_nat Suc_le_lessD)
  next
    case False
    then show ?thesis
      by (subst for_find.simps) (auto dest: le_neq_implies_less)
  qed
qed

lemma for_find_SomeD:
  assumes "for_find p i hi = Some k"
  shows "i \<le> k" "k < hi" "p k" "\<And>j. i \<le> j \<Longrightarrow> j < k \<Longrightarrow> \<not> p j"
  using assms by (auto simp: for_find_Some_iff)

lemma for_find_cong:
  assumes "\<And>j. i \<le> j \<Longrightarrow> j < hi \<Longrightarrow> p j = q j"
  shows "for_find p i hi = for_find q i hi"
  using assms
proof (induction p i hi rule: for_find.induct)
  case (1 p i hi)
  then show ?case
    by (subst (1 2) for_find.simps) auto
qed

section \<open>The loop that runs a body over a range\<close>

text \<open>\<^verbatim>\<open>for (i = lo; i < hi; i++) body(i);\<close> over an explicit state.\<close>

function for_do :: "(nat \<Rightarrow> 's \<Rightarrow> 's) \<Rightarrow> nat \<Rightarrow> nat \<Rightarrow> 's \<Rightarrow> 's" where
  "for_do f i hi s = (if i < hi then for_do f (Suc i) hi (f i s) else s)"
  by pat_completeness auto
termination
  by (relation "measure (\<lambda>(f, i, hi, s). hi - i)") auto

declare for_do.simps [simp del]

lemma for_do_done [simp]: "hi \<le> i \<Longrightarrow> for_do f i hi s = s"
  by (subst for_do.simps) simp

lemma for_do_step: "i < hi \<Longrightarrow> for_do f i hi s = for_do f (Suc i) hi (f i s)"
  by (subst for_do.simps) simp

lemma for_do_invariant [consumes 1, case_names step]:
  assumes "P lo s" "\<And>i t. lo \<le> i \<Longrightarrow> i < hi \<Longrightarrow> P i t \<Longrightarrow> P (Suc i) (f i t)" "lo \<le> hi"
  shows "P hi (for_do f lo hi s)"
  using assms
proof (induction f lo hi s rule: for_do.induct)
  case (1 f i hi s)
  show ?case
  proof (cases "i < hi")
    case True
    have "P hi (for_do f (Suc i) hi (f i s))"
      using True "1.prems" by (intro "1.IH") auto
    with True show ?thesis by (simp add: for_do_step)
  next
    case False
    with "1.prems" have "i = hi" by simp
    with "1.prems" show ?thesis by simp
  qed
qed

lemma for_do_keep:
  assumes "P s" "\<And>j s. P s \<Longrightarrow> P (f j s)"
  shows "P (for_do f lo hi s)"
  using assms
proof (induction f lo hi s rule: for_do.induct)
  case (1 f lo hi s)
  then show ?case
    by (cases "lo < hi") (auto simp: for_do_step)
qed

lemma for_do_establish:
  assumes "lo \<le> i" "i < hi" "\<And>s. P (f i s)" "\<And>j s. P s \<Longrightarrow> P (f j s)"
  shows "P (for_do f lo hi s)"
  using assms
proof (induction f lo hi s rule: for_do.induct)
  case (1 f lo hi s)
  show ?case
  proof (cases "lo = i")
    case True
    have "P (for_do f (Suc lo) hi (f lo s))"
      by (rule for_do_keep) (use True "1.prems" in auto)
    with True "1.prems" show ?thesis by (simp add: for_do_step)
  next
    case False
    with "1.prems" have "P (for_do f (Suc lo) hi (f lo s))"
      by (intro "1.IH") auto
    with "1.prems" show ?thesis by (simp add: for_do_step)
  qed
qed

section \<open>Options\<close>

lemma option_ext: "(\<And>x. a = Some x \<longleftrightarrow> b = Some x) \<Longrightarrow> a = b"
  by (cases a; cases b) auto

section \<open>The bytes of a 16-bit word\<close>

lemma and_FF: "(w :: 'a::len word) AND 0xFF = take_bit 8 w"
  by (simp add: take_bit_eq_mask mask_eq_exp_minus_1)

lemma unat_low_byte: "unat (ucast ((w :: u16) AND 0xFF) :: u8) = unat w mod 256"
  by (simp add: and_FF unsigned_ucast_eq take_bit_eq_mod unsigned_take_bit_eq unat_mod)

lemma unat_high_byte: "unat (ucast (drop_bit 8 (w :: u16) AND 0xFF) :: u8) = unat w div 256"
proof -
  have "unat w < 65536" using unsigned_less [of w] by simp
  then show ?thesis
    by (simp add: and_FF unsigned_ucast_eq take_bit_eq_mod unsigned_take_bit_eq
        unsigned_drop_bit_eq drop_bit_eq_div unat_div unat_mod)
qed

lemma unat_of_int_u16: "0 \<le> i \<Longrightarrow> i < 65536 \<Longrightarrow> unat (of_int i :: u16) = nat i"
  by (simp add: unsigned_of_int take_bit_int_eq_self)

text \<open>Inode numbers are kept in 16 bits and compared in 32.\<close>

lemma unat_ucast_16_32 [simp]: "unat (ucast (a :: u16) :: u32) = unat a"
  by (simp add: unsigned_ucast_eq take_bit_nat_eq_self order_less_trans [OF unsigned_less])

lemma ucast_16_32_eq: "(ucast (a :: u16) :: u32) = ucast (b :: u16) \<longleftrightarrow> unat a = unat b"
  unfolding word_unat_eq_iff [where 'a = 32] unat_ucast_16_32 ..

text \<open>A count below 2 GiB survives the conversion to a signed result.\<close>

lemma sint_of_count: "unat (w :: u32) < 2 ^ 31 \<Longrightarrow> sint w = int (unat w)"
proof -
  assume w: "unat w < 2 ^ 31"
  have "- (2 ^ 31) \<le> uint w" by (rule order_trans [of _ 0]) simp_all
  moreover have "uint w < 2 ^ 31" using w unfolding uint_nat by (metis of_nat_less_iff of_nat_numeral of_nat_power)
  ultimately have "sint w = uint w" by (simp add: sint_uint signed_take_bit_int_eq_self)
  then show ?thesis by simp
qed

lemma unat_add_small: "unat a + unat b < 4294967296 \<Longrightarrow> unat (a + b :: u32) = unat a + unat b"
  by (simp add: unat_word_ariths)

lemma unat_minus_small: "unat b \<le> unat a \<Longrightarrow> unat (a - b :: u32) = unat a - unat b"
  by (rule unat_sub) (simp add: word_le_nat_alt)

end
