(* ===== verification/Memory.thy ===== *)
theory Memory
  imports Prelude
begin

text \<open>
  Byte memory as the x86 target sees it: multi-byte fields of the packed structures are stored
  little-endian, so a 16-bit, 32-bit or 64-bit access touches two, four or eight consecutive
  bytes. The lemmas give the read-over-write laws and the footprint of every access; the file
  system and the frame allocator read their structures through these accessors.
\<close>

section \<open>Little-endian accesses\<close>

definition rd16 :: "memory \<Rightarrow> nat \<Rightarrow> u16" where
  "rd16 m a = ucast (m a) OR push_bit 8 (ucast (m (a + 1)))"

definition rd32 :: "memory \<Rightarrow> nat \<Rightarrow> u32" where
  "rd32 m a = ucast (m a) OR push_bit 8 (ucast (m (a + 1)))
     OR push_bit 16 (ucast (m (a + 2))) OR push_bit 24 (ucast (m (a + 3)))"

definition rd64 :: "memory \<Rightarrow> nat \<Rightarrow> u64" where
  "rd64 m a = ucast (rd32 m a) OR push_bit 32 (ucast (rd32 m (a + 4)))"

definition wr8 :: "memory \<Rightarrow> nat \<Rightarrow> u8 \<Rightarrow> memory" where
  "wr8 m a v = m(a := v)"

definition wr16 :: "memory \<Rightarrow> nat \<Rightarrow> u16 \<Rightarrow> memory" where
  "wr16 m a v = m(a := ucast v, a + 1 := ucast (drop_bit 8 v))"

definition wr32 :: "memory \<Rightarrow> nat \<Rightarrow> u32 \<Rightarrow> memory" where
  "wr32 m a v = m(a := ucast v, a + 1 := ucast (drop_bit 8 v),
     a + 2 := ucast (drop_bit 16 v), a + 3 := ucast (drop_bit 24 v))"

lemma rd16_wr16 [mem_simps]: "rd16 (wr16 m a v) a = v"
  by (rule bit_word_eqI) (auto simp: rd16_def wr16_def bit_simps)

lemma rd32_wr32 [mem_simps]: "rd32 (wr32 m a v) a = v"
proof (rule bit_word_eqI)
  fix n assume "n < LENGTH(32)"
  then consider "n < 8" | "8 \<le> n" "n < 16" | "16 \<le> n" "n < 24" | "24 \<le> n" "n < 32"
    by force
  then show "bit (rd32 (wr32 m a v) a) n = bit v n"
    by cases (auto simp: rd32_def wr32_def bit_simps nat_le_iff_add)
qed

lemma wr32_rd32: "wr32 m a (rd32 m a) = m"
proof
  fix b
  have "(ucast (drop_bit 8 (rd32 m a)) :: u8) = m (a + 1)"
    "(ucast (drop_bit 16 (rd32 m a)) :: u8) = m (a + 2)"
    "(ucast (drop_bit 24 (rd32 m a)) :: u8) = m (a + 3)"
    "(ucast (rd32 m a) :: u8) = m a"
    by (rule bit_word_eqI; force simp: rd32_def bit_simps dest: bit_imp_le_length)+
  then show "wr32 m a (rd32 m a) b = m b"
    by (simp add: wr32_def)
qed

lemma wr32_wr32: "wr32 (wr32 m a v) a w = wr32 m a w"
  by (auto simp: wr32_def fun_eq_iff)

section \<open>Filling a range\<close>

text \<open>The closed form of every \<^verbatim>\<open>k_memset\<close> loop.\<close>

definition fill :: "memory \<Rightarrow> nat \<Rightarrow> u8 \<Rightarrow> nat \<Rightarrow> memory" where
  "fill m p v n = (\<lambda>a. if p \<le> a \<and> a < p + n then v else m a)"

lemma fill_at [mem_simps]: "fill m p v n a = (if p \<le> a \<and> a < p + n then v else m a)"
  by (simp add: fill_def)

lemma fill_0 [simp]: "fill m p v 0 = m"
  by (auto simp: fill_def fun_eq_iff)

lemma fill_Suc: "fill (wr8 m p v) (Suc p) v n = fill m p v (Suc n)"
  by (auto simp: fill_def wr8_def fun_eq_iff)

lemma fill_Suc_end: "wr8 (fill m p v n) (p + n) v = fill m p v (Suc n)"
  by (auto simp: fill_def wr8_def fun_eq_iff)

section \<open>Footprints\<close>

text \<open>\<open>same_on\<close> says two memories agree on an address range; a read depends on its own bytes
  only, a write changes its own bytes only.\<close>

definition same_on :: "nat \<Rightarrow> nat \<Rightarrow> memory \<Rightarrow> memory \<Rightarrow> bool" where
  "same_on lo hi m m' \<longleftrightarrow> (\<forall>a. lo \<le> a \<and> a < hi \<longrightarrow> m a = m' a)"

lemma same_onI: "(\<And>a. lo \<le> a \<Longrightarrow> a < hi \<Longrightarrow> m a = m' a) \<Longrightarrow> same_on lo hi m m'"
  by (simp add: same_on_def)

lemma same_onD: "same_on lo hi m m' \<Longrightarrow> lo \<le> a \<Longrightarrow> a < hi \<Longrightarrow> m a = m' a"
  by (simp add: same_on_def)

lemma same_on_refl [simp]: "same_on lo hi m m"
  by (simp add: same_on_def)

lemma same_on_trans: "same_on lo hi m m' \<Longrightarrow> same_on lo hi m' m'' \<Longrightarrow> same_on lo hi m m''"
  by (simp add: same_on_def)

lemma same_on_mono: "same_on lo hi m m' \<Longrightarrow> lo \<le> lo' \<Longrightarrow> hi' \<le> hi \<Longrightarrow> same_on lo' hi' m m'"
  by (auto simp: same_on_def)

lemma rd16_cong: "same_on lo hi m m' \<Longrightarrow> lo \<le> a \<Longrightarrow> a + 2 \<le> hi \<Longrightarrow> rd16 m a = rd16 m' a"
  by (simp add: rd16_def same_on_def)

lemma rd32_cong: "same_on lo hi m m' \<Longrightarrow> lo \<le> a \<Longrightarrow> a + 4 \<le> hi \<Longrightarrow> rd32 m a = rd32 m' a"
  by (simp add: rd32_def same_on_def)

lemma wr8_at [mem_simps]: "wr8 m a v b = (if b = a then v else m b)"
  by (simp add: wr8_def)

lemma wr16_other [mem_simps]: "b < a \<or> a + 2 \<le> b \<Longrightarrow> wr16 m a v b = m b"
  by (auto simp: wr16_def)

lemma wr32_other [mem_simps]: "b < a \<or> a + 4 \<le> b \<Longrightarrow> wr32 m a v b = m b"
  by (auto simp: wr32_def)

lemma rd16_wr8 [mem_simps]: "b < a \<or> a + 2 \<le> b \<Longrightarrow> rd16 (wr8 m b v) a = rd16 m a"
  by (auto simp: rd16_def wr8_def)

lemma rd32_wr8 [mem_simps]: "b < a \<or> a + 4 \<le> b \<Longrightarrow> rd32 (wr8 m b v) a = rd32 m a"
  by (auto simp: rd32_def wr8_def)

lemma rd16_wr16_other [mem_simps]: "b + 2 \<le> a \<or> a + 2 \<le> b \<Longrightarrow> rd16 (wr16 m b v) a = rd16 m a"
  by (auto simp: rd16_def wr16_def)

lemma rd16_wr32_other [mem_simps]: "b + 4 \<le> a \<or> a + 2 \<le> b \<Longrightarrow> rd16 (wr32 m b v) a = rd16 m a"
  by (auto simp: rd16_def wr32_def)

lemma rd32_wr16_other [mem_simps]: "b + 2 \<le> a \<or> a + 4 \<le> b \<Longrightarrow> rd32 (wr16 m b v) a = rd32 m a"
  by (auto simp: rd32_def wr16_def)

lemma rd32_wr32_other [mem_simps]: "b + 4 \<le> a \<or> a + 4 \<le> b \<Longrightarrow> rd32 (wr32 m b v) a = rd32 m a"
  by (auto simp: rd32_def wr32_def)

lemma rd16_zero [mem_simps]: "m a = 0 \<Longrightarrow> m (a + 1) = 0 \<Longrightarrow> rd16 m a = 0"
  by (simp add: rd16_def)

lemma rd32_zero [mem_simps]:
  "m a = 0 \<Longrightarrow> m (a + 1) = 0 \<Longrightarrow> m (a + 2) = 0 \<Longrightarrow> m (a + 3) = 0 \<Longrightarrow> rd32 m a = 0"
  by (simp add: rd32_def)

end
