(* ===== verification/Cstr.thy ===== *)
theory Cstr
  imports Memory
begin

text \<open>
  C strings. A string argument is a list of bytes; reading past its end gives the terminating NUL.
  \<open>put_str\<close> is the closed form of the kernel's two bounded copies: the bytes and a NUL.
\<close>

section \<open>Bytes and literals\<close>

definition bytes :: "string \<Rightarrow> u8 list" where
  "bytes s = map of_char s"

abbreviation (input) ch :: "char \<Rightarrow> u8" where "ch c \<equiv> of_char c"

lemma length_bytes [simp]: "length (bytes s) = length s"
  by (simp add: bytes_def)

section \<open>String arguments\<close>

text \<open>A C string argument is the list of its bytes before the terminating NUL; \<open>c_at\<close> reads it,
  the NUL included.\<close>

type_synonym cstr = "u8 list"

definition c_at :: "cstr \<Rightarrow> nat \<Rightarrow> u8" where
  "c_at s i = (if i < length s then s ! i else 0)"

definition cstr_ok :: "cstr \<Rightarrow> bool" where
  "cstr_ok s \<longleftrightarrow> 0 \<notin> set s"

lemma c_at_0_iff: "cstr_ok s \<Longrightarrow> c_at s i = 0 \<longleftrightarrow> length s \<le> i"
  by (auto simp: c_at_def cstr_ok_def in_set_conv_nth not_le)

definition put_str :: "memory \<Rightarrow> nat \<Rightarrow> cstr \<Rightarrow> memory" where
  "put_str m p s = (\<lambda>a. if p \<le> a \<and> a < p + length s then s ! (a - p)
      else if a = p + length s then 0 else m a)"

lemma put_str_at [mem_simps]:
  "put_str m p s a = (if p \<le> a \<and> a < p + length s then s ! (a - p)
      else if a = p + length s then 0 else m a)"
  by (simp add: put_str_def)

lemma put_str_Nil: "wr8 m p 0 = put_str m p []"
  by (auto simp: put_str_def wr8_def fun_eq_iff)

lemma put_str_Cons: "put_str (wr8 m p c) (Suc p) s = put_str m p (c # s)"
  by (auto simp: put_str_def wr8_def fun_eq_iff nth_Cons')

end
