(* ===== verification/Bitmap.thy ===== *)
theory Bitmap
  imports Prelude
begin

text \<open>
  The kernel has two bitmaps of its own: the byte bitmaps of the file system
  (\<^verbatim>\<open>bit_test\<close>, \<^verbatim>\<open>bit_set\<close>, \<^verbatim>\<open>bit_clear\<close> in \<^verbatim>\<open>kernel/fs.c\<close>) and the 32-bit-word bitmap of
  the frame allocator (\<^verbatim>\<open>kernel/pmm.c\<close>). Both are used by a first-fit search. The locale
  \<open>bitmap\<close> is what the three operations promise, \<open>first_fit\<close> is the allocator a client
  builds from them; both are interpreted on the code's own definitions in the theories that
  provide them.
\<close>

section \<open>Bits of a word\<close>

lemma and_1_neq_0_iff_bit: "(drop_bit k w AND 1 \<noteq> 0) = bit (w :: 'a::len word) k"
  by (simp add: bit_iff_odd_drop_bit and_one_eq odd_iff_mod_2_eq_one)

lemma bit_or_2p: "bit (w OR 2 ^ k) j \<longleftrightarrow> bit (w :: 'a::len word) j \<or> (j = k \<and> k < LENGTH('a))"
  by (auto simp: bit_simps)

lemma bit_and_not_2p: "bit (w AND NOT (2 ^ k)) j \<longleftrightarrow> bit (w :: 'a::len word) j \<and> j \<noteq> k"
  by (auto simp: bit_simps dest: bit_imp_le_length)

lemma or_2p_and_not_2p: "\<not> bit w k \<Longrightarrow> (w OR 2 ^ k) AND NOT (2 ^ k) = (w :: 'a::len word)"
  by (rule bit_word_eqI) (auto simp: bit_or_2p bit_and_not_2p)

lemma div_mod_neq: "(n :: nat) div k = m div k \<Longrightarrow> n mod k = m mod k \<Longrightarrow> n = m"
  by (metis div_mod_decomp)

section \<open>What a bitmap promises\<close>

text \<open>The number of clear bits in a range, for any test function.\<close>

definition clear_bits :: "('m \<Rightarrow> nat \<Rightarrow> bool) \<Rightarrow> nat \<Rightarrow> nat \<Rightarrow> 'm \<Rightarrow> nat" where
  "clear_bits test lo hi m = card {i. lo \<le> i \<and> i < hi \<and> \<not> test m i}"

lemma clear_bits_le: "clear_bits test lo hi m \<le> hi - lo"
proof -
  have "clear_bits test lo hi m \<le> card {lo..<hi}"
    unfolding clear_bits_def by (rule card_mono) auto
  then show ?thesis by simp
qed

lemma clear_bits_0_iff: "clear_bits test lo hi m = 0 \<longleftrightarrow> (\<forall>i. lo \<le> i \<and> i < hi \<longrightarrow> test m i)"
  by (auto simp: clear_bits_def)

lemma clear_bits_cong:
  "(\<And>i. lo \<le> i \<Longrightarrow> i < hi \<Longrightarrow> test m i = test' m' i) \<Longrightarrow> clear_bits test lo hi m = clear_bits test' lo hi m'"
  unfolding clear_bits_def by (rule arg_cong [where f = card]) auto

locale bitmap =
  fixes test :: "'m \<Rightarrow> nat \<Rightarrow> bool"
    and set_bit :: "'m \<Rightarrow> nat \<Rightarrow> 'm"
    and clear_bit :: "'m \<Rightarrow> nat \<Rightarrow> 'm"
  assumes test_set: "test (set_bit m n) k \<longleftrightarrow> k = n \<or> test m k"
    and test_clear: "test (clear_bit m n) k \<longleftrightarrow> k \<noteq> n \<and> test m k"
    and clear_set: "\<not> test m n \<Longrightarrow> clear_bit (set_bit m n) n = m"
begin

lemma set_then_test: "test (set_bit m n) n"
  by (simp add: test_set)

lemma clear_then_test: "\<not> test (clear_bit m n) n"
  by (simp add: test_clear)

lemma clear_bits_set:
  assumes "lo \<le> n" "n < hi" "\<not> test m n"
  shows "Suc (clear_bits test lo hi (set_bit m n)) = clear_bits test lo hi m"
proof -
  let ?A = "{i. lo \<le> i \<and> i < hi \<and> \<not> test m i}"
  have "{i. lo \<le> i \<and> i < hi \<and> \<not> test (set_bit m n) i} = ?A - {n}"
    by (auto simp: test_set)
  moreover have "card ?A = Suc (card (?A - {n}))"
    by (rule card.remove) (use assms in auto)
  ultimately show ?thesis
    by (simp only: clear_bits_def)
qed

lemma clear_bits_clear:
  assumes "lo \<le> n" "n < hi" "test m n"
  shows "clear_bits test lo hi (clear_bit m n) = Suc (clear_bits test lo hi m)"
proof -
  let ?A = "{i. lo \<le> i \<and> i < hi \<and> \<not> test m i}"
  have "{i. lo \<le> i \<and> i < hi \<and> \<not> test (clear_bit m n) i} = insert n ?A"
    using assms by (auto simp: test_clear)
  moreover have "n \<notin> ?A" using assms by simp
  ultimately show ?thesis
    by (simp add: clear_bits_def)
qed

end

section \<open>First-fit allocation over a bitmap\<close>

text \<open>The search \<^verbatim>\<open>for (i = lo; i < hi; i++) if (!test(i)) \<dots>\<close>. Everything a client needs is
  proved from the bitmap laws: the result is in range and was free, it is the lowest free
  index, failure means that nothing is free, taking it and giving it back restores the map,
  and the number of free bits is exact.\<close>

definition find_clear :: "('m \<Rightarrow> nat \<Rightarrow> bool) \<Rightarrow> nat \<Rightarrow> nat \<Rightarrow> 'm \<Rightarrow> nat option" where
  "find_clear test lo hi m = for_find (\<lambda>i. \<not> test m i) lo hi"

locale first_fit = bitmap test set_bit clear_bit
  for test :: "'m \<Rightarrow> nat \<Rightarrow> bool" and set_bit clear_bit :: "'m \<Rightarrow> nat \<Rightarrow> 'm" +
  fixes lo hi :: nat
  assumes lo_le_hi: "lo \<le> hi"
begin

lemma find_clear_range: "find_clear test lo hi m = Some i \<Longrightarrow> lo \<le> i \<and> i < hi \<and> \<not> test m i"
  by (simp add: find_clear_def for_find_Some_iff)

lemma find_clear_lowest: "find_clear test lo hi m = Some i \<Longrightarrow> lo \<le> j \<Longrightarrow> j < i \<Longrightarrow> test m j"
  by (simp add: find_clear_def for_find_Some_iff)

lemma find_clear_None: "find_clear test lo hi m = None \<longleftrightarrow> clear_bits test lo hi m = 0"
  by (simp add: find_clear_def for_find_None_iff clear_bits_0_iff)

lemma take_count:
  "find_clear test lo hi m = Some i \<Longrightarrow> Suc (clear_bits test lo hi (set_bit m i)) = clear_bits test lo hi m"
  by (simp add: clear_bits_set find_clear_range)

lemma take_give_back: "find_clear test lo hi m = Some i \<Longrightarrow> clear_bit (set_bit m i) i = m"
  by (simp add: clear_set find_clear_range)

lemma take_twice_distinct:
  "find_clear test lo hi m = Some i \<Longrightarrow> find_clear test lo hi (set_bit m i) = Some j \<Longrightarrow> i < j"
  by (metis find_clear_lowest find_clear_range linorder_neqE_nat set_then_test test_set)

lemma find_clear_hit: "clear_bits test lo hi m \<noteq> 0 \<Longrightarrow> \<exists>i. find_clear test lo hi m = Some i"
  using find_clear_None [of m] by (cases "find_clear test lo hi m") auto

end

end
