(* ===== verification/FsDisk.thy ===== *)
theory FsDisk
  imports Cstr Bitmap
begin

text \<open>
  The RAM disk of \<^verbatim>\<open>kernel/fs.c\<close> as bytes: the file's own memory, string and bitmap helpers, and
  the packed structures of \<^verbatim>\<open>include/fs.h\<close> at their byte offsets. Addresses are offsets from
  \<^verbatim>\<open>RAMDISK_ADDR\<close>. The pointers \<^verbatim>\<open>sb\<close>, \<^verbatim>\<open>inode_bitmap\<close>, \<^verbatim>\<open>block_bitmap\<close>, \<^verbatim>\<open>inodes\<close> and \<^verbatim>\<open>root_dir\<close>
  that \<^verbatim>\<open>fs_init\<close> sets once are constants here.
\<close>

section \<open>Layout constants\<close>

abbreviation (input) FS_BLOCK_SIZE :: nat where "FS_BLOCK_SIZE \<equiv> 4096"
abbreviation (input) FS_NUM_BLOCKS :: nat where "FS_NUM_BLOCKS \<equiv> 256"
abbreviation (input) FS_DISK_SIZE :: nat where "FS_DISK_SIZE \<equiv> 1048576"
abbreviation (input) FS_MAX_INODES :: nat where "FS_MAX_INODES \<equiv> 64"
abbreviation (input) FS_MAX_FDS :: nat where "FS_MAX_FDS \<equiv> 32"
abbreviation (input) FS_MAX_NAME :: nat where "FS_MAX_NAME \<equiv> 24"
abbreviation (input) FS_DIRECT :: nat where "FS_DIRECT \<equiv> 8"
abbreviation (input) FS_ROOT_INODE :: nat where "FS_ROOT_INODE \<equiv> 0"
abbreviation (input) FS_ROOT_BLOCK :: nat where "FS_ROOT_BLOCK \<equiv> 4"
abbreviation (input) FS_DATA_START :: nat where "FS_DATA_START \<equiv> 5"
abbreviation (input) FS_FILE :: u8 where "FS_FILE \<equiv> 1"
abbreviation (input) FS_DIR :: u8 where "FS_DIR \<equiv> 2"

abbreviation (input) inode_bitmap :: nat where "inode_bitmap \<equiv> 4096"
abbreviation (input) block_bitmap :: nat where "block_bitmap \<equiv> 8192"
abbreviation (input) DIR_ENTRIES :: nat where "DIR_ENTRIES \<equiv> 128"

section \<open>Memory and string helpers\<close>

primrec k_memset :: "memory \<Rightarrow> nat \<Rightarrow> u8 \<Rightarrow> nat \<Rightarrow> memory" where
  "k_memset m d v 0 = m"
| "k_memset m d v (Suc n) = k_memset (wr8 m d v) (Suc d) v n"

primrec k_memcpy :: "memory \<Rightarrow> nat \<Rightarrow> memory \<Rightarrow> nat \<Rightarrow> nat \<Rightarrow> memory" where
  "k_memcpy m d src s 0 = m"
| "k_memcpy m d src s (Suc n) = k_memcpy (wr8 m d (src s)) (Suc d) src (Suc s) n"

function k_strlen_from :: "cstr \<Rightarrow> nat \<Rightarrow> nat" where
  "k_strlen_from s n = (if c_at s n \<noteq> 0 then k_strlen_from s (n + 1) else n)"
  by pat_completeness auto
termination
  by (relation "measure (\<lambda>(s, n). length s - n)") (auto simp: c_at_def split: if_splits)

definition k_strlen :: "cstr \<Rightarrow> nat" where
  "k_strlen s = k_strlen_from s 0"

text \<open>\<^verbatim>\<open>k_strcmp\<close> with its first string in memory and its second one an argument; \<open>i\<close> is how far
  both pointers have moved.\<close>

function k_strcmp_from :: "memory \<Rightarrow> nat \<Rightarrow> cstr \<Rightarrow> nat \<Rightarrow> int" where
  "k_strcmp_from m a b i =
     (if m (a + i) \<noteq> 0 \<and> m (a + i) = c_at b i then k_strcmp_from m a b (i + 1)
      else uint (m (a + i)) - uint (c_at b i))"
  by pat_completeness auto
termination
  by (relation "measure (\<lambda>(m, a, b, i). length b - i)") (auto simp: c_at_def split: if_splits)

definition k_strcmp :: "memory \<Rightarrow> nat \<Rightarrow> cstr \<Rightarrow> int" where
  "k_strcmp m a b = k_strcmp_from m a b 0"

function k_strncpy_from :: "memory \<Rightarrow> nat \<Rightarrow> cstr \<Rightarrow> nat \<Rightarrow> nat \<Rightarrow> memory" where
  "k_strncpy_from m dst src mx i =
     (if i + 1 < mx \<and> c_at src i \<noteq> 0
      then k_strncpy_from (wr8 m (dst + i) (c_at src i)) dst src mx (i + 1)
      else wr8 m (dst + i) 0)"
  by pat_completeness auto
termination
  by (relation "measure (\<lambda>(m, dst, src, mx, i). mx - i)") auto

definition k_strncpy :: "memory \<Rightarrow> nat \<Rightarrow> cstr \<Rightarrow> nat \<Rightarrow> memory" where
  "k_strncpy m dst src mx = (if mx = 0 then m else k_strncpy_from m dst src mx 0)"

declare k_strlen_from.simps [simp del] k_strcmp_from.simps [simp del] k_strncpy_from.simps [simp del]

section \<open>Bitmap functions\<close>

definition bit_test :: "memory \<Rightarrow> nat \<Rightarrow> nat \<Rightarrow> bool" where
  "bit_test m bm n \<longleftrightarrow> drop_bit (n mod 8) (m (bm + n div 8)) AND 1 \<noteq> 0"

definition bit_set :: "memory \<Rightarrow> nat \<Rightarrow> nat \<Rightarrow> memory" where
  "bit_set m bm n =
     wr8 m (bm + n div 8) (m (bm + n div 8) OR ucast (push_bit (n mod 8) (1 :: u32)))"

definition bit_clear :: "memory \<Rightarrow> nat \<Rightarrow> nat \<Rightarrow> memory" where
  "bit_clear m bm n =
     wr8 m (bm + n div 8) (m (bm + n div 8) AND ucast (NOT (push_bit (n mod 8) (1 :: u32))))"

section \<open>The inode table\<close>

text \<open>The packed \<^verbatim>\<open>inode_t\<close> is 64 bytes: \<^verbatim>\<open>used\<close> at 0, \<^verbatim>\<open>type\<close> at 1, \<^verbatim>\<open>mode\<close> at 2, \<^verbatim>\<open>size\<close> at 4,
  \<^verbatim>\<open>blocks\<close> at 8 and \<^verbatim>\<open>name\<close> at 40.\<close>

record inode_t =
  i_used :: u8
  i_type :: u8
  i_mode :: u16
  i_size :: u32
  i_blocks :: "u32 list"
  i_name :: "u8 list"

definition inode_addr :: "nat \<Rightarrow> nat" where
  "inode_addr i = 3 * FS_BLOCK_SIZE + 64 * i"

definition inode_used :: "memory \<Rightarrow> nat \<Rightarrow> u8" where
  "inode_used m i = m (inode_addr i)"

definition inode_type :: "memory \<Rightarrow> nat \<Rightarrow> u8" where
  "inode_type m i = m (inode_addr i + 1)"

definition inode_size :: "memory \<Rightarrow> nat \<Rightarrow> u32" where
  "inode_size m i = rd32 m (inode_addr i + 4)"

definition inode_block :: "memory \<Rightarrow> nat \<Rightarrow> nat \<Rightarrow> u32" where
  "inode_block m i k = rd32 m (inode_addr i + 8 + 4 * k)"

definition inode_name_addr :: "nat \<Rightarrow> nat" where
  "inode_name_addr i = inode_addr i + 40"

definition set_inode_used :: "memory \<Rightarrow> nat \<Rightarrow> u8 \<Rightarrow> memory" where
  "set_inode_used m i v = wr8 m (inode_addr i) v"

definition set_inode_type :: "memory \<Rightarrow> nat \<Rightarrow> u8 \<Rightarrow> memory" where
  "set_inode_type m i v = wr8 m (inode_addr i + 1) v"

definition set_inode_size :: "memory \<Rightarrow> nat \<Rightarrow> u32 \<Rightarrow> memory" where
  "set_inode_size m i v = wr32 m (inode_addr i + 4) v"

definition set_inode_block :: "memory \<Rightarrow> nat \<Rightarrow> nat \<Rightarrow> u32 \<Rightarrow> memory" where
  "set_inode_block m i k v = wr32 m (inode_addr i + 8 + 4 * k) v"

definition load_inode :: "memory \<Rightarrow> nat \<Rightarrow> inode_t" where
  "load_inode m i =
     \<lparr>i_used = inode_used m i, i_type = inode_type m i, i_mode = rd16 m (inode_addr i + 2),
      i_size = inode_size m i, i_blocks = map (inode_block m i) [0..<FS_DIRECT],
      i_name = map m [inode_name_addr i..<inode_name_addr i + FS_MAX_NAME]\<rparr>"

section \<open>The root directory\<close>

text \<open>The packed \<^verbatim>\<open>dirent_t\<close> is 32 bytes: \<^verbatim>\<open>inode\<close> at 0, \<^verbatim>\<open>used\<close> at 2 and \<^verbatim>\<open>name\<close> at 3.\<close>

record dirent_t =
  d_inode :: u16
  d_used :: u8
  d_name :: "u8 list"

definition dirent_addr :: "nat \<Rightarrow> nat" where
  "dirent_addr i = FS_ROOT_BLOCK * FS_BLOCK_SIZE + 32 * i"

definition dirent_inode :: "memory \<Rightarrow> nat \<Rightarrow> u16" where
  "dirent_inode m i = rd16 m (dirent_addr i)"

definition dirent_used :: "memory \<Rightarrow> nat \<Rightarrow> u8" where
  "dirent_used m i = m (dirent_addr i + 2)"

definition dirent_name_addr :: "nat \<Rightarrow> nat" where
  "dirent_name_addr i = dirent_addr i + 3"

definition set_dirent_inode :: "memory \<Rightarrow> nat \<Rightarrow> u16 \<Rightarrow> memory" where
  "set_dirent_inode m i v = wr16 m (dirent_addr i) v"

definition set_dirent_used :: "memory \<Rightarrow> nat \<Rightarrow> u8 \<Rightarrow> memory" where
  "set_dirent_used m i v = wr8 m (dirent_addr i + 2) v"

definition load_dirent :: "memory \<Rightarrow> nat \<Rightarrow> dirent_t" where
  "load_dirent m i =
     \<lparr>d_inode = dirent_inode m i, d_used = dirent_used m i,
      d_name = map m [dirent_name_addr i..<dirent_name_addr i + 29]\<rparr>"

section \<open>Closed forms of the helpers\<close>

lemma k_memset_fill: "k_memset m d v n = fill m d v n"
  by (induction n arbitrary: m d) (simp_all add: fill_Suc)

definition blit :: "memory \<Rightarrow> nat \<Rightarrow> memory \<Rightarrow> nat \<Rightarrow> nat \<Rightarrow> memory" where
  "blit m d src s n = (\<lambda>a. if d \<le> a \<and> a < d + n then src (s + (a - d)) else m a)"

lemma blit_at [mem_simps]: "blit m d src s n a = (if d \<le> a \<and> a < d + n then src (s + (a - d)) else m a)"
  by (simp add: blit_def)

lemma k_memcpy_blit: "k_memcpy m d src s n = blit m d src s n"
proof (induction n arbitrary: m d s)
  case 0
  show ?case by (auto simp: blit_def fun_eq_iff)
next
  case (Suc n)
  have "blit (wr8 m d (src s)) (Suc d) src (Suc s) n = blit m d src s (Suc n)"
  proof
    fix a
    show "blit (wr8 m d (src s)) (Suc d) src (Suc s) n a = blit m d src s (Suc n) a"
      by (cases "a = d") (auto simp: blit_def wr8_def Suc_diff_Suc)
  qed
  with Suc show ?case by simp
qed

lemma k_strlen_from_length: "cstr_ok s \<Longrightarrow> n \<le> length s \<Longrightarrow> k_strlen_from s n = length s"
proof (induction s n rule: k_strlen_from.induct)
  case (1 s n)
  then show ?case
    by (cases "c_at s n = 0") (subst k_strlen_from.simps; simp add: c_at_0_iff)+
qed

lemma k_strlen_length: "cstr_ok s \<Longrightarrow> k_strlen s = length s"
  by (simp add: k_strlen_def k_strlen_from_length)

text \<open>\<open>str_at\<close> says that a NUL-terminated copy of a string starts at an address.\<close>

definition str_at :: "memory \<Rightarrow> nat \<Rightarrow> cstr \<Rightarrow> bool" where
  "str_at m p s \<longleftrightarrow> (\<forall>i < length s. m (p + i) = s ! i) \<and> m (p + length s) = 0"

lemma k_strcmp_from_eq_0:
  "cstr_ok b \<Longrightarrow> i \<le> length b \<Longrightarrow>
     k_strcmp_from m a b i = 0 \<longleftrightarrow> (\<forall>j. i \<le> j \<and> j < length b \<longrightarrow> m (a + j) = b ! j) \<and> m (a + length b) = 0"
proof (induction m a b i rule: k_strcmp_from.induct)
  case (1 m a b i)
  show ?case
  proof (cases "i < length b")
    case True
    then have nz: "c_at b i = b ! i" "c_at b i \<noteq> 0"
      using "1.prems"(1) by (simp add: c_at_def, simp add: c_at_0_iff)
    show ?thesis
    proof (cases "m (a + i) = b ! i")
      case eq: True
      then have "k_strcmp_from m a b i = k_strcmp_from m a b (i + 1)"
        using nz by (subst k_strcmp_from.simps) simp
      also have "\<dots> = 0 \<longleftrightarrow> (\<forall>j. Suc i \<le> j \<and> j < length b \<longrightarrow> m (a + j) = b ! j) \<and> m (a + length b) = 0"
        using "1.IH" "1.prems" True nz eq by simp
      finally show ?thesis
        using eq by (simp only: all_from_Suc [OF True] simp_thms)
    next
      case neq: False
      then have "k_strcmp_from m a b i = uint (m (a + i)) - uint (b ! i)"
        using nz by (subst k_strcmp_from.simps) simp
      moreover have "uint (m (a + i)) \<noteq> uint (b ! i)" using neq by (simp add: word_uint_eq_iff)
      ultimately show ?thesis using neq True by auto
    qed
  next
    case False
    then have "i = length b" "c_at b i = 0" using "1.prems" by (simp_all add: c_at_def)
    then show ?thesis by (subst k_strcmp_from.simps) (auto simp: uint_0_iff)
  qed
qed

lemma k_strcmp_eq_0: "cstr_ok b \<Longrightarrow> k_strcmp m a b = 0 \<longleftrightarrow> str_at m a b"
  by (auto simp: k_strcmp_def str_at_def k_strcmp_from_eq_0)

lemma k_strncpy_from_put:
  "cstr_ok src \<Longrightarrow> i < mx \<Longrightarrow>
     k_strncpy_from m dst src mx i = put_str m (dst + i) (take (mx - 1 - i) (drop i src))"
proof (induction m dst src mx i rule: k_strncpy_from.induct)
  case (1 m dst src mx i)
  show ?case
  proof (cases "i + 1 < mx \<and> c_at src i \<noteq> 0")
    case True
    then have lt: "i < length src" using "1.prems" by (simp add: c_at_0_iff)
    obtain k where k: "mx - Suc i = Suc k" using True by (metis Suc_diff_Suc add.commute plus_1_eq_Suc)
    then have k': "mx - 1 - (i + 1) = k" by simp
    have "k_strncpy_from m dst src mx i
        = put_str (wr8 m (dst + i) (c_at src i)) (dst + (i + 1)) (take k (drop (i + 1) src))"
      using True "1.IH" "1.prems" k' by (subst k_strncpy_from.simps) simp
    also have "\<dots> = put_str m (dst + i) (c_at src i # take k (drop (i + 1) src))"
      by (simp add: put_str_Cons)
    also have "c_at src i # take k (drop (i + 1) src) = take (mx - 1 - i) (drop i src)"
      using lt by (simp add: k c_at_def Cons_nth_drop_Suc [symmetric])
    finally show ?thesis .
  next
    case False
    then have "take (mx - 1 - i) (drop i src) = []"
      using "1.prems" by (auto simp: c_at_0_iff)
    with False show ?thesis by (subst k_strncpy_from.simps) (auto simp: put_str_Nil)
  qed
qed

lemma k_strncpy_put: "cstr_ok src \<Longrightarrow> 0 < mx \<Longrightarrow> k_strncpy m dst src mx = put_str m dst (take (mx - 1) src)"
  by (simp add: k_strncpy_def k_strncpy_from_put)

lemma str_at_put_str: "str_at (put_str m p s) p s"
  by (simp add: str_at_def put_str_def)

lemma str_at_unique:
  assumes "str_at m p s" "str_at m p t" "cstr_ok s" "cstr_ok t"
  shows "s = t"
proof (rule nth_equalityI)
  have "\<not> length s < length t"
    using assms by (auto simp: str_at_def cstr_ok_def) (metis nth_mem)
  moreover have "\<not> length t < length s"
    using assms by (auto simp: str_at_def cstr_ok_def) (metis nth_mem)
  ultimately show len: "length s = length t" by simp
  show "s ! i = t ! i" if "i < length s" for i
    using assms that len by (simp add: str_at_def)
qed

end
