(* ===== verification/FsView.thy ===== *)
theory FsView
  imports FsDisk
begin

text \<open>
  The typed view of the RAM disk: the bytes of the disk read as the two bitmaps, the inode
  table, the root directory and the data blocks. Every store the file system performs, stated
  on bytes in \<^verbatim>\<open>FsDisk\<close>, is shown to change exactly one component of the view, which is where
  the layout arithmetic (packed offsets, block numbers, array strides) is discharged once.
\<close>

section \<open>The view\<close>

definition zero_inode :: inode_t where
  "zero_inode = \<lparr>i_used = 0, i_type = 0, i_mode = 0, i_size = 0, i_blocks = replicate 8 0,
     i_name = replicate 24 0\<rparr>"

definition zero_dirent :: dirent_t where
  "zero_dirent = \<lparr>d_inode = 0, d_used = 0, d_name = replicate 29 0\<rparr>"

record fs_view =
  v_ibm :: "nat \<Rightarrow> bool"
  v_bbm :: "nat \<Rightarrow> bool"
  v_ino :: "nat \<Rightarrow> inode_t"
  v_dir :: "nat \<Rightarrow> dirent_t"
  v_data :: memory

definition view_ibm :: "memory \<Rightarrow> nat \<Rightarrow> bool" where
  "view_ibm m = (\<lambda>n. n < FS_MAX_INODES \<and> bit_test m inode_bitmap n)"

definition view_bbm :: "memory \<Rightarrow> nat \<Rightarrow> bool" where
  "view_bbm m = (\<lambda>n. n < FS_NUM_BLOCKS \<and> bit_test m block_bitmap n)"

definition view_ino :: "memory \<Rightarrow> nat \<Rightarrow> inode_t" where
  "view_ino m = (\<lambda>i. if i < FS_MAX_INODES then load_inode m i else zero_inode)"

definition view_dir :: "memory \<Rightarrow> nat \<Rightarrow> dirent_t" where
  "view_dir m = (\<lambda>i. if i < DIR_ENTRIES then load_dirent m i else zero_dirent)"

definition view_data :: "memory \<Rightarrow> memory" where
  "view_data m = (\<lambda>a. if FS_DATA_START * FS_BLOCK_SIZE \<le> a \<and> a < FS_DISK_SIZE then m a else 0)"

definition view :: "memory \<Rightarrow> fs_view" where
  "view m = \<lparr>v_ibm = view_ibm m, v_bbm = view_bbm m, v_ino = view_ino m, v_dir = view_dir m,
     v_data = view_data m\<rparr>"

section \<open>Each component depends on its own blocks\<close>

lemma bit_test_bit: "bit_test m bm n = bit (m (bm + n div 8)) (n mod 8)"
  by (simp add: bit_test_def and_1_neq_0_iff_bit)

lemma view_ibm_cong: "same_on 4096 8192 m m' \<Longrightarrow> view_ibm m = view_ibm m'"
  by (auto simp: view_ibm_def bit_test_bit fun_eq_iff same_on_def)

lemma view_bbm_cong: "same_on 8192 12288 m m' \<Longrightarrow> view_bbm m = view_bbm m'"
  by (auto simp: view_bbm_def bit_test_bit fun_eq_iff same_on_def)

lemma load_inode_cong:
  assumes "same_on (inode_addr i) (inode_addr i + 64) m m'"
  shows "load_inode m i = load_inode m' i"
  using assms rd16_cong [OF assms, of "inode_addr i + 2"] rd32_cong [OF assms, of "inode_addr i + 4"]
    rd32_cong [OF assms]
  by (auto simp: load_inode_def inode_used_def inode_type_def inode_size_def inode_block_def
      inode_name_addr_def same_on_def)

lemma view_ino_cong:
  assumes "same_on 12288 16384 m m'"
  shows "view_ino m = view_ino m'"
proof
  fix i
  show "view_ino m i = view_ino m' i"
    by (cases "i < 64")
      (auto simp: view_ino_def intro!: load_inode_cong same_on_mono [OF assms] simp: inode_addr_def)
qed

lemma load_dirent_cong:
  assumes "same_on (dirent_addr i) (dirent_addr i + 32) m m'"
  shows "load_dirent m i = load_dirent m' i"
  using assms rd16_cong [OF assms, of "dirent_addr i"]
  by (auto simp: load_dirent_def dirent_inode_def dirent_used_def dirent_name_addr_def same_on_def)

lemma view_dir_cong:
  assumes "same_on 16384 20480 m m'"
  shows "view_dir m = view_dir m'"
proof
  fix i
  show "view_dir m i = view_dir m' i"
    by (cases "i < 128")
      (auto simp: view_dir_def intro!: load_dirent_cong same_on_mono [OF assms] simp: dirent_addr_def)
qed

lemma view_data_cong: "same_on 20480 1048576 m m' \<Longrightarrow> view_data m = view_data m'"
  by (auto simp: view_data_def fun_eq_iff same_on_def)

text \<open>A store that stays inside one region leaves the other four components alone.\<close>

lemma view_eqI:
  assumes "view_ibm m = a" "view_bbm m = b" "view_ino m = c" "view_dir m = d" "view_data m = e"
  shows "view m = \<lparr>v_ibm = a, v_bbm = b, v_ino = c, v_dir = d, v_data = e\<rparr>"
  using assms by (simp add: view_def)

lemma view_store_ibm:
  assumes "\<And>a. a < 4096 \<or> 8192 \<le> a \<Longrightarrow> m' a = m a"
  shows "view m' = (view m)\<lparr>v_ibm := view_ibm m'\<rparr>"
proof -
  have "view_bbm m' = view_bbm m" "view_ino m' = view_ino m" "view_dir m' = view_dir m"
    "view_data m' = view_data m"
    by (auto intro!: view_bbm_cong view_ino_cong view_dir_cong view_data_cong same_onI assms)
  then show ?thesis by (simp add: view_def)
qed

lemma view_store_bbm:
  assumes "\<And>a. a < 8192 \<or> 12288 \<le> a \<Longrightarrow> m' a = m a"
  shows "view m' = (view m)\<lparr>v_bbm := view_bbm m'\<rparr>"
proof -
  have "view_ibm m' = view_ibm m" "view_ino m' = view_ino m" "view_dir m' = view_dir m"
    "view_data m' = view_data m"
    by (auto intro!: view_ibm_cong view_ino_cong view_dir_cong view_data_cong same_onI assms)
  then show ?thesis by (simp add: view_def)
qed

lemma view_store_ino:
  assumes "i < 64" "\<And>a. a < inode_addr i \<or> inode_addr i + 64 \<le> a \<Longrightarrow> m' a = m a"
    and "load_inode m' i = x"
  shows "view m' = (view m)\<lparr>v_ino := (v_ino (view m))(i := x)\<rparr>"
proof -
  have r: "m' a = m a" if "a < 12288 \<or> 16384 \<le> a" for a
    using assms(1) that by (intro assms(2)) (auto simp: inode_addr_def)
  have "view_ibm m' = view_ibm m" "view_bbm m' = view_bbm m" "view_dir m' = view_dir m"
    "view_data m' = view_data m"
    by (auto intro!: view_ibm_cong view_bbm_cong view_dir_cong view_data_cong same_onI r)
  moreover have "view_ino m' = (view_ino m)(i := x)"
  proof
    fix j
    have "load_inode m' j = load_inode m j" if "j \<noteq> i"
      using that by (intro load_inode_cong same_onI assms(2)) (auto simp: inode_addr_def)
    then show "view_ino m' j = ((view_ino m)(i := x)) j"
      using assms(1,3) by (auto simp: view_ino_def)
  qed
  ultimately show ?thesis by (simp add: view_def)
qed

lemma view_store_dir:
  assumes "i < 128" "\<And>a. a < dirent_addr i \<or> dirent_addr i + 32 \<le> a \<Longrightarrow> m' a = m a"
    and "load_dirent m' i = x"
  shows "view m' = (view m)\<lparr>v_dir := (v_dir (view m))(i := x)\<rparr>"
proof -
  have r: "m' a = m a" if "a < 16384 \<or> 20480 \<le> a" for a
    using assms(1) that by (intro assms(2)) (auto simp: dirent_addr_def)
  have "view_ibm m' = view_ibm m" "view_bbm m' = view_bbm m" "view_ino m' = view_ino m"
    "view_data m' = view_data m"
    by (auto intro!: view_ibm_cong view_bbm_cong view_ino_cong view_data_cong same_onI r)
  moreover have "view_dir m' = (view_dir m)(i := x)"
  proof
    fix j
    have "load_dirent m' j = load_dirent m j" if "j \<noteq> i"
      using that by (intro load_dirent_cong same_onI assms(2)) (auto simp: dirent_addr_def)
    then show "view_dir m' j = ((view_dir m)(i := x)) j"
      using assms(1,3) by (auto simp: view_dir_def)
  qed
  ultimately show ?thesis by (simp add: view_def)
qed

lemma view_store_data:
  assumes "\<And>a. a < 20480 \<or> 1048576 \<le> a \<Longrightarrow> m' a = m a"
  shows "view m' = (view m)\<lparr>v_data := view_data m'\<rparr>"
proof -
  have "view_ibm m' = view_ibm m" "view_bbm m' = view_bbm m" "view_ino m' = view_ino m"
    "view_dir m' = view_dir m"
    by (auto intro!: view_ibm_cong view_bbm_cong view_ino_cong view_dir_cong same_onI assms)
  then show ?thesis by (simp add: view_def)
qed

section \<open>The byte bitmaps are bitmaps\<close>

lemma ucast_push_1: "k < 8 \<Longrightarrow> (ucast (push_bit k (1 :: u32)) :: u8) = 2 ^ k"
  by (rule bit_word_eqI) (auto simp: bit_simps)

lemma ucast_not_push_1: "k < 8 \<Longrightarrow> (ucast (NOT (push_bit k (1 :: u32))) :: u8) = NOT (2 ^ k)"
  by (rule bit_word_eqI) (auto simp: bit_simps)

lemma bit_set_alt: "bit_set m bm n = wr8 m (bm + n div 8) (m (bm + n div 8) OR 2 ^ (n mod 8))"
  unfolding bit_set_def by (subst ucast_push_1) simp_all

lemma bit_clear_alt: "bit_clear m bm n = wr8 m (bm + n div 8) (m (bm + n div 8) AND NOT (2 ^ (n mod 8)))"
  unfolding bit_clear_def by (subst ucast_not_push_1) simp_all

lemma bit_test_set: "bit_test (bit_set m bm n) bm k \<longleftrightarrow> k = n \<or> bit_test m bm k"
  by (auto simp: bit_test_bit bit_set_alt wr8_at bit_or_2p dest: div_mod_neq)

lemma bit_test_clear: "bit_test (bit_clear m bm n) bm k \<longleftrightarrow> k \<noteq> n \<and> bit_test m bm k"
  by (auto simp: bit_test_bit bit_clear_alt wr8_at bit_and_not_2p dest: div_mod_neq)

lemma bit_clear_set: "\<not> bit_test m bm n \<Longrightarrow> bit_clear (bit_set m bm n) bm n = m"
  by (auto simp: bit_test_bit bit_set_alt bit_clear_alt wr8_def fun_eq_iff or_2p_and_not_2p)

interpretation inode_map: first_fit "\<lambda>m. bit_test m inode_bitmap" "\<lambda>m. bit_set m inode_bitmap"
  "\<lambda>m. bit_clear m inode_bitmap" 1 FS_MAX_INODES
  by unfold_locales (simp_all add: bit_test_set bit_test_clear bit_clear_set)

interpretation block_map: first_fit "\<lambda>m. bit_test m block_bitmap" "\<lambda>m. bit_set m block_bitmap"
  "\<lambda>m. bit_clear m block_bitmap" FS_DATA_START FS_NUM_BLOCKS
  by unfold_locales (simp_all add: bit_test_set bit_test_clear bit_clear_set)

section \<open>Each store in the view\<close>

named_theorems view_simps \<open>the view after each store\<close>

lemma view_bit_set_inode [view_simps]:
  assumes "n < 64"
  shows "view (bit_set m inode_bitmap n) = (view m)\<lparr>v_ibm := (v_ibm (view m))(n := True)\<rparr>"
proof -
  have "view (bit_set m inode_bitmap n) = (view m)\<lparr>v_ibm := view_ibm (bit_set m inode_bitmap n)\<rparr>"
    by (rule view_store_ibm) (use assms in \<open>auto simp: bit_set_alt wr8_at\<close>)
  moreover have "view_ibm (bit_set m inode_bitmap n) = (view_ibm m)(n := True)"
    using assms by (auto simp: view_ibm_def bit_test_set fun_eq_iff)
  ultimately show ?thesis by (simp add: view_def)
qed

lemma view_bit_clear_inode [view_simps]:
  assumes "n < 64"
  shows "view (bit_clear m inode_bitmap n) = (view m)\<lparr>v_ibm := (v_ibm (view m))(n := False)\<rparr>"
proof -
  have "view (bit_clear m inode_bitmap n) = (view m)\<lparr>v_ibm := view_ibm (bit_clear m inode_bitmap n)\<rparr>"
    by (rule view_store_ibm) (use assms in \<open>auto simp: bit_clear_alt wr8_at\<close>)
  moreover have "view_ibm (bit_clear m inode_bitmap n) = (view_ibm m)(n := False)"
    by (auto simp: view_ibm_def bit_test_clear fun_eq_iff)
  ultimately show ?thesis by (simp add: view_def)
qed

lemma view_bit_set_block [view_simps]:
  assumes "n < 256"
  shows "view (bit_set m block_bitmap n) = (view m)\<lparr>v_bbm := (v_bbm (view m))(n := True)\<rparr>"
proof -
  have "view (bit_set m block_bitmap n) = (view m)\<lparr>v_bbm := view_bbm (bit_set m block_bitmap n)\<rparr>"
    by (rule view_store_bbm) (use assms in \<open>auto simp: bit_set_alt wr8_at\<close>)
  moreover have "view_bbm (bit_set m block_bitmap n) = (view_bbm m)(n := True)"
    using assms by (auto simp: view_bbm_def bit_test_set fun_eq_iff)
  ultimately show ?thesis by (simp add: view_def)
qed

lemma view_bit_clear_block [view_simps]:
  assumes "n < 256"
  shows "view (bit_clear m block_bitmap n) = (view m)\<lparr>v_bbm := (v_bbm (view m))(n := False)\<rparr>"
proof -
  have "view (bit_clear m block_bitmap n) = (view m)\<lparr>v_bbm := view_bbm (bit_clear m block_bitmap n)\<rparr>"
    by (rule view_store_bbm) (use assms in \<open>auto simp: bit_clear_alt wr8_at\<close>)
  moreover have "view_bbm (bit_clear m block_bitmap n) = (view_bbm m)(n := False)"
    by (auto simp: view_bbm_def bit_test_clear fun_eq_iff)
  ultimately show ?thesis by (simp add: view_def)
qed

lemma v_ino_load: "i < 64 \<Longrightarrow> v_ino (view m) i = load_inode m i"
  by (simp add: view_def view_ino_def)

lemma v_dir_load: "i < 128 \<Longrightarrow> v_dir (view m) i = load_dirent m i"
  by (simp add: view_def view_dir_def)

lemmas inode_access = load_inode_def inode_used_def inode_type_def inode_size_def inode_block_def
  inode_name_addr_def set_inode_used_def set_inode_type_def set_inode_size_def set_inode_block_def

lemma load_set_used: "load_inode (set_inode_used m i v) i = (load_inode m i)\<lparr>i_used := v\<rparr>"
  by (simp add: inode_access mem_simps)

lemma load_set_type: "load_inode (set_inode_type m i v) i = (load_inode m i)\<lparr>i_type := v\<rparr>"
  by (simp add: inode_access mem_simps)

lemma load_set_size: "load_inode (set_inode_size m i v) i = (load_inode m i)\<lparr>i_size := v\<rparr>"
  by (simp add: inode_access mem_simps)

lemma load_set_block:
  assumes "k < 8"
  shows "load_inode (set_inode_block m i k v) i
     = (load_inode m i)\<lparr>i_blocks := (i_blocks (load_inode m i))[k := v]\<rparr>"
proof -
  have "rd32 (wr32 m (inode_addr i + 8 + 4 * k) v) (inode_addr i + 8 + 4 * j)
      = (if j = k then v else rd32 m (inode_addr i + 8 + 4 * j))" for j
  proof (cases "j = k")
    case False
    then have "inode_addr i + 8 + 4 * k + 4 \<le> inode_addr i + 8 + 4 * j
        \<or> inode_addr i + 8 + 4 * j + 4 \<le> inode_addr i + 8 + 4 * k" by linarith
    with False show ?thesis by (simp add: rd32_wr32_other)
  qed (simp add: rd32_wr32)
  then have "map (inode_block (set_inode_block m i k v) i) [0..<8] = (map (inode_block m i) [0..<8])[k := v]"
    using assms by (intro nth_equalityI) (auto simp: inode_block_def set_inode_block_def nth_list_update)
  then show ?thesis
    using assms by (simp add: inode_access mem_simps)
qed

lemma load_put_name:
  assumes "length s < 24"
  shows "load_inode (put_str m (inode_name_addr i) s) i
     = (load_inode m i)\<lparr>i_name := s @ 0 # drop (Suc (length s)) (i_name (load_inode m i))\<rparr>"
proof -
  let ?p = "inode_name_addr i"
  have "map (put_str m ?p s) [?p..<?p + 24] = s @ 0 # drop (Suc (length s)) (map m [?p..<?p + 24])"
    using assms by (intro nth_equalityI) (auto simp: put_str_at nth_append nth_Cons')
  then show ?thesis
    using assms by (simp add: inode_access mem_simps rd16_def rd32_def)
qed

lemma load_clear_inode: "load_inode (k_memset m (inode_addr i) 0 64) i = zero_inode"
  by (simp add: inode_access zero_inode_def k_memset_fill mem_simps upt_rec numeral_eq_Suc)

lemma view_set_inode_used [view_simps]:
  "i < 64 \<Longrightarrow> view (set_inode_used m i v)
     = (view m)\<lparr>v_ino := (v_ino (view m))(i := (v_ino (view m) i)\<lparr>i_used := v\<rparr>)\<rparr>"
  by (rule view_store_ino, assumption, force simp: set_inode_used_def wr8_at, simp add: load_set_used v_ino_load)

lemma view_set_inode_type [view_simps]:
  "i < 64 \<Longrightarrow> view (set_inode_type m i v)
     = (view m)\<lparr>v_ino := (v_ino (view m))(i := (v_ino (view m) i)\<lparr>i_type := v\<rparr>)\<rparr>"
  by (rule view_store_ino, assumption, force simp: set_inode_type_def wr8_at, simp add: load_set_type v_ino_load)

lemma view_set_inode_size [view_simps]:
  "i < 64 \<Longrightarrow> view (set_inode_size m i v)
     = (view m)\<lparr>v_ino := (v_ino (view m))(i := (v_ino (view m) i)\<lparr>i_size := v\<rparr>)\<rparr>"
  by (rule view_store_ino, assumption, force simp: set_inode_size_def wr32_other, simp add: load_set_size v_ino_load)

lemma view_set_inode_block [view_simps]:
  "i < 64 \<Longrightarrow> k < 8 \<Longrightarrow> view (set_inode_block m i k v)
     = (view m)\<lparr>v_ino := (v_ino (view m))(i := (v_ino (view m) i)
         \<lparr>i_blocks := (i_blocks (v_ino (view m) i))[k := v]\<rparr>)\<rparr>"
  by (rule view_store_ino, assumption, force simp: set_inode_block_def wr32_other, simp add: load_set_block v_ino_load)

lemma view_inode_name [view_simps]:
  "i < 64 \<Longrightarrow> length s < 24 \<Longrightarrow> view (put_str m (inode_name_addr i) s)
     = (view m)\<lparr>v_ino := (v_ino (view m))(i := (v_ino (view m) i)
         \<lparr>i_name := s @ 0 # drop (Suc (length s)) (i_name (v_ino (view m) i))\<rparr>)\<rparr>"
  by (rule view_store_ino, assumption, force simp: inode_name_addr_def put_str_at, simp add: load_put_name v_ino_load)

lemma view_clear_inode [view_simps]:
  "i < 64 \<Longrightarrow> view (k_memset m (inode_addr i) 0 64)
     = (view m)\<lparr>v_ino := (v_ino (view m))(i := zero_inode)\<rparr>"
  by (rule view_store_ino, assumption, force simp: k_memset_fill fill_at, simp add: load_clear_inode)

lemmas dirent_access = load_dirent_def dirent_inode_def dirent_used_def dirent_name_addr_def
  set_dirent_inode_def set_dirent_used_def

lemma view_set_dirent_used [view_simps]:
  "i < 128 \<Longrightarrow> view (set_dirent_used m i v)
     = (view m)\<lparr>v_dir := (v_dir (view m))(i := (v_dir (view m) i)\<lparr>d_used := v\<rparr>)\<rparr>"
  by (rule view_store_dir, assumption, force simp: set_dirent_used_def wr8_at, simp add: dirent_access mem_simps v_dir_load)

lemma view_set_dirent_inode [view_simps]:
  "i < 128 \<Longrightarrow> view (set_dirent_inode m i v)
     = (view m)\<lparr>v_dir := (v_dir (view m))(i := (v_dir (view m) i)\<lparr>d_inode := v\<rparr>)\<rparr>"
  by (rule view_store_dir, assumption, force simp: set_dirent_inode_def wr16_other, simp add: dirent_access mem_simps v_dir_load)

lemma load_put_dirent_name:
  assumes "length s < 29"
  shows "load_dirent (put_str m (dirent_name_addr i) s) i
     = (load_dirent m i)\<lparr>d_name := s @ 0 # drop (Suc (length s)) (d_name (load_dirent m i))\<rparr>"
proof -
  let ?p = "dirent_name_addr i"
  have "map (put_str m ?p s) [?p..<?p + 29] = s @ 0 # drop (Suc (length s)) (map m [?p..<?p + 29])"
    using assms by (intro nth_equalityI) (auto simp: put_str_at nth_append nth_Cons')
  then show ?thesis
    using assms by (simp add: dirent_access mem_simps rd16_def)
qed

lemma view_dirent_name [view_simps]:
  "i < 128 \<Longrightarrow> length s < 29 \<Longrightarrow> view (put_str m (dirent_name_addr i) s)
     = (view m)\<lparr>v_dir := (v_dir (view m))(i := (v_dir (view m) i)
         \<lparr>d_name := s @ 0 # drop (Suc (length s)) (d_name (v_dir (view m) i))\<rparr>)\<rparr>"
  by (rule view_store_dir, assumption, force simp: dirent_name_addr_def put_str_at, simp add: load_put_dirent_name v_dir_load)

lemma load_clear_dirent: "load_dirent (k_memset m (dirent_addr i) 0 32) i = zero_dirent"
  by (simp add: dirent_access zero_dirent_def k_memset_fill mem_simps upt_rec numeral_eq_Suc)

lemma view_clear_dirent [view_simps]:
  "i < 128 \<Longrightarrow> view (k_memset m (dirent_addr i) 0 32)
     = (view m)\<lparr>v_dir := (v_dir (view m))(i := zero_dirent)\<rparr>"
  by (rule view_store_dir, assumption, force simp: k_memset_fill fill_at, simp add: load_clear_dirent)

lemma view_clear_block [view_simps]:
  "5 \<le> b \<Longrightarrow> b < 256 \<Longrightarrow> view (k_memset m (b * 4096) 0 4096)
     = (view m)\<lparr>v_data := fill (v_data (view m)) (b * 4096) 0 4096\<rparr>"
  by (subst view_store_data [where m = m]) (auto simp: view_def view_data_def k_memset_fill fill_def fun_eq_iff)

lemma view_data_copy [view_simps]:
  "20480 \<le> d \<Longrightarrow> d + n \<le> 1048576 \<Longrightarrow> view (k_memcpy m d src s n)
     = (view m)\<lparr>v_data := blit (v_data (view m)) d src s n\<rparr>"
  by (subst view_store_data [where m = m]) (auto simp: view_def view_data_def k_memcpy_blit blit_def fun_eq_iff)

section \<open>Each load in the view\<close>

lemma load_simps [view_simps]:
  "i < 64 \<Longrightarrow> bit_test m inode_bitmap i = v_ibm (view m) i"
  "b < 256 \<Longrightarrow> bit_test m block_bitmap b = v_bbm (view m) b"
  "i < 64 \<Longrightarrow> inode_used m i = i_used (v_ino (view m) i)"
  "i < 64 \<Longrightarrow> inode_type m i = i_type (v_ino (view m) i)"
  "i < 64 \<Longrightarrow> inode_size m i = i_size (v_ino (view m) i)"
  "i < 64 \<Longrightarrow> k < 8 \<Longrightarrow> inode_block m i k = i_blocks (v_ino (view m) i) ! k"
  "j < 128 \<Longrightarrow> dirent_used m j = d_used (v_dir (view m) j)"
  "j < 128 \<Longrightarrow> dirent_inode m j = d_inode (v_dir (view m) j)"
  "20480 \<le> a \<Longrightarrow> a < 1048576 \<Longrightarrow> m a = v_data (view m) a"
  by (simp_all add: v_ino_load v_dir_load load_inode_def load_dirent_def)
    (simp_all add: view_def view_ibm_def view_bbm_def view_data_def)

lemma length_view_lists [simp]:
  "length (i_blocks (v_ino (view m) i)) = 8"
  "length (d_name (v_dir (view m) j)) = 29"
  by (simp_all add: view_def view_ino_def view_dir_def load_inode_def load_dirent_def zero_inode_def
      zero_dirent_def)

text \<open>The name of a directory entry, up to its NUL.\<close>

definition name_of :: "dirent_t \<Rightarrow> cstr" where
  "name_of d = takeWhile (\<lambda>c. c \<noteq> 0) (d_name d)"

lemma cstr_ok_name_of: "cstr_ok (name_of d)"
  by (auto simp: cstr_ok_def name_of_def dest: set_takeWhileD)

lemma name_of_put: "cstr_ok s \<Longrightarrow> name_of (d\<lparr>d_name := s @ 0 # r\<rparr>) = s"
  by (simp add: name_of_def cstr_ok_def takeWhile_append)

lemma str_at_name_of:
  assumes "j < 128" "length (name_of (v_dir (view m) j)) < 29"
  shows "str_at m (dirent_name_addr j) (name_of (v_dir (view m) j))"
proof -
  let ?l = "d_name (v_dir (view m) j)" and ?p = "dirent_name_addr j"
  have l: "m (?p + i) = ?l ! i" if "i < 29" for i
    using assms(1) that by (simp add: v_dir_load load_dirent_def)
  have n: "length (takeWhile (\<lambda>c. c \<noteq> 0) ?l) < 29" using assms(2) by (simp add: name_of_def)
  then have "?l ! length (takeWhile (\<lambda>c. c \<noteq> 0) ?l) = 0"
    using nth_length_takeWhile [of "\<lambda>c. c \<noteq> 0" ?l] by simp
  then show ?thesis
    using n l by (simp add: str_at_def name_of_def takeWhile_nth)
qed

lemma strcmp_dirent:
  assumes "j < 128" "length (name_of (v_dir (view m) j)) < 29" "cstr_ok s"
  shows "k_strcmp m (dirent_name_addr j) s = 0 \<longleftrightarrow> name_of (v_dir (view m) j) = s"
  using str_at_name_of [OF assms(1,2)] assms(3) str_at_unique cstr_ok_name_of
  by (metis k_strcmp_eq_0)

end
