(* ===== verification/Vga.thy ===== *)
theory Vga
  imports Cstr
begin

text \<open>
  The VGA text driver (\<^verbatim>\<open>kernel/vga.c\<close>, \<^verbatim>\<open>kernel/vga.h\<close>): the frame buffer as cells indexed from
  \<^verbatim>\<open>VGA_ADDR\<close> (any integer index, so that a write outside the screen is visible in the model), the
  cursor, the current attribute and the trace of port writes. \<^verbatim>\<open>vga_printf\<close> consumes 32-bit
  argument slots; a slot read with the wrong conversion, or past the last argument, is \<^term>\<open>None\<close>.
\<close>

section \<open>State\<close>

datatype vga_color = VGA_BLACK | VGA_BLUE | VGA_GREEN | VGA_CYAN | VGA_RED | VGA_MAGENTA | VGA_BROWN
  | VGA_LIGHT_GREY | VGA_DARK_GREY | VGA_LIGHT_BLUE | VGA_LIGHT_GREEN | VGA_LIGHT_CYAN
  | VGA_LIGHT_RED | VGA_LIGHT_MAGENTA | VGA_YELLOW | VGA_WHITE

fun color_code :: "vga_color \<Rightarrow> u32" where
  "color_code VGA_BLACK = 0"
| "color_code VGA_BLUE = 1"
| "color_code VGA_GREEN = 2"
| "color_code VGA_CYAN = 3"
| "color_code VGA_RED = 4"
| "color_code VGA_MAGENTA = 5"
| "color_code VGA_BROWN = 6"
| "color_code VGA_LIGHT_GREY = 7"
| "color_code VGA_DARK_GREY = 8"
| "color_code VGA_LIGHT_BLUE = 9"
| "color_code VGA_LIGHT_GREEN = 10"
| "color_code VGA_LIGHT_CYAN = 11"
| "color_code VGA_LIGHT_RED = 12"
| "color_code VGA_LIGHT_MAGENTA = 13"
| "color_code VGA_YELLOW = 14"
| "color_code VGA_WHITE = 15"

definition VGA_ATTR :: "vga_color \<Rightarrow> vga_color \<Rightarrow> u8" where
  "VGA_ATTR fg bg = ucast (push_bit 4 (color_code bg) OR color_code fg)"

text \<open>Quantifiers over the sixteen colours compute.\<close>

instantiation vga_color :: enum
begin

definition enum_vga_color :: "vga_color list" where
  "enum_vga_color = [VGA_BLACK, VGA_BLUE, VGA_GREEN, VGA_CYAN, VGA_RED, VGA_MAGENTA, VGA_BROWN, VGA_LIGHT_GREY,
     VGA_DARK_GREY, VGA_LIGHT_BLUE, VGA_LIGHT_GREEN, VGA_LIGHT_CYAN, VGA_LIGHT_RED, VGA_LIGHT_MAGENTA, VGA_YELLOW, VGA_WHITE]"

definition enum_all_vga_color :: "(vga_color \<Rightarrow> bool) \<Rightarrow> bool" where
  "enum_all_vga_color P \<longleftrightarrow> list_all P enum_class.enum"

definition enum_ex_vga_color :: "(vga_color \<Rightarrow> bool) \<Rightarrow> bool" where
  "enum_ex_vga_color P \<longleftrightarrow> list_ex P enum_class.enum"

instance
proof
  have u: "x \<in> set enum_class.enum" for x :: vga_color by (cases x) (simp_all add: enum_vga_color_def)
  then show "(UNIV :: vga_color set) = set enum_class.enum" by blast
  show "distinct (enum_class.enum :: vga_color list)" by (simp add: enum_vga_color_def)
  show "enum_class.enum_all P \<longleftrightarrow> Ball UNIV P" "enum_class.enum_ex P \<longleftrightarrow> Bex UNIV P" for P :: "vga_color \<Rightarrow> bool"
    using u by (auto simp: enum_all_vga_color_def enum_ex_vga_color_def list_all_iff list_ex_iff)
qed

end

text \<open>An attribute byte holds both colours, one in each half.\<close>

lemma VGA_ATTR_halves:
  "\<forall>fg bg. VGA_ATTR fg bg AND 0x0F = ucast (color_code fg) \<and> drop_bit 4 (VGA_ATTR fg bg) = ucast (color_code bg)"
  by code_simp

lemma color_code_inj: "\<forall>fg bg. (ucast (color_code fg) :: u8) = ucast (color_code bg) \<longrightarrow> fg = bg"
  by code_simp

lemma VGA_ATTR_inj: "VGA_ATTR fg bg = VGA_ATTR fg' bg' \<longleftrightarrow> fg = fg' \<and> bg = bg'"
  using VGA_ATTR_halves color_code_inj by metis

record vga =
  cells :: "int \<Rightarrow> u16"
  cursor_row :: int
  cursor_col :: int
  cur_attr :: u8
  outs :: "(u16 \<times> u8) list"

abbreviation (input) VGA_COLS :: int where "VGA_COLS \<equiv> 80"
abbreviation (input) VGA_ROWS :: int where "VGA_ROWS \<equiv> 25"

section \<open>Operations\<close>

definition vga_outb :: "u16 \<Rightarrow> u8 \<Rightarrow> vga \<Rightarrow> vga" where
  "vga_outb port val v = v\<lparr>outs := outs v @ [(port, val)]\<rparr>"

definition update_hw_cursor :: "vga \<Rightarrow> vga" where
  "update_hw_cursor v =
     (let pos = (of_int (cursor_row v * VGA_COLS + cursor_col v) :: u16);
          v = vga_outb 0x3D4 0x0F v;
          v = vga_outb 0x3D5 (ucast (pos AND 0xFF)) v;
          v = vga_outb 0x3D4 0x0E v
      in vga_outb 0x3D5 (ucast (drop_bit 8 pos AND 0xFF)) v)"

definition cell :: "u8 \<Rightarrow> u8 \<Rightarrow> u16" where
  "cell attr c = push_bit 8 (ucast attr) OR ucast c"

definition vga_write_cell :: "int \<Rightarrow> int \<Rightarrow> u8 \<Rightarrow> u8 \<Rightarrow> vga \<Rightarrow> vga" where
  "vga_write_cell row col c attr v = v\<lparr>cells := (cells v)(row * VGA_COLS + col := cell attr c)\<rparr>"

definition scroll_up :: "vga \<Rightarrow> vga" where
  "scroll_up v =
     (let v = for_do (\<lambda>r. for_do (\<lambda>c v. v\<lparr>cells := (cells v)
                (int r * VGA_COLS + int c := cells v ((int r + 1) * VGA_COLS + int c))\<rparr>) 0 80) 0 24 v;
          blank = cell (cur_attr v) 0x20;
          v = for_do (\<lambda>c v. v\<lparr>cells := (cells v)((VGA_ROWS - 1) * VGA_COLS + int c := blank)\<rparr>) 0 80 v
      in v\<lparr>cursor_row := VGA_ROWS - 1\<rparr>)"

definition vga_clear :: "vga_color \<Rightarrow> vga \<Rightarrow> vga" where
  "vga_clear bg v =
     (let v = v\<lparr>cur_attr := VGA_ATTR VGA_LIGHT_GREY bg\<rparr>;
          blank = cell (cur_attr v) 0x20;
          v = for_do (\<lambda>i v. v\<lparr>cells := (cells v)(int i := blank)\<rparr>) 0 2000 v
      in update_hw_cursor (v\<lparr>cursor_row := 0, cursor_col := 0\<rparr>))"

definition vga_init :: "vga \<Rightarrow> vga" where
  "vga_init v =
     vga_clear VGA_BLACK (v\<lparr>cur_attr := VGA_ATTR VGA_LIGHT_GREY VGA_BLACK, cursor_row := 0, cursor_col := 0\<rparr>)"

definition vga_set_color :: "vga_color \<Rightarrow> vga_color \<Rightarrow> vga \<Rightarrow> vga" where
  "vga_set_color fg bg v = v\<lparr>cur_attr := VGA_ATTR fg bg\<rparr>"

definition wrap_col :: "vga \<Rightarrow> vga" where
  "wrap_col v = (if VGA_COLS \<le> cursor_col v then v\<lparr>cursor_col := 0, cursor_row := cursor_row v + 1\<rparr> else v)"

definition vga_putchar :: "u8 \<Rightarrow> vga \<Rightarrow> vga" where
  "vga_putchar c v =
     (let v = (if c = 0x0A then v\<lparr>cursor_col := 0, cursor_row := cursor_row v + 1\<rparr>
               else if c = 0x0D then v\<lparr>cursor_col := 0\<rparr>
               else if c = 0x09 then wrap_col (v\<lparr>cursor_col := (cursor_col v + 8) AND NOT 7\<rparr>)
               else if c = 0x08 then
                 (let v = (if 0 < cursor_col v then v\<lparr>cursor_col := cursor_col v - 1\<rparr> else v)
                  in vga_write_cell (cursor_row v) (cursor_col v) 0x20 (cur_attr v) v)
               else
                 (let v = vga_write_cell (cursor_row v) (cursor_col v) c (cur_attr v) v
                  in wrap_col (v\<lparr>cursor_col := cursor_col v + 1\<rparr>)));
          v = (if VGA_ROWS \<le> cursor_row v then scroll_up v else v)
      in update_hw_cursor v)"

text \<open>\<^verbatim>\<open>while (*str) vga_putchar(*str++)\<close>; \<^verbatim>\<open>vga_puts\<close> takes a pointer, \<^term>\<open>None\<close> when it is null.\<close>

primrec puts_loop :: "u8 list \<Rightarrow> vga \<Rightarrow> vga" where
  "puts_loop [] v = v"
| "puts_loop (c # cs) v = (if c = 0 then v else puts_loop cs (vga_putchar c v))"

definition vga_puts :: "u8 list option \<Rightarrow> vga \<Rightarrow> vga" where
  "vga_puts str v = (case str of None \<Rightarrow> v | Some s \<Rightarrow> puts_loop s v)"

definition vga_puts_color :: "u8 list option \<Rightarrow> vga_color \<Rightarrow> vga_color \<Rightarrow> vga \<Rightarrow> vga" where
  "vga_puts_color str fg bg v =
     (let saved = cur_attr v; v = vga_set_color fg bg v; v = vga_puts str v in v\<lparr>cur_attr := saved\<rparr>)"

definition vga_set_cursor :: "int \<Rightarrow> int \<Rightarrow> vga \<Rightarrow> vga" where
  "vga_set_cursor row col v =
     update_hw_cursor
       (v\<lparr>cursor_row := if row < 0 then 0 else if VGA_ROWS \<le> row then VGA_ROWS - 1 else row,
          cursor_col := if col < 0 then 0 else if VGA_COLS \<le> col then VGA_COLS - 1 else col\<rparr>)"

text \<open>The digit loop of \<^verbatim>\<open>print_uint\<close>, filling \<^verbatim>\<open>buf\<close> from the lowest digit; the callers pass base
  10 or 16, and a base below two, with which the C loop would not end, stops here.\<close>

definition digit_char :: "u32 \<Rightarrow> u8" where
  "digit_char r = (if r < 10 then ch CHR ''0'' + ucast r else ch CHR ''a'' + ucast r - 10)"

function print_uint_buf :: "u32 \<Rightarrow> u32 \<Rightarrow> u8 list \<Rightarrow> u8 list" where
  "print_uint_buf n base buf =
     (if 0 < n \<and> 1 < base then print_uint_buf (n div base) base (buf @ [digit_char (n mod base)]) else buf)"
  by pat_completeness auto
termination
proof (relation "measure (\<lambda>(n, b, buf). unat n)")
  fix n b :: u32 and buf :: "u8 list"
  assume "0 < n \<and> 1 < b"
  then have "unat n div unat b < unat n"
    by (intro div_less_dividend) (auto simp: word_less_nat_alt)
  then show "((n div b, b, buf @ [digit_char (n mod b)]), n, b, buf) \<in> measure (\<lambda>(n, b, buf). unat n)"
    by (simp add: unat_div)
qed simp

declare print_uint_buf.simps [simp del]

definition print_uint :: "u32 \<Rightarrow> u32 \<Rightarrow> vga \<Rightarrow> vga" where
  "print_uint n base v =
     (if n = 0 then vga_putchar (ch CHR ''0'') v else foldr vga_putchar (print_uint_buf n base []) v)"

text \<open>Argument slots of \<^verbatim>\<open>vga_printf\<close>: an integer, or a pointer to a string with its address where
  the model knows it.\<close>

datatype va_arg = VInt u32 | VStr "u32 option" "u8 list"

fun va_uint :: "va_arg \<Rightarrow> u32 option" where
  "va_uint (VInt n) = Some n"
| "va_uint (VStr a s) = a"

fun va_str :: "va_arg \<Rightarrow> u8 list option" where
  "va_str (VInt n) = None"
| "va_str (VStr a s) = Some s"

definition print_int :: "u32 \<Rightarrow> vga \<Rightarrow> vga" where
  "print_int n v = (if sint n < 0 then print_uint (- n) 10 (vga_putchar (ch CHR ''-'') v) else print_uint n 10 v)"

text \<open>One conversion after \<^verbatim>\<open>%\<close>: the slots left and the new screen.\<close>

definition printf_conv :: "u8 \<Rightarrow> va_arg list \<Rightarrow> vga \<Rightarrow> (va_arg list \<times> vga) option" where
  "printf_conv c args v =
     (if c = ch CHR ''s'' then
        (case args of [] \<Rightarrow> None | a # as \<Rightarrow> map_option (\<lambda>s. (as, vga_puts (Some s) v)) (va_str a))
      else if c = ch CHR ''c'' then
        (case args of [] \<Rightarrow> None | a # as \<Rightarrow> map_option (\<lambda>n. (as, vga_putchar (ucast n) v)) (va_uint a))
      else if c = ch CHR ''d'' then
        (case args of [] \<Rightarrow> None | a # as \<Rightarrow> map_option (\<lambda>n. (as, print_int n v)) (va_uint a))
      else if c = ch CHR ''u'' then
        (case args of [] \<Rightarrow> None | a # as \<Rightarrow> map_option (\<lambda>n. (as, print_uint n 10 v)) (va_uint a))
      else if c = ch CHR ''x'' then
        (case args of [] \<Rightarrow> None | a # as \<Rightarrow> map_option (\<lambda>n. (as, print_uint n 16 v)) (va_uint a))
      else if c = ch CHR ''%'' then Some (args, vga_putchar (ch CHR ''%'') v)
      else Some (args, vga_putchar c v))"

fun vga_printf :: "u8 list \<Rightarrow> va_arg list \<Rightarrow> vga \<Rightarrow> vga option" where
  "vga_printf [] args v = Some v"
| "vga_printf [c] args v =
     (if c = 0 then Some v else if c = ch CHR ''%'' then None else Some (vga_putchar c v))"
| "vga_printf (c # d # cs) args v =
     (if c = 0 then Some v
      else if c \<noteq> ch CHR ''%'' then vga_printf (d # cs) args (vga_putchar c v)
      else if d = 0 then None
      else (case printf_conv d args v of None \<Rightarrow> None | Some (as, v) \<Rightarrow> vga_printf cs as v))"

definition vga_draw_box :: "int \<Rightarrow> int \<Rightarrow> int \<Rightarrow> int \<Rightarrow> vga_color \<Rightarrow> vga \<Rightarrow> vga" where
  "vga_draw_box row col height width color v =
     (let saved = cur_attr v;
          v = vga_set_color color VGA_BLACK v;
          put = (\<lambda>r c b v. vga_write_cell r c b (cur_attr v) v);
          v = put row col 0xC9 v;
          v = put row (col + width - 1) 0xBB v;
          v = put (row + height - 1) col 0xC8 v;
          v = put (row + height - 1) (col + width - 1) 0xBC v;
          v = for_do (\<lambda>k v. let c = col + 1 + int k; v = put row c 0xCD v in put (row + height - 1) c 0xCD v)
                0 (nat (width - 2)) v;
          v = for_do (\<lambda>k v. let r = row + 1 + int k; v = put r col 0xBA v in put r (col + width - 1) 0xBA v)
                0 (nat (height - 2)) v
      in v\<lparr>cur_attr := saved\<rparr>)"

section \<open>Scrolling\<close>

lemma cells_update_same: "(\<And>i. g i = cells v i) \<Longrightarrow> v = v\<lparr>cells := g\<rparr>"
proof -
  assume "\<And>i. g i = cells v i"
  then have "g = cells v" by (simp add: fun_eq_iff)
  then show ?thesis by simp
qed

lemma copy_row:
  "for_do (\<lambda>c v. v\<lparr>cells := (cells v)(int r * 80 + int c := cells v ((int r + 1) * 80 + int c))\<rparr>) 0 80 v
   = v\<lparr>cells := \<lambda>i. if int r * 80 \<le> i \<and> i < int r * 80 + 80 then cells v (i + 80) else cells v i\<rparr>"
proof -
  let ?f = "\<lambda>c v. v\<lparr>cells := (cells v)(int r * 80 + int c := cells v ((int r + 1) * 80 + int c))\<rparr>"
  let ?t = "\<lambda>k. v\<lparr>cells := \<lambda>i. if int r * 80 \<le> i \<and> i < int r * 80 + int k then cells v (i + 80) else cells v i\<rparr>"
  have "for_do ?f 0 80 v = ?t 80"
  proof (rule for_do_invariant [where P = "\<lambda>k t. t = ?t k"])
    fix k t assume "k < 80" "t = ?t k"
    moreover have "(\<lambda>i. if int r * 80 \<le> i \<and> i < int r * 80 + int (Suc k) then cells v (i + 80) else cells v i)
      = (\<lambda>i. if int r * 80 \<le> i \<and> i < int r * 80 + int k then cells v (i + 80) else cells v i)
          (int r * 80 + int k := cells v (int r * 80 + int k + 80))"
      by (auto simp: fun_eq_iff)
    ultimately show "?f k t = ?t (Suc k)"
      by (simp add: algebra_simps)
  qed (auto intro!: cells_update_same)
  then show ?thesis by simp
qed

lemma copy_rows:
  "for_do (\<lambda>r. for_do (\<lambda>c v. v\<lparr>cells := (cells v)(int r * 80 + int c := cells v ((int r + 1) * 80 + int c))\<rparr>) 0 80)
     0 24 v = v\<lparr>cells := \<lambda>i. if 0 \<le> i \<and> i < 1920 then cells v (i + 80) else cells v i\<rparr>"
proof -
  let ?f = "\<lambda>r. for_do (\<lambda>c v. v\<lparr>cells := (cells v)(int r * 80 + int c := cells v ((int r + 1) * 80 + int c))\<rparr>) 0 80"
  let ?t = "\<lambda>r. v\<lparr>cells := \<lambda>i. if 0 \<le> i \<and> i < int r * 80 then cells v (i + 80) else cells v i\<rparr>"
  have "for_do ?f 0 24 v = ?t 24"
  proof (rule for_do_invariant [where P = "\<lambda>r t. t = ?t r"])
    fix r t assume t: "t = ?t r"
    have "(\<lambda>i. if 0 \<le> i \<and> i < int (Suc r) * 80 then cells v (i + 80) else cells v i)
      = (\<lambda>i. if int r * 80 \<le> i \<and> i < int r * 80 + 80 then cells t (i + 80) else cells t i)"
      by (auto simp: t fun_eq_iff)
    then show "?f r t = ?t (Suc r)"
      by (simp only: copy_row) (simp add: t)
  qed (auto intro!: cells_update_same)
  then show ?thesis by simp
qed

lemma fill_cells:
  "for_do (\<lambda>c v. v\<lparr>cells := (cells v)(b + int c := x)\<rparr>) 0 n v
   = v\<lparr>cells := \<lambda>i. if b \<le> i \<and> i < b + int n then x else cells v i\<rparr>"
proof -
  let ?t = "\<lambda>k. v\<lparr>cells := \<lambda>i. if b \<le> i \<and> i < b + int k then x else cells v i\<rparr>"
  have "for_do (\<lambda>c v. v\<lparr>cells := (cells v)(b + int c := x)\<rparr>) 0 n v = ?t n"
  proof (rule for_do_invariant [where P = "\<lambda>k t. t = ?t k"])
    fix k t assume "t = ?t k"
    moreover have "(\<lambda>i. if b \<le> i \<and> i < b + int (Suc k) then x else cells v i)
      = (\<lambda>i. if b \<le> i \<and> i < b + int k then x else cells v i)(b + int k := x)"
      by (auto simp: fun_eq_iff)
    ultimately show "t\<lparr>cells := (cells t)(b + int k := x)\<rparr> = ?t (Suc k)"
      by simp
  qed (auto intro!: cells_update_same)
  then show ?thesis .
qed

lemma scroll_up_closed:
  "scroll_up v = v\<lparr>cells := \<lambda>i. if 0 \<le> i \<and> i < 1920 then cells v (i + 80)
      else if 1920 \<le> i \<and> i < 2000 then cell (cur_attr v) 0x20 else cells v i, cursor_row := 24\<rparr>"
  unfolding scroll_up_def copy_rows Let_def
  by (simp add: fill_cells) (auto simp: fun_eq_iff)

text \<open>Scrolling moves every row up by one, blanks the last row in the current attribute, leaves
  the cells outside the 80 x 25 screen alone and puts the cursor in the last row.\<close>

theorem scroll_up_correct:
  "cells (scroll_up v) = (\<lambda>i. if 0 \<le> i \<and> i < 24 * 80 then cells v (i + 80)
      else if 24 * 80 \<le> i \<and> i < 25 * 80 then cell (cur_attr v) 0x20 else cells v i)
   \<and> cursor_row (scroll_up v) = 24 \<and> cursor_col (scroll_up v) = cursor_col v"
  by (auto simp: scroll_up_closed fun_eq_iff)

section \<open>The cursor and the writes stay on the screen\<close>

definition vga_ok :: "vga \<Rightarrow> bool" where
  "vga_ok v \<longleftrightarrow> 0 \<le> cursor_row v \<and> cursor_row v < 25 \<and> 0 \<le> cursor_col v \<and> cursor_col v < 80"

definition off_screen_same :: "vga \<Rightarrow> vga \<Rightarrow> bool" where
  "off_screen_same v v' \<longleftrightarrow> (\<forall>i. i < 0 \<or> 2000 \<le> i \<longrightarrow> cells v' i = cells v i)"

lemma off_screen_same_refl [simp]: "off_screen_same v v"
  by (simp add: off_screen_same_def)

lemma off_screen_same_trans: "off_screen_same u v \<Longrightarrow> off_screen_same v w \<Longrightarrow> off_screen_same u w"
  by (simp add: off_screen_same_def)

text \<open>A driver operation is safe if it keeps the cursor on the screen and writes on the screen only.\<close>

definition vga_safe :: "(vga \<Rightarrow> vga) \<Rightarrow> bool" where
  "vga_safe f \<longleftrightarrow> (\<forall>v. vga_ok v \<longrightarrow> vga_ok (f v) \<and> off_screen_same v (f v))"

lemma vga_safeI: "(\<And>v. vga_ok v \<Longrightarrow> vga_ok (f v)) \<Longrightarrow> (\<And>v. vga_ok v \<Longrightarrow> off_screen_same v (f v)) \<Longrightarrow> vga_safe f"
  by (simp add: vga_safe_def)

lemma vga_safe_ok: "vga_safe f \<Longrightarrow> vga_ok v \<Longrightarrow> vga_ok (f v)"
  by (simp add: vga_safe_def)

lemma vga_safe_comp: "vga_safe f \<Longrightarrow> vga_safe g \<Longrightarrow> vga_safe (\<lambda>v. f (g v))"
  by (auto simp: vga_safe_def intro: off_screen_same_trans)

lemma update_hw_cursor_fields [simp]:
  "cells (update_hw_cursor v) = cells v" "cursor_row (update_hw_cursor v) = cursor_row v"
  "cursor_col (update_hw_cursor v) = cursor_col v" "cur_attr (update_hw_cursor v) = cur_attr v"
  by (simp_all add: update_hw_cursor_def vga_outb_def Let_def)

lemma vga_ok_update_hw_cursor [simp]: "vga_ok (update_hw_cursor v) = vga_ok v"
  by (simp add: vga_ok_def)

lemma off_screen_same_update_hw_cursor [simp]: "off_screen_same v (update_hw_cursor w) = off_screen_same v w"
  by (simp add: off_screen_same_def)

lemma tab_col: "0 \<le> (x :: int) \<Longrightarrow> x < 80 \<Longrightarrow> 0 \<le> (x + 8) AND NOT 7"
  by (simp add: and_nonnegative_int_iff)

lemma scroll_if:
  assumes "0 \<le> cursor_row w" "cursor_row w \<le> 25" "0 \<le> cursor_col w" "cursor_col w < 80"
    and "off_screen_same v w"
  shows "vga_ok (if 25 \<le> cursor_row w then scroll_up w else w)
     \<and> off_screen_same v (if 25 \<le> cursor_row w then scroll_up w else w)"
  using assms by (auto simp: scroll_up_closed vga_ok_def off_screen_same_def)

lemma vga_putchar_safe: "vga_safe (vga_putchar c)"
proof -
  have "vga_ok (vga_putchar c v) \<and> off_screen_same v (vga_putchar c v)" if "vga_ok v" for v
    using that unfolding vga_putchar_def Let_def vga_ok_update_hw_cursor off_screen_same_update_hw_cursor
    by (intro scroll_if)
      (use that tab_col [of "cursor_col v"] in
        \<open>auto simp: vga_ok_def off_screen_same_def wrap_col_def vga_write_cell_def Let_def\<close>)
  then show ?thesis by (simp add: vga_safe_def)
qed

lemma vga_safe_id: "vga_safe (\<lambda>v. v)"
  by (simp add: vga_safe_def)

lemma vga_safe_attr: "vga_safe f \<Longrightarrow> vga_safe (\<lambda>v. f v\<lparr>cur_attr := a v\<rparr>)"
  by (simp add: vga_safe_def vga_ok_def off_screen_same_def)

lemma vga_set_color_safe: "vga_safe (vga_set_color fg bg)"
  by (simp add: vga_safe_def vga_ok_def off_screen_same_def vga_set_color_def)

lemma puts_loop_safe: "vga_safe (puts_loop s)"
proof (induction s)
  case Nil
  show ?case by (simp add: vga_safe_def)
next
  case (Cons c s)
  then show ?case
    using vga_safe_comp [OF Cons vga_putchar_safe [of c]] by (cases "c = 0") (simp_all add: vga_safe_def)
qed

lemma vga_puts_safe: "vga_safe (vga_puts s)"
  by (cases s) (simp_all add: vga_puts_def [abs_def] vga_safe_id puts_loop_safe)

lemma vga_puts_color_safe: "vga_safe (vga_puts_color s fg bg)"
  unfolding vga_puts_color_def [abs_def] Let_def
  by (intro vga_safe_attr vga_safe_comp [OF vga_puts_safe vga_set_color_safe])

lemma foldr_putchar_safe: "vga_safe (foldr vga_putchar cs)"
proof (induction cs)
  case (Cons c cs)
  then show ?case
    using vga_safe_comp [OF vga_putchar_safe [of c] Cons] by (simp add: o_def)
qed (simp add: vga_safe_def)

lemma print_uint_safe: "vga_safe (print_uint n b)"
  by (cases "n = 0") (simp_all add: print_uint_def [abs_def] vga_putchar_safe foldr_putchar_safe)

lemma print_int_safe: "vga_safe (print_int n)"
proof (cases "sint n < 0")
  case True
  then have "print_int n = (\<lambda>v. print_uint (- n) 10 (vga_putchar (ch CHR ''-'') v))"
    by (simp add: print_int_def [abs_def])
  then show ?thesis by (simp only: vga_safe_comp [OF print_uint_safe vga_putchar_safe])
next
  case False
  then have "print_int n = print_uint n 10" by (simp add: print_int_def [abs_def])
  then show ?thesis by (simp only: print_uint_safe)
qed

lemma printf_conv_safe:
  assumes "printf_conv c args v = Some (as, v')" "vga_ok v"
  shows "vga_ok v' \<and> off_screen_same v v'"
  using assms vga_putchar_safe vga_puts_safe print_uint_safe print_int_safe
  by (auto simp: printf_conv_def vga_safe_def split: if_splits list.splits)

lemma vga_printf_safe:
  "vga_printf fmt args v = Some v' \<Longrightarrow> vga_ok v \<Longrightarrow> vga_ok v' \<and> off_screen_same v v'"
proof (induction fmt args v rule: vga_printf.induct)
  case (1 args v)
  then show ?case by simp
next
  case (2 c args v)
  then show ?case using vga_putchar_safe by (auto simp: vga_safe_def split: if_splits)
next
  case (3 c d cs args v)
  consider "c = 0" | "c \<noteq> 0" "c \<noteq> ch CHR ''%''"
    | as w where "c \<noteq> 0" "c = ch CHR ''%''" "d \<noteq> 0" "printf_conv d args v = Some (as, w)"
        "vga_printf cs as w = Some v'"
    using "3.prems" by (auto split: if_splits option.splits)
  then show ?case
  proof cases
    case 1
    with "3.prems" show ?thesis by simp
  next
    case 2
    then have "vga_printf (d # cs) args (vga_putchar c v) = Some v'" using "3.prems" by simp
    then show ?thesis
      using "3.IH"(1) [OF 2] "3.prems" vga_putchar_safe [of c]
      by (auto simp: vga_safe_def intro: off_screen_same_trans)
  next
    case 3
    then show ?thesis
      using "3.IH"(2) [OF _ _ _ 3(4) refl 3(5)] "3.prems" printf_conv_safe [OF 3(4)]
      by (auto intro: off_screen_same_trans)
  qed
qed

lemmas fill_screen = fill_cells [where b = 0, simplified]

lemma vga_clear_safe: "vga_safe (vga_clear bg)"
  by (simp add: vga_safe_def vga_ok_def off_screen_same_def vga_clear_def Let_def fill_screen)

lemma vga_set_cursor_safe: "vga_safe (vga_set_cursor r c)"
  by (auto simp: vga_safe_def vga_ok_def off_screen_same_def vga_set_cursor_def)

lemma vga_init_ok: "vga_ok (vga_init v)"
  by (simp add: vga_init_def vga_clear_def vga_ok_def Let_def)

section \<open>Numbers\<close>

lemma print_uint_buf_app: "print_uint_buf n b (xs @ buf) = xs @ print_uint_buf n b buf"
proof (induction n b buf rule: print_uint_buf.induct)
  case (1 n b buf)
  then show ?case
    by (cases "0 < n \<and> 1 < b") (auto simp: print_uint_buf.simps [of n b])
qed

lemma print_uint_buf_0: "print_uint_buf 0 b [] = []"
  by (subst print_uint_buf.simps) simp

lemma print_uint_buf_step:
  "0 < n \<Longrightarrow> 1 < b \<Longrightarrow> print_uint_buf n b [] = digit_char (n mod b) # print_uint_buf (n div b) b []"
  using print_uint_buf_app [of "n div b" b "[digit_char (n mod b)]" "[]"]
  by (subst print_uint_buf.simps) simp

definition digit_value :: "u8 \<Rightarrow> nat" where
  "digit_value c = (if c \<le> 0x39 then unat c - 48 else unat c - 87)"

text \<open>The value of a buffer of digits, lowest digit first.\<close>

definition buf_value :: "nat \<Rightarrow> u8 list \<Rightarrow> nat" where
  "buf_value b ds = foldr (\<lambda>d acc. digit_value d + b * acc) ds 0"

lemma digit_value_char:
  assumes "r < 16"
  shows "digit_value (digit_char r) = unat r"
proof (cases "r < 10")
  case True
  then have "unat r < 10" by (simp add: word_less_nat_alt)
  then have "unat (digit_char r) = 48 + unat r"
    using True by (simp add: digit_char_def unat_word_ariths unat_ucast_8)
  with \<open>unat r < 10\<close> show ?thesis
    by (simp add: digit_value_def word_le_nat_alt)
next
  case False
  then have r: "10 \<le> unat r" "unat r < 16"
    using assms by (simp_all add: word_less_nat_alt)
  have "digit_char r = 87 + ucast r"
    using False by (simp add: digit_char_def)
  then have "unat (digit_char r) = 87 + unat r"
    using r by (simp add: unat_word_ariths unat_ucast_8)
  with r show ?thesis
    by (simp add: digit_value_def word_le_nat_alt)
qed

lemma buf_value_print:
  assumes "1 < b" "b \<le> 16"
  shows "buf_value (unat b) (print_uint_buf n b []) = unat n"
proof (induction "unat n" arbitrary: n rule: less_induct)
  case less
  show ?case
  proof (cases "0 < n")
    case True
    have b: "1 < unat b" "unat b \<le> 16"
      using assms by (simp_all add: word_less_nat_alt word_le_nat_alt)
    have "unat (n div b) < unat n"
      using True b by (simp add: unat_div word_less_nat_alt)
    then have "buf_value (unat b) (print_uint_buf (n div b) b []) = unat (n div b)"
      by (rule less.hyps)
    moreover have "unat (n mod b) < 16"
      unfolding unat_mod by (rule order_less_le_trans [OF mod_less_divisor b(2)]) (use b in simp)
    then have "digit_value (digit_char (n mod b)) = unat (n mod b)"
      by (intro digit_value_char) (simp add: word_less_nat_alt)
    ultimately show ?thesis
      using True assms by (simp add: print_uint_buf_step buf_value_def unat_div unat_mod)
  next
    case False
    then show ?thesis by (simp add: word_gr0_iff print_uint_buf_0 buf_value_def)
  qed
qed

lemma length_print_uint_buf:
  assumes "1 < b"
  shows "unat n < 2 ^ k \<Longrightarrow> length (print_uint_buf n b []) \<le> k"
proof (induction k arbitrary: n)
  case 0
  then have "n = 0" by (simp add: unat_eq_zero)
  then show ?case by (simp add: print_uint_buf_0)
next
  case (Suc k)
  show ?case
  proof (cases "0 < n")
    case True
    have "2 \<le> unat b" using assms by (simp add: word_less_nat_alt)
    then have "unat n div unat b \<le> unat n div 2" by (rule div_le_mono2 [rotated]) simp
    also have "\<dots> < 2 ^ k" using Suc.prems by simp
    finally have "length (print_uint_buf (n div b) b []) \<le> k"
      by (intro Suc.IH) (simp add: unat_div)
    with True assms show ?thesis by (simp add: print_uint_buf_step)
  next
    case False
    then show ?thesis by (simp add: word_gr0_iff print_uint_buf_0)
  qed
qed

text \<open>The digits \<^verbatim>\<open>print_uint\<close> collects denote the number in the given base, and there are at
  most 32 of them, so \<^verbatim>\<open>buf[32]\<close> is never overrun.\<close>

theorem print_uint_correct:
  assumes "1 < base" "base \<le> 16"
  shows "buf_value (unat base) (print_uint_buf n base []) = unat n \<and> length (print_uint_buf n base []) \<le> 32"
  using buf_value_print [OF assms] length_print_uint_buf [OF assms(1), of n 32] unsigned_less [of n]
  by simp

theorem print_uint_correct_witness:
  "buf_value 10 (print_uint_buf 200000 10 []) = 200000 \<and> length (print_uint_buf 200000 10 []) \<le> 32"
  using print_uint_correct [of 10 200000] by simp

section \<open>What a character does to the screen\<close>

text \<open>C12. Formatted output never moves the cursor off the screen and never writes a cell outside
  the 80 x 25 frame buffer, whatever the format and the arguments.\<close>

theorem vga_printf_stays_on_screen:
  assumes "vga_printf fmt args v = Some v'" "vga_ok v"
  shows "vga_ok v' \<and> (\<forall>i. i < 0 \<or> 2000 \<le> i \<longrightarrow> cells v' i = cells v i)"
  using vga_printf_safe [OF assms] by (simp add: off_screen_same_def)

definition blank_vga :: vga where
  "blank_vga = \<lparr>cells = \<lambda>_. 0, cursor_row = 24, cursor_col = 79, cur_attr = 7, outs = []\<rparr>"

theorem vga_printf_stays_on_screen_witness:
  "vga_ok (the (vga_printf (bytes ''%d!'') [VInt 7] blank_vga))
     \<and> cells (the (vga_printf (bytes ''%d!'') [VInt 7] blank_vga)) 2000 = 0"
proof -
  have "vga_printf (bytes ''%d!'') [VInt 7] blank_vga = Some (the (vga_printf (bytes ''%d!'') [VInt 7] blank_vga))"
    by (simp add: bytes_def printf_conv_def)
  moreover have "vga_ok blank_vga"
    by (simp add: vga_ok_def blank_vga_def)
  ultimately show ?thesis
    using vga_printf_stays_on_screen [of "bytes ''%d!''" "[VInt 7]" blank_vga] by (simp add: blank_vga_def)
qed

definition cursor_pos :: "vga \<Rightarrow> int" where
  "cursor_pos v = cursor_row v * 80 + cursor_col v"

text \<open>C13. A printable character is stored at the cursor in the current attribute and the cursor
  advances by one cell; after the last cell of the screen everything moves up by one row first.\<close>

theorem vga_putchar_printable:
  assumes "vga_ok v" "c \<notin> {0x08, 0x09, 0x0A, 0x0D}"
  shows "if cursor_pos v < 1999
     then cells (vga_putchar c v) = (cells v)(cursor_pos v := cell (cur_attr v) c)
       \<and> cursor_pos (vga_putchar c v) = cursor_pos v + 1
     else cells (vga_putchar c v) = (\<lambda>i. if i = 1919 then cell (cur_attr v) c
         else if 0 \<le> i \<and> i < 1920 then cells v (i + 80)
         else if 1920 \<le> i \<and> i < 2000 then cell (cur_attr v) 0x20 else cells v i)
       \<and> cursor_pos (vga_putchar c v) = 1920"
proof -
  let ?w = "vga_write_cell (cursor_row v) (cursor_col v) c (cur_attr v) v"
  have c: "vga_putchar c v = update_hw_cursor
      (let w = wrap_col (?w\<lparr>cursor_col := cursor_col ?w + 1\<rparr>) in if 25 \<le> cursor_row w then scroll_up w else w)"
    using assms(2) by (simp add: vga_putchar_def Let_def)
  have v: "0 \<le> cursor_row v" "cursor_row v < 25" "0 \<le> cursor_col v" "cursor_col v < 80"
    using assms(1) by (simp_all add: vga_ok_def)
  show ?thesis
  proof (cases "cursor_pos v < 1999")
    case True
    then have "cursor_row v < 24 \<or> cursor_col v < 79" using v by (auto simp: cursor_pos_def)
    with True v show ?thesis
      by (auto simp: c wrap_col_def vga_write_cell_def cursor_pos_def Let_def)
  next
    case False
    then have "cursor_row v = 24" "cursor_col v = 79" using v by (auto simp: cursor_pos_def)
    with False show ?thesis
      by (auto simp: c wrap_col_def vga_write_cell_def cursor_pos_def scroll_up_closed fun_eq_iff Let_def)
  qed
qed

theorem vga_putchar_printable_witness:
  "cells (vga_putchar 0x41 blank_vga) 1919 = cell 7 0x41 \<and> cursor_pos (vga_putchar 0x41 blank_vga) = 1920"
  using vga_putchar_printable [of blank_vga "0x41"]
  by (simp add: blank_vga_def vga_ok_def cursor_pos_def)

text \<open>Every character reprograms the CRT controller with the new cursor position, low byte in
  register 0x0F and high byte in register 0x0E.\<close>

theorem vga_putchar_programs_cursor:
  assumes "vga_ok v"
  shows "\<exists>lo hi. outs (vga_putchar c v) = outs v @ [(0x3D4, 0x0F), (0x3D5, lo), (0x3D4, 0x0E), (0x3D5, hi)]
     \<and> int (unat lo) + 256 * int (unat hi) = cursor_pos (vga_putchar c v)"
proof -
  have pos: "0 \<le> cursor_pos (vga_putchar c v)" "cursor_pos (vga_putchar c v) < 2000"
    using vga_safe_ok [OF vga_putchar_safe assms, of c] by (auto simp: vga_ok_def cursor_pos_def)
  obtain w where w: "vga_putchar c v = update_hw_cursor w" "outs w = outs v"
    by (auto simp: vga_putchar_def Let_def scroll_up_closed wrap_col_def vga_write_cell_def)
  have cp: "cursor_pos (vga_putchar c v) = cursor_pos w"
    by (simp add: w(1) cursor_pos_def)
  let ?p = "of_int (cursor_pos w) :: u16"
  have "unat ?p = nat (cursor_pos w)"
    using pos unfolding cp by (intro unat_of_int_u16) simp_all
  then have "int (unat ?p mod 256) + 256 * int (unat ?p div 256) = cursor_pos w"
    using pos unfolding cp by (simp add: zdiv_int zmod_int)
  then have "int (unat (ucast (?p AND 0xFF) :: u8)) + 256 * int (unat (ucast (drop_bit 8 ?p AND 0xFF) :: u8)) = cursor_pos w"
    by (simp only: unat_high_byte) (simp only: unat_low_byte)
  moreover have "outs (vga_putchar c v)
      = outs v @ [(0x3D4, 0x0F), (0x3D5, ucast (?p AND 0xFF)), (0x3D4, 0x0E), (0x3D5, ucast (drop_bit 8 ?p AND 0xFF))]"
    by (simp add: w update_hw_cursor_def vga_outb_def cursor_pos_def Let_def)
  ultimately show ?thesis unfolding cp by blast
qed

theorem vga_putchar_programs_cursor_witness:
  "\<exists>lo hi. outs (vga_putchar 0x41 blank_vga) = outs blank_vga @ [(0x3D4, 0x0F), (0x3D5, lo), (0x3D4, 0x0E), (0x3D5, hi)]
     \<and> int (unat lo) + 256 * int (unat hi) = cursor_pos (vga_putchar 0x41 blank_vga)"
  by (rule vga_putchar_programs_cursor) (simp add: blank_vga_def vga_ok_def)

end
