(* ===== verification/Fs.thy ===== *)
theory Fs
  imports FsView Vga
begin

text \<open>
  The operations of \<^verbatim>\<open>kernel/fs.c\<close>, one definition per function, over the bytes of the RAM disk
  and the open-file table. Results keep the code's signed error numbers. The caller's buffers are
  memories of their own (\<open>None\<close> is the null pointer).
\<close>

section \<open>State\<close>

record file_t =
  f_used :: u8
  f_flags :: u8
  f_inode :: u16
  f_offset :: u32

definition zero_file :: file_t where
  "zero_file = \<lparr>f_used = 0, f_flags = 0, f_inode = 0, f_offset = 0\<rparr>"

record fs =
  disk :: memory
  fds :: "nat \<Rightarrow> file_t"

section \<open>Inodes and blocks\<close>

definition alloc_inode :: "memory \<Rightarrow> int \<times> memory" where
  "alloc_inode m =
     (case for_find (\<lambda>i. \<not> bit_test m inode_bitmap i) 1 FS_MAX_INODES of
        Some i \<Rightarrow>
          (let m = bit_set m inode_bitmap i;
               m = k_memset m (inode_addr i) 0 64;
               m = set_inode_used m i 1;
               m = set_inode_type m i FS_FILE
           in (int i, m))
      | None \<Rightarrow> (-1, m))"

definition free_inode :: "u32 \<Rightarrow> memory \<Rightarrow> memory" where
  "free_inode ino m =
     (if unat ino = FS_ROOT_INODE \<or> FS_MAX_INODES \<le> unat ino then m
      else k_memset (bit_clear m inode_bitmap (unat ino)) (inode_addr (unat ino)) 0 64)"

definition alloc_block :: "memory \<Rightarrow> int \<times> memory" where
  "alloc_block m =
     (case for_find (\<lambda>b. \<not> bit_test m block_bitmap b) FS_DATA_START FS_NUM_BLOCKS of
        Some b \<Rightarrow>
          (let m = bit_set m block_bitmap b;
               m = k_memset m (b * FS_BLOCK_SIZE) 0 FS_BLOCK_SIZE
           in (int b, m))
      | None \<Rightarrow> (-1, m))"

definition free_block :: "u32 \<Rightarrow> memory \<Rightarrow> memory" where
  "free_block b m =
     (if unat b < FS_DATA_START \<or> FS_NUM_BLOCKS \<le> unat b then m
      else bit_clear m block_bitmap (unat b))"

section \<open>Directory entries\<close>

definition find_dirent :: "cstr \<Rightarrow> memory \<Rightarrow> int" where
  "find_dirent name m =
     (case for_find (\<lambda>i. dirent_used m i \<noteq> 0 \<and> k_strcmp m (dirent_name_addr i) name = 0) 0 DIR_ENTRIES of
        Some i \<Rightarrow> int i
      | None \<Rightarrow> -1)"

definition add_dirent :: "cstr \<Rightarrow> u32 \<Rightarrow> memory \<Rightarrow> int \<times> memory" where
  "add_dirent name ino m =
     (case for_find (\<lambda>i. dirent_used m i = 0) 0 DIR_ENTRIES of
        Some i \<Rightarrow>
          (let m = set_dirent_used m i 1;
               m = set_dirent_inode m i (ucast ino);
               m = k_strncpy m (dirent_name_addr i) name 29
           in (0, m))
      | None \<Rightarrow> (-1, m))"

definition remove_dirent :: "u32 \<Rightarrow> memory \<Rightarrow> memory" where
  "remove_dirent index m =
     (if unat index < DIR_ENTRIES then k_memset m (dirent_addr (unat index)) 0 32 else m)"

section \<open>Mounting\<close>

definition fs_init :: "fs \<Rightarrow> vga \<Rightarrow> fs \<times> vga" where
  "fs_init s v =
     (let m = k_memset (disk s) 0 0 FS_DISK_SIZE;
          fd = (\<lambda>i. if i < FS_MAX_FDS then zero_file else fds s i);
          m = wr32 m 0 0x53454E47;
          m = wr32 m 4 4096;
          m = wr32 m 8 256;
          m = wr32 m 12 64;
          m = wr32 m 16 1;
          m = wr32 m 20 2;
          m = wr32 m 24 3;
          m = wr32 m 28 5;
          m = for_do (\<lambda>b m. bit_set m block_bitmap b) 0 FS_DATA_START m;
          m = bit_set m inode_bitmap FS_ROOT_INODE;
          m = set_inode_used m FS_ROOT_INODE 1;
          m = set_inode_type m FS_ROOT_INODE FS_DIR;
          m = set_inode_block m FS_ROOT_INODE 0 (of_nat FS_ROOT_BLOCK);
          m = k_strncpy m (inode_name_addr FS_ROOT_INODE) (bytes ''/'') FS_MAX_NAME
      in (\<lparr>disk = m, fds = fd\<rparr>,
          vga_puts_color (Some (bytes ''  [FS] RAM disk mounted: 1 MiB, 256 x 4 KiB blocks'' @ [0x0A]))
            VGA_LIGHT_GREEN VGA_BLACK v))"

section \<open>Files\<close>

definition fs_create :: "cstr option \<Rightarrow> fs \<Rightarrow> int \<times> fs" where
  "fs_create name s =
     (case name of
        None \<Rightarrow> (-1, s)
      | Some name \<Rightarrow>
          if c_at name 0 = 0 \<or> FS_MAX_NAME \<le> k_strlen name then (-1, s)
          else if 0 \<le> find_dirent name (disk s) then (-2, s)
          else
            (let (ino, m) = alloc_inode (disk s) in
             if ino < 0 then (-3, s\<lparr>disk := m\<rparr>)
             else
               (let (r, m) = add_dirent name (of_int ino) m in
                if r < 0 then (-4, s\<lparr>disk := free_inode (of_int ino) m\<rparr>)
                else (ino, s\<lparr>disk := k_strncpy m (inode_name_addr (nat ino)) name FS_MAX_NAME\<rparr>))))"

definition fs_open :: "cstr \<Rightarrow> fs \<Rightarrow> int \<times> fs" where
  "fs_open name s =
     (let d = find_dirent name (disk s) in
      if d < 0 then (-1, s)
      else
        (let ino = unat (dirent_inode (disk s) (nat d)) in
         if FS_MAX_INODES \<le> ino \<or> inode_used (disk s) ino = 0 then (-1, s)
         else
           (case for_find (\<lambda>fd. f_used (fds s fd) = 0) 0 FS_MAX_FDS of
              Some fd \<Rightarrow>
                (int fd, s\<lparr>fds := (fds s)(fd := \<lparr>f_used = 1, f_flags = 0, f_inode = of_nat ino, f_offset = 0\<rparr>)\<rparr>)
            | None \<Rightarrow> (-2, s))))"

text \<open>\<open>fd_invalid\<close> is the guard every descriptor operation starts with.\<close>

definition fd_invalid :: "int \<Rightarrow> fs \<Rightarrow> bool" where
  "fd_invalid fd s \<longleftrightarrow> fd < 0 \<or> int FS_MAX_FDS \<le> fd \<or> f_used (fds s (nat fd)) = 0"

definition set_offset :: "nat \<Rightarrow> u32 \<Rightarrow> fs \<Rightarrow> fs" where
  "set_offset fd off s = s\<lparr>fds := (fds s)(fd := (fds s fd)\<lparr>f_offset := off\<rparr>)\<rparr>"

text \<open>The number of bytes one round of the read and write loops moves: up to the end of the
  block the offset is in, and no more than is left.\<close>

definition chunk :: "u32 \<Rightarrow> u32 \<Rightarrow> u32 \<Rightarrow> u32" where
  "chunk pos count done =
     (let n = 4096 - pos mod 4096 in if count - done < n then count - done else n)"

lemma unat_chunk:
  assumes "done < count"
  shows "unat (chunk pos count done) = min (4096 - unat pos mod 4096) (unat count - unat done)"
proof -
  have d: "unat (count - done) = unat count - unat done" "unat done < unat count"
    using assms by (simp_all add: word_less_nat_alt unat_sub_if_size)
  have p: "unat (4096 - pos mod 4096) = 4096 - unat pos mod 4096"
    by (subst unat_sub) (simp_all add: word_le_nat_alt unat_mod)
  show ?thesis
    using d p by (auto simp: chunk_def word_less_nat_alt min_def)
qed

lemma chunk_advance:
  assumes "done < count"
  shows "0 < unat (chunk pos count done)"
    and "unat (done + chunk pos count done) = unat done + unat (chunk pos count done)"
    and "unat done + unat (chunk pos count done) \<le> unat count"
proof -
  have d: "unat done < unat count"
    using assms by (simp add: word_less_nat_alt)
  show "0 < unat (chunk pos count done)"
    using d by (simp add: unat_chunk [OF assms])
  show le: "unat done + unat (chunk pos count done) \<le> unat count"
    using d by (simp add: unat_chunk [OF assms])
  show "unat (done + chunk pos count done) = unat done + unat (chunk pos count done)"
    by (rule unat_add_lem [THEN iffD1]) (rule le_less_trans [OF le unsigned_less])
qed

function read_loop :: "nat \<Rightarrow> nat \<Rightarrow> u32 \<Rightarrow> u32 \<Rightarrow> memory \<Rightarrow> fs \<Rightarrow> u32 \<times> memory \<times> fs" where
  "read_loop fd ino count done out s =
     (if done < count then
        (let pos = f_offset (fds s fd);
             block_index = unat (pos div 4096);
             block_off = pos mod 4096
         in if FS_DIRECT \<le> block_index \<or> inode_block (disk s) ino block_index = 0 then (done, out, s)
            else
              (let n = chunk pos count done;
                   out = k_memcpy out (unat done) (disk s)
                     (unat (inode_block (disk s) ino block_index * 4096 + block_off)) (unat n)
               in read_loop fd ino count (done + n) out (set_offset fd (pos + n) s)))
      else (done, out, s))"
  by pat_completeness auto
termination
  by (relation "measure (\<lambda>(fd, ino, count, done, out, s). unat count - unat done)")
    (use chunk_advance in \<open>auto simp: word_less_nat_alt intro!: diff_less_mono2\<close>)

declare read_loop.simps [simp del]

definition fs_read :: "int \<Rightarrow> memory option \<Rightarrow> u32 \<Rightarrow> fs \<Rightarrow> int \<times> memory option \<times> fs" where
  "fs_read fd buf count s =
     (if fd_invalid fd s then (-1, buf, s)
      else
        (case buf of
           None \<Rightarrow> (-1, buf, s)
         | Some out \<Rightarrow>
             (let ino = unat (f_inode (fds s (nat fd))); off = f_offset (fds s (nat fd)) in
              if inode_used (disk s) ino = 0 \<or> inode_type (disk s) ino \<noteq> FS_FILE then (-1, buf, s)
              else if inode_size (disk s) ino \<le> off then (0, buf, s)
              else
                (let available = inode_size (disk s) ino - off;
                     count = (if available < count then available else count);
                     (done, out, s) = read_loop (nat fd) ino count 0 out s
                 in (sint done, Some out, s)))))"

text \<open>The block a write goes to: the one the inode has, or a freshly allocated one; \<open>None\<close> when
  the disk is full.\<close>

definition write_block :: "nat \<Rightarrow> nat \<Rightarrow> memory \<Rightarrow> memory option" where
  "write_block ino block_index m =
     (if inode_block m ino block_index = 0
      then (let (b, m) = alloc_block m in
            if b < 0 then None else Some (set_inode_block m ino block_index (of_int b)))
      else Some m)"

function write_loop :: "nat \<Rightarrow> nat \<Rightarrow> u32 \<Rightarrow> memory \<Rightarrow> u32 \<Rightarrow> fs \<Rightarrow> u32 \<times> fs" where
  "write_loop fd ino count src done s =
     (if done < count then
        (let pos = f_offset (fds s fd);
             block_index = unat (pos div 4096);
             block_off = pos mod 4096
         in if FS_DIRECT \<le> block_index then (done, s)
            else
              (case write_block ino block_index (disk s) of
                 None \<Rightarrow> (done, s)
               | Some m \<Rightarrow>
                   (let n = chunk pos count done;
                        m = k_memcpy m (unat (inode_block m ino block_index * 4096 + block_off))
                          src (unat done) (unat n)
                    in write_loop fd ino count src (done + n) (set_offset fd (pos + n) (s\<lparr>disk := m\<rparr>)))))
      else (done, s))"
  by pat_completeness auto
termination
  by (relation "measure (\<lambda>(fd, ino, count, src, done, s). unat count - unat done)")
    (use chunk_advance in \<open>auto simp: word_less_nat_alt intro!: diff_less_mono2\<close>)

declare write_loop.simps [simp del]

definition fs_write :: "int \<Rightarrow> memory option \<Rightarrow> u32 \<Rightarrow> fs \<Rightarrow> int \<times> fs" where
  "fs_write fd buf count s =
     (if fd_invalid fd s then (-1, s)
      else
        (case buf of
           None \<Rightarrow> (-1, s)
         | Some src \<Rightarrow>
             (let ino = unat (f_inode (fds s (nat fd))); off = f_offset (fds s (nat fd)) in
              if inode_used (disk s) ino = 0 \<or> inode_type (disk s) ino \<noteq> FS_FILE then (-1, s)
              else if 32768 < off then (-1, s)
              else
                (let writable = 32768 - off;
                     count = (if writable < count then writable else count);
                     (done, s) = write_loop (nat fd) ino count src 0 s;
                     off = f_offset (fds s (nat fd));
                     s = (if inode_size (disk s) ino < off then s\<lparr>disk := set_inode_size (disk s) ino off\<rparr> else s)
                 in (sint done, s)))))"

definition fs_close :: "int \<Rightarrow> fs \<Rightarrow> int \<times> fs" where
  "fs_close fd s =
     (if fd_invalid fd s then (-1, s)
      else (0, s\<lparr>fds := (fds s)(nat fd := zero_file)\<rparr>))"

definition free_blocks :: "nat \<Rightarrow> memory \<Rightarrow> memory" where
  "free_blocks ino m =
     for_do (\<lambda>i m. if inode_block m ino i \<noteq> 0 then free_block (inode_block m ino i) m else m) 0 FS_DIRECT m"

definition fs_unlink :: "cstr \<Rightarrow> fs \<Rightarrow> int \<times> fs" where
  "fs_unlink name s =
     (let d = find_dirent name (disk s) in
      if d < 0 then (-1, s)
      else
        (let ino_num = ucast (dirent_inode (disk s) (nat d)) :: u32 in
         if unat ino_num = FS_ROOT_INODE \<or> FS_MAX_INODES \<le> unat ino_num then (-1, s)
         else if for_find (\<lambda>fd. f_used (fds s fd) \<noteq> 0 \<and> ucast (f_inode (fds s fd)) = ino_num) 0 FS_MAX_FDS \<noteq> None
           then (-2, s)
         else
           (let m = free_blocks (unat ino_num) (disk s);
                m = free_inode ino_num m;
                m = remove_dirent (of_int d) m
            in (0, s\<lparr>disk := m\<rparr>))))"

definition fs_size :: "int \<Rightarrow> fs \<Rightarrow> u32" where
  "fs_size fd s = (if fd_invalid fd s then 0 else inode_size (disk s) (unat (f_inode (fds s (nat fd)))))"

text \<open>The listing. \<^verbatim>\<open>vga_printf\<close> receives the address of the name inside the RAM disk, which it
  prints as a number when its format asks for one.\<close>

definition list_line :: "memory \<Rightarrow> nat \<Rightarrow> int \<times> vga \<Rightarrow> (int \<times> vga) option" where
  "list_line m i cv =
     (let (count, v) = cv; ino_num = unat (dirent_inode m i) in
      if dirent_used m i = 0 then Some (count, v)
      else if FS_MAX_INODES \<le> ino_num \<or> inode_used m ino_num = 0 then Some (count, v)
      else
        (case vga_printf (bytes ''  %-24s %u bytes'' @ [0x0A])
            [VStr (Some (0x200000 + of_nat (dirent_name_addr i)))
               (takeWhile (\<lambda>c. c \<noteq> 0) (d_name (load_dirent m i))),
             VInt (inode_size m ino_num)] v of
           None \<Rightarrow> None
         | Some v \<Rightarrow> Some (count + 1, v)))"

definition fs_list :: "fs \<Rightarrow> vga \<Rightarrow> vga option" where
  "fs_list s v =
     (let v = vga_puts_color (Some ([0x0A] @ bytes ''  Name                     Size'' @ [0x0A]))
            VGA_LIGHT_CYAN VGA_BLACK v;
          v = vga_puts (Some (bytes ''  ------------------------ -----'' @ [0x0A])) v
      in case for_do (\<lambda>i r. Option.bind r (list_line (disk s) i)) 0 DIR_ENTRIES (Some (0, v)) of
           None \<Rightarrow> None
         | Some (count, v) \<Rightarrow> Some (if count = 0 then vga_puts (Some (bytes ''  <empty>'' @ [0x0A])) v else v))"

end
