(* ===== verification/FsInv.thy ===== *)
theory FsInv
  imports Fs
begin

text \<open>
  The invariant of the file system, stated on the typed view of the disk and on the open-file
  table, and the effect of the allocation and directory primitives on the view.
\<close>

section \<open>Reading the view\<close>

definition is_file :: "fs_view \<Rightarrow> nat \<Rightarrow> bool" where
  "is_file V i \<longleftrightarrow> 1 \<le> i \<and> i < 64 \<and> i_used (v_ino V i) \<noteq> 0"

definition blk :: "fs_view \<Rightarrow> nat \<Rightarrow> nat \<Rightarrow> nat" where
  "blk V i k = unat (i_blocks (v_ino V i) ! k)"

definition fsize :: "fs_view \<Rightarrow> nat \<Rightarrow> nat" where
  "fsize V i = unat (i_size (v_ino V i))"

definition is_ent :: "fs_view \<Rightarrow> nat \<Rightarrow> bool" where
  "is_ent V j \<longleftrightarrow> j < 128 \<and> d_used (v_dir V j) \<noteq> 0"

definition ent_id :: "fs_view \<Rightarrow> nat \<Rightarrow> nat" where
  "ent_id V j = unat (d_inode (v_dir V j))"

definition ent_name :: "fs_view \<Rightarrow> nat \<Rightarrow> cstr" where
  "ent_name V j = name_of (v_dir V j)"

definition faddr :: "fs_view \<Rightarrow> nat \<Rightarrow> nat \<Rightarrow> nat" where
  "faddr V i p = blk V i (p div 4096) * 4096 + p mod 4096"

definition fbyte :: "fs_view \<Rightarrow> nat \<Rightarrow> nat \<Rightarrow> u8" where
  "fbyte V i p = v_data V (faddr V i p)"

definition nblocks :: "nat \<Rightarrow> nat" where
  "nblocks n = (n + 4095) div 4096"

definition blocks_free :: "memory \<Rightarrow> nat" where
  "blocks_free m = clear_bits (\<lambda>m. bit_test m block_bitmap) FS_DATA_START FS_NUM_BLOCKS m"

section \<open>The invariant\<close>

text \<open>The block clauses are relative to a size function, because inside \<^verbatim>\<open>fs_write\<close> the blocks of
  the file being written run ahead of the size stored in its inode.\<close>

definition inv_ino :: "fs_view \<Rightarrow> bool" where
  "inv_ino V \<longleftrightarrow> i_used (v_ino V 0) \<noteq> 0 \<and> (\<forall>i < 64. v_ibm V i \<longleftrightarrow> i_used (v_ino V i) \<noteq> 0)
     \<and> (\<forall>i. is_file V i \<longrightarrow> i_type (v_ino V i) = 1)"

definition inv_blk :: "fs_view \<Rightarrow> (nat \<Rightarrow> nat) \<Rightarrow> bool" where
  "inv_blk V sz \<longleftrightarrow>
     (\<forall>i. is_file V i \<longrightarrow> sz i \<le> 32768
        \<and> (\<forall>k < 8. (blk V i k \<noteq> 0 \<longleftrightarrow> k * 4096 < sz i) \<and> (blk V i k \<noteq> 0 \<longrightarrow> 5 \<le> blk V i k \<and> blk V i k < 256)))
     \<and> (\<forall>i k j l. is_file V i \<and> k < 8 \<and> is_file V j \<and> l < 8 \<and> blk V i k = blk V j l \<and> blk V i k \<noteq> 0
          \<longrightarrow> i = j \<and> k = l)
     \<and> (\<forall>b. 5 \<le> b \<and> b < 256 \<longrightarrow> (v_bbm V b \<longleftrightarrow> (\<exists>i k. is_file V i \<and> k < 8 \<and> blk V i k = b)))"

definition inv_dir :: "fs_view \<Rightarrow> bool" where
  "inv_dir V \<longleftrightarrow>
     (\<forall>j. is_ent V j \<longrightarrow> is_file V (ent_id V j) \<and> ent_name V j \<noteq> [] \<and> length (ent_name V j) < 24)
     \<and> (\<forall>j k. is_ent V j \<and> is_ent V k \<and> (ent_id V j = ent_id V k \<or> ent_name V j = ent_name V k) \<longrightarrow> j = k)
     \<and> (\<forall>i. is_file V i \<longrightarrow> (\<exists>j. is_ent V j \<and> ent_id V j = i))"

definition inv_fds :: "fs_view \<Rightarrow> (nat \<Rightarrow> file_t) \<Rightarrow> bool" where
  "inv_fds V F \<longleftrightarrow> (\<forall>fd < 32. f_used (F fd) \<noteq> 0 \<longrightarrow>
     is_file V (unat (f_inode (F fd))) \<and> unat (f_offset (F fd)) \<le> fsize V (unat (f_inode (F fd))))"

definition fs_ok :: "fs \<Rightarrow> bool" where
  "fs_ok s \<longleftrightarrow> (let V = view (disk s) in
     inv_ino V \<and> inv_blk V (fsize V) \<and> inv_dir V \<and> inv_fds V (fds s))"

lemma inv_blkI:
  assumes "\<And>i. is_file V i \<Longrightarrow> sz i \<le> 32768"
    and "\<And>i k. is_file V i \<Longrightarrow> k < 8 \<Longrightarrow> blk V i k \<noteq> 0 \<longleftrightarrow> k * 4096 < sz i"
    and "\<And>i k. is_file V i \<Longrightarrow> k < 8 \<Longrightarrow> blk V i k \<noteq> 0 \<Longrightarrow> 5 \<le> blk V i k \<and> blk V i k < 256"
    and "\<And>i k j l. is_file V i \<Longrightarrow> k < 8 \<Longrightarrow> is_file V j \<Longrightarrow> l < 8 \<Longrightarrow> blk V i k = blk V j l \<Longrightarrow>
           blk V i k \<noteq> 0 \<Longrightarrow> i = j \<and> k = l"
    and "\<And>b. 5 \<le> b \<Longrightarrow> b < 256 \<Longrightarrow> v_bbm V b \<longleftrightarrow> (\<exists>i k. is_file V i \<and> k < 8 \<and> blk V i k = b)"
  shows "inv_blk V sz"
  unfolding inv_blk_def
  by (intro conjI allI impI; (elim conjE)?) (use assms in \<open>blast+\<close>)

lemma inv_blkD:
  assumes "inv_blk V sz"
  shows "is_file V i \<Longrightarrow> sz i \<le> 32768"
    and "is_file V i \<Longrightarrow> k < 8 \<Longrightarrow> blk V i k \<noteq> 0 \<longleftrightarrow> k * 4096 < sz i"
    and "is_file V i \<Longrightarrow> k < 8 \<Longrightarrow> blk V i k \<noteq> 0 \<Longrightarrow> 5 \<le> blk V i k \<and> blk V i k < 256"
    and "is_file V i \<Longrightarrow> k < 8 \<Longrightarrow> is_file V j \<Longrightarrow> l < 8 \<Longrightarrow> blk V i k = blk V j l \<Longrightarrow>
           blk V i k \<noteq> 0 \<Longrightarrow> i = j \<and> k = l"
    and "5 \<le> b \<Longrightarrow> b < 256 \<Longrightarrow> v_bbm V b \<longleftrightarrow> (\<exists>i k. is_file V i \<and> k < 8 \<and> blk V i k = b)"
  using assms unfolding inv_blk_def by blast+

text \<open>The block clauses only look at which inodes are files, at their blocks and at the bitmap.\<close>

lemma inv_blk_cong:
  assumes "\<And>i. is_file V' i = is_file V i" "\<And>i k. is_file V i \<Longrightarrow> k < 8 \<Longrightarrow> blk V' i k = blk V i k"
    and "v_bbm V' = v_bbm V" "\<And>i. is_file V i \<Longrightarrow> sz' i = sz i"
  shows "inv_blk V' sz' \<longleftrightarrow> inv_blk V sz"
proof -
  have "inv_blk V' sz'" if I: "inv_blk V sz" and "\<And>i. is_file V' i = is_file V i"
    and "\<And>i k. is_file V i \<Longrightarrow> k < 8 \<Longrightarrow> blk V' i k = blk V i k" and "v_bbm V' = v_bbm V"
    and "\<And>i. is_file V i \<Longrightarrow> sz' i = sz i" for V V' :: fs_view and sz sz'
    by (rule inv_blkI) (use that inv_blkD [OF I] in \<open>simp_all cong: conj_cong\<close>)
  from this [of V sz V' sz'] this [of V' sz' V sz] show ?thesis
    using assms by metis
qed

lemma inv_dirI:
  assumes "\<And>j. is_ent V j \<Longrightarrow> is_file V (ent_id V j) \<and> ent_name V j \<noteq> [] \<and> length (ent_name V j) < 24"
    and "\<And>j k. is_ent V j \<Longrightarrow> is_ent V k \<Longrightarrow> ent_id V j = ent_id V k \<Longrightarrow> j = k"
    and "\<And>j k. is_ent V j \<Longrightarrow> is_ent V k \<Longrightarrow> ent_name V j = ent_name V k \<Longrightarrow> j = k"
    and "\<And>i. is_file V i \<Longrightarrow> \<exists>j. is_ent V j \<and> ent_id V j = i"
  shows "inv_dir V"
  unfolding inv_dir_def
  by (intro conjI allI impI; (elim conjE)?) (use assms in \<open>blast+\<close>)

lemma inv_dirD:
  assumes "inv_dir V"
  shows "is_ent V j \<Longrightarrow> is_file V (ent_id V j) \<and> ent_name V j \<noteq> [] \<and> length (ent_name V j) < 24"
    and "is_ent V j \<Longrightarrow> is_ent V k \<Longrightarrow> ent_id V j = ent_id V k \<Longrightarrow> j = k"
    and "is_ent V j \<Longrightarrow> is_ent V k \<Longrightarrow> ent_name V j = ent_name V k \<Longrightarrow> j = k"
    and "is_file V i \<Longrightarrow> \<exists>j. is_ent V j \<and> ent_id V j = i"
  using assms unfolding inv_dir_def by blast+

lemma fs_okD:
  assumes "fs_ok s"
  shows "inv_ino (view (disk s))" "inv_blk (view (disk s)) (fsize (view (disk s)))"
    "inv_dir (view (disk s))" "inv_fds (view (disk s)) (fds s)"
  using assms by (simp_all add: fs_ok_def Let_def)

section \<open>The primitives in the view\<close>

lemma alloc_inode_Some:
  assumes "for_find (\<lambda>i. \<not> v_ibm (view m) i) 1 64 = Some i"
  shows "\<exists>m'. alloc_inode m = (int i, m')
     \<and> view m' = (view m)\<lparr>v_ibm := (v_ibm (view m))(i := True),
          v_ino := (v_ino (view m))(i := zero_inode\<lparr>i_used := 1, i_type := 1\<rparr>)\<rparr>"
proof -
  have i: "i < 64" using assms by (rule for_find_SomeD)
  have "for_find (\<lambda>i. \<not> bit_test m inode_bitmap i) 1 64 = Some i"
    by (subst assms [symmetric]) (rule for_find_cong, simp add: view_simps)
  with i show ?thesis
    by (simp add: alloc_inode_def view_simps)
qed

lemma alloc_inode_None:
  assumes "for_find (\<lambda>i. \<not> v_ibm (view m) i) 1 64 = None"
  shows "alloc_inode m = (-1, m)"
proof -
  have "for_find (\<lambda>i. \<not> bit_test m inode_bitmap i) 1 64 = None"
    by (subst assms [symmetric]) (rule for_find_cong, simp add: view_simps)
  then show ?thesis by (simp add: alloc_inode_def)
qed

lemma view_free_inode:
  assumes "1 \<le> unat i" "unat i < 64"
  shows "view (free_inode i m) = (view m)\<lparr>v_ibm := (v_ibm (view m))(unat i := False),
     v_ino := (v_ino (view m))(unat i := zero_inode)\<rparr>"
  using assms by (simp add: free_inode_def view_simps)

lemma alloc_block_Some:
  assumes "for_find (\<lambda>b. \<not> v_bbm (view m) b) 5 256 = Some b"
  shows "\<exists>m'. alloc_block m = (int b, m')
     \<and> view m' = (view m)\<lparr>v_bbm := (v_bbm (view m))(b := True),
          v_data := fill (v_data (view m)) (b * 4096) 0 4096\<rparr>
     \<and> Suc (blocks_free m') = blocks_free m"
proof -
  have b: "5 \<le> b" "b < 256" using for_find_SomeD [OF assms] by simp_all
  have f: "for_find (\<lambda>b. \<not> bit_test m block_bitmap b) 5 256 = Some b"
    by (subst assms [symmetric]) (rule for_find_cong, simp add: view_simps)
  let ?m = "bit_set m block_bitmap b"
  have "bit_test (k_memset ?m (b * 4096) 0 4096) block_bitmap j = bit_test ?m block_bitmap j" if "j < 256" for j
    using that b by (simp add: view_simps)
  then have "blocks_free (k_memset ?m (b * 4096) 0 4096) = blocks_free ?m"
    unfolding blocks_free_def clear_bits_def by (metis (lifting))
  moreover have "Suc (blocks_free ?m) = blocks_free m"
    using f unfolding blocks_free_def by (intro block_map.take_count) (simp add: find_clear_def)
  ultimately show ?thesis
    using b f by (simp add: alloc_block_def view_simps)
qed

lemma alloc_block_None:
  assumes "for_find (\<lambda>b. \<not> v_bbm (view m) b) 5 256 = None"
  shows "alloc_block m = (-1, m) \<and> blocks_free m = 0"
proof -
  have f: "for_find (\<lambda>b. \<not> bit_test m block_bitmap b) 5 256 = None"
    by (subst assms [symmetric]) (rule for_find_cong, simp add: view_simps)
  then have "blocks_free m = 0"
    unfolding blocks_free_def by (subst block_map.find_clear_None [symmetric]) (simp add: find_clear_def)
  with f show ?thesis by (simp add: alloc_block_def)
qed

text \<open>The number of free blocks depends only on the block bitmap of the view.\<close>

lemma blocks_free_view: "blocks_free m = card {b. 5 \<le> b \<and> b < 256 \<and> \<not> v_bbm (view m) b}"
  unfolding blocks_free_def clear_bits_def by (rule arg_cong [where f = card]) (auto simp: view_simps)

end
