(* ===== verification/FsSpec.thy ===== *)
theory FsSpec
  imports FsInv
begin

text \<open>
  What the file system promises, without blocks, inodes or a directory table: names bound to file
  numbers, a byte string per file, a table of open files with their offsets, and the number of
  free blocks. Each abstract operation returns the code's result; \<open>abs_fs\<close> maps a state of the
  implementation to the abstract one.
\<close>

section \<open>Abstract state and operations\<close>

record afs =
  a_names :: "cstr \<rightharpoonup> nat"
  a_files :: "nat \<rightharpoonup> u8 list"
  a_open :: "nat \<rightharpoonup> nat \<times> nat"
  a_free :: nat

definition a_init :: afs where
  "a_init = \<lparr>a_names = Map.empty, a_files = Map.empty, a_open = Map.empty, a_free = 251\<rparr>"

definition a_create :: "cstr option \<Rightarrow> afs \<Rightarrow> int \<times> afs" where
  "a_create name A =
     (case name of
        None \<Rightarrow> (-1, A)
      | Some n \<Rightarrow>
          if n = [] \<or> 24 \<le> length n then (-1, A)
          else if a_names A n \<noteq> None then (-2, A)
          else (case for_find (\<lambda>i. a_files A i = None) 1 64 of
                  None \<Rightarrow> (-3, A)
                | Some i \<Rightarrow> (int i, A\<lparr>a_names := (a_names A)(n \<mapsto> i), a_files := (a_files A)(i \<mapsto> [])\<rparr>)))"

definition a_open_file :: "cstr \<Rightarrow> afs \<Rightarrow> int \<times> afs" where
  "a_open_file n A =
     (case a_names A n of
        None \<Rightarrow> (-1, A)
      | Some i \<Rightarrow>
          (case for_find (\<lambda>fd. a_open A fd = None) 0 32 of
             None \<Rightarrow> (-2, A)
           | Some fd \<Rightarrow> (int fd, A\<lparr>a_open := (a_open A)(fd \<mapsto> (i, 0))\<rparr>)))"

definition a_fd :: "int \<Rightarrow> afs \<Rightarrow> (nat \<times> nat) option" where
  "a_fd fd A = (if fd < 0 then None else a_open A (nat fd))"

definition put_bytes :: "memory \<Rightarrow> u8 list \<Rightarrow> memory" where
  "put_bytes m bs = (\<lambda>p. if p < length bs then bs ! p else m p)"

definition a_read :: "int \<Rightarrow> memory option \<Rightarrow> nat \<Rightarrow> afs \<Rightarrow> int \<times> memory option \<times> afs" where
  "a_read fd buf count A =
     (case (a_fd fd A, buf) of
        (Some (i, off), Some out) \<Rightarrow>
          (let got = take count (drop off (the (a_files A i))) in
           (int (length got), Some (put_bytes out got),
            A\<lparr>a_open := (a_open A)(nat fd \<mapsto> (i, off + length got))\<rparr>))
      | _ \<Rightarrow> (-1, buf, A))"

definition a_write :: "int \<Rightarrow> memory option \<Rightarrow> nat \<Rightarrow> afs \<Rightarrow> int \<times> afs" where
  "a_write fd buf count A =
     (case (a_fd fd A, buf) of
        (Some (i, off), Some src) \<Rightarrow>
          (let c = the (a_files A i);
               n = min count (min (32768 - off) ((nblocks (length c) + a_free A) * 4096 - off));
               c' = take off c @ map src [0..<n] @ drop (off + n) c
           in (int n,
               A\<lparr>a_files := (a_files A)(i \<mapsto> c'), a_open := (a_open A)(nat fd \<mapsto> (i, off + n)),
                 a_free := a_free A - (nblocks (length c') - nblocks (length c))\<rparr>))
      | _ \<Rightarrow> (-1, A))"

definition a_close :: "int \<Rightarrow> afs \<Rightarrow> int \<times> afs" where
  "a_close fd A =
     (case a_fd fd A of
        None \<Rightarrow> (-1, A)
      | Some _ \<Rightarrow> (0, A\<lparr>a_open := (a_open A)(nat fd := None)\<rparr>))"

definition a_unlink :: "cstr \<Rightarrow> afs \<Rightarrow> int \<times> afs" where
  "a_unlink n A =
     (case a_names A n of
        None \<Rightarrow> (-1, A)
      | Some i \<Rightarrow>
          if \<exists>fd < 32. map_option fst (a_open A fd) = Some i then (-2, A)
          else (0, A\<lparr>a_names := (a_names A)(n := None), a_files := (a_files A)(i := None),
                     a_free := a_free A + nblocks (length (the (a_files A i)))\<rparr>))"

section \<open>The abstraction\<close>

definition content :: "fs_view \<Rightarrow> nat \<Rightarrow> nat \<Rightarrow> u8 list" where
  "content V i n = map (fbyte V i) [0..<n]"

definition find_ent :: "fs_view \<Rightarrow> cstr \<Rightarrow> nat option" where
  "find_ent V name = for_find (\<lambda>j. is_ent V j \<and> ent_name V j = name) 0 128"

definition abs_names :: "fs_view \<Rightarrow> cstr \<rightharpoonup> nat" where
  "abs_names V = (\<lambda>name. map_option (ent_id V) (find_ent V name))"

definition abs_files :: "fs_view \<Rightarrow> nat \<rightharpoonup> u8 list" where
  "abs_files V = (\<lambda>i. if is_file V i then Some (content V i (fsize V i)) else None)"

definition abs_open :: "(nat \<Rightarrow> file_t) \<Rightarrow> nat \<rightharpoonup> nat \<times> nat" where
  "abs_open F = (\<lambda>fd. if fd < 32 \<and> f_used (F fd) \<noteq> 0
     then Some (unat (f_inode (F fd)), unat (f_offset (F fd))) else None)"

definition abs_fs :: "fs \<Rightarrow> afs" where
  "abs_fs s = \<lparr>a_names = abs_names (view (disk s)), a_files = abs_files (view (disk s)),
     a_open = abs_open (fds s), a_free = blocks_free (disk s)\<rparr>"

lemma abs_fs_simps [simp]:
  "a_names (abs_fs s) = abs_names (view (disk s))"
  "a_files (abs_fs s) = abs_files (view (disk s))"
  "a_open (abs_fs s) = abs_open (fds s)"
  "a_free (abs_fs s) = blocks_free (disk s)"
  by (simp_all add: abs_fs_def)

lemma afs_eqI:
  "a_names A = a_names B \<Longrightarrow> a_files A = a_files B \<Longrightarrow> a_open A = a_open B \<Longrightarrow> a_free A = a_free B
     \<Longrightarrow> A = (B :: afs)"
  by simp

section \<open>Directory lookup\<close>

lemma find_ent_SomeD:
  assumes "find_ent V name = Some j"
  shows "is_ent V j" "ent_name V j = name" "j < 128"
  using assms by (auto simp: find_ent_def for_find_Some_iff)

lemma find_ent_None: "find_ent V name = None \<longleftrightarrow> (\<forall>j. is_ent V j \<longrightarrow> ent_name V j \<noteq> name)"
  by (auto simp: find_ent_def for_find_None_iff is_ent_def)

lemma find_ent_Some:
  assumes "inv_dir V"
  shows "find_ent V name = Some j \<longleftrightarrow> is_ent V j \<and> ent_name V j = name"
proof
  assume j: "is_ent V j \<and> ent_name V j = name"
  then obtain k where "find_ent V name = Some k"
    using find_ent_None [of V name] by (cases "find_ent V name") auto
  with j assms show "find_ent V name = Some j"
    using find_ent_SomeD(1,2) [of V name k] unfolding inv_dir_def by metis
qed (auto dest: find_ent_SomeD)

lemma abs_names_Some:
  "inv_dir V \<Longrightarrow> abs_names V name = Some i \<longleftrightarrow> (\<exists>j. is_ent V j \<and> ent_name V j = name \<and> ent_id V j = i)"
  by (auto simp: abs_names_def find_ent_Some)

lemma abs_names_None: "abs_names V name = None \<longleftrightarrow> (\<forall>j. is_ent V j \<longrightarrow> ent_name V j \<noteq> name)"
  by (simp add: abs_names_def find_ent_None)

lemma find_dirent_view:
  assumes "inv_dir (view m)" "cstr_ok name"
  shows "find_dirent name m = (case find_ent (view m) name of Some j \<Rightarrow> int j | None \<Rightarrow> -1)"
proof -
  have "(dirent_used m j \<noteq> 0 \<and> k_strcmp m (dirent_name_addr j) name = 0)
      = (is_ent (view m) j \<and> ent_name (view m) j = name)" if "j < 128" for j
  proof (cases "is_ent (view m) j")
    case True
    then have "length (name_of (v_dir (view m) j)) < 24"
      using assms(1) by (auto simp: inv_dir_def ent_name_def)
    with True that assms(2) show ?thesis
      by (simp add: strcmp_dirent ent_name_def is_ent_def view_simps)
  next
    case False
    with that show ?thesis by (simp add: is_ent_def view_simps)
  qed
  then have "for_find (\<lambda>i. dirent_used m i \<noteq> 0 \<and> k_strcmp m (dirent_name_addr i) name = 0) 0 128
      = find_ent (view m) name"
    unfolding find_ent_def by (intro for_find_cong) simp
  then show ?thesis by (simp add: find_dirent_def)
qed

end
