(* ===== verification/FsDir.thy ===== *)
theory FsDir
  imports FsSpec
begin

text \<open>
  The operations on names and descriptors: create, open, close and unlink keep the invariant and
  implement their abstract counterparts. Each proof has one lemma on the view (what the operation
  does to the typed structures) and one on the abstraction.
\<close>

section \<open>Creating a file\<close>

text \<open>The view after a file has been added: inode \<open>i\<close> becomes the empty file \<open>I\<close> and directory
  slot \<open>j\<close> names it.\<close>

definition add_file :: "nat \<Rightarrow> inode_t \<Rightarrow> nat \<Rightarrow> dirent_t \<Rightarrow> fs_view \<Rightarrow> fs_view" where
  "add_file i I j d V = V\<lparr>v_ibm := (v_ibm V)(i := True), v_ino := (v_ino V)(i := I),
     v_dir := (v_dir V)(j := d)\<rparr>"

definition fresh_file :: "nat \<Rightarrow> inode_t \<Rightarrow> nat \<Rightarrow> dirent_t \<Rightarrow> cstr \<Rightarrow> fs_view \<Rightarrow> bool" where
  "fresh_file i I j d name V \<longleftrightarrow>
     1 \<le> i \<and> i < 64 \<and> \<not> is_file V i \<and> i_used I = 1 \<and> i_type I = 1 \<and> i_size I = 0 \<and> i_blocks I = replicate 8 0
     \<and> j < 128 \<and> \<not> is_ent V j \<and> d_used d = 1 \<and> unat (d_inode d) = i \<and> name_of d = name
     \<and> (\<forall>j. is_ent V j \<longrightarrow> ent_name V j \<noteq> name)"

lemma add_file_is_file: "fresh_file i I j d name V \<Longrightarrow> is_file (add_file i I j d V) x \<longleftrightarrow> x = i \<or> is_file V x"
  by (auto simp: is_file_def add_file_def fresh_file_def)

lemma add_file_blk:
  "fresh_file i I j d name V \<Longrightarrow> k < 8 \<Longrightarrow> blk (add_file i I j d V) x k = (if x = i then 0 else blk V x k)"
  by (auto simp: blk_def add_file_def fresh_file_def)

lemma add_file_size:
  "fresh_file i I j d name V \<Longrightarrow> fsize (add_file i I j d V) x = (if x = i then 0 else fsize V x)"
  by (auto simp: fsize_def add_file_def fresh_file_def)

lemma add_file_ent:
  assumes "fresh_file i I j d name V"
  shows "is_ent (add_file i I j d V) k \<longleftrightarrow> k = j \<or> is_ent V k"
    "ent_id (add_file i I j d V) k = (if k = j then i else ent_id V k)"
    "ent_name (add_file i I j d V) k = (if k = j then name else ent_name V k)"
  using assms by (auto simp: is_ent_def ent_id_def ent_name_def add_file_def fresh_file_def)

lemma fresh_fileD:
  assumes "fresh_file i I j d name V"
  shows "1 \<le> i" "i < 64" "\<not> is_file V i" "\<not> is_ent V j" "\<And>k. is_ent V k \<Longrightarrow> ent_name V k \<noteq> name"
  using assms by (auto simp: fresh_file_def)

lemma add_file_inv_ino: "fresh_file i I j d name V \<Longrightarrow> inv_ino V \<Longrightarrow> inv_ino (add_file i I j d V)"
  unfolding inv_ino_def by (simp add: add_file_is_file) (auto simp: add_file_def fresh_file_def)

lemma add_file_inv_blk:
  assumes f: "fresh_file i I j d name V" and b: "inv_blk V (fsize V)"
  shows "inv_blk (add_file i I j d V) (fsize (add_file i I j d V))"
proof (rule inv_blkI)
  note s = add_file_is_file [OF f] add_file_blk [OF f] add_file_size [OF f]
  note I = inv_blkD [OF b]
  let ?V = "add_file i I j d V"
  show "fsize ?V x \<le> 32768" if "is_file ?V x" for x
    using that I(1) by (auto simp: s)
  show "blk ?V x k \<noteq> 0 \<longleftrightarrow> k * 4096 < fsize ?V x" if "is_file ?V x" "k < 8" for x k
    using that I(2) by (auto simp: s)
  show "5 \<le> blk ?V x k \<and> blk ?V x k < 256" if "is_file ?V x" "k < 8" "blk ?V x k \<noteq> 0" for x k
    using that I(3) by (auto simp: s split: if_splits)
  show "x = y \<and> k = l" if "is_file ?V x" "k < 8" "is_file ?V y" "l < 8" "blk ?V x k = blk ?V y l" "blk ?V x k \<noteq> 0"
    for x k y l
    using that I(4) [of x k y l] by (auto simp: s split: if_splits)
  show "v_bbm ?V b \<longleftrightarrow> (\<exists>x k. is_file ?V x \<and> k < 8 \<and> blk ?V x k = b)" if "5 \<le> b" "b < 256" for b
    using I(5) [OF that] that fresh_fileD(3) [OF f] by (fastforce simp: s add_file_def [THEN arg_cong [where f = v_bbm]])
qed

lemma add_file_inv_dir:
  assumes f: "fresh_file i I j d name V" and dr: "inv_dir V" and n: "name \<noteq> []" "length name < 24"
  shows "inv_dir (add_file i I j d V)"
proof (rule inv_dirI)
  note s = add_file_is_file [OF f] add_file_ent [OF f]
  note D = inv_dirD [OF dr]
  let ?V = "add_file i I j d V"
  have ids: "ent_id V k \<noteq> i" if "is_ent V k" for k
    using D(1) [OF that] fresh_fileD(3) [OF f] by auto
  show "is_file ?V (ent_id ?V k) \<and> ent_name ?V k \<noteq> [] \<and> length (ent_name ?V k) < 24" if "is_ent ?V k" for k
    using that D(1) n by (auto simp: s)
  show "k = l" if "is_ent ?V k" "is_ent ?V l" "ent_id ?V k = ent_id ?V l" for k l
    using that ids [of k] ids [of l] D(2) [of k l] by (simp add: s split: if_splits)
  show "k = l" if "is_ent ?V k" "is_ent ?V l" "ent_name ?V k = ent_name ?V l" for k l
    using that fresh_fileD(5) [OF f, of k] fresh_fileD(5) [OF f, of l] D(3) [of k l]
    by (simp add: s split: if_splits)
  show "\<exists>k. is_ent ?V k \<and> ent_id ?V k = x" if "is_file ?V x" for x
    using that D(4) [of x] fresh_fileD(4) [OF f] by (auto simp: s)
qed

lemma add_file_inv_fds:
  assumes "fresh_file i I j d name V" "inv_fds V F"
  shows "inv_fds (add_file i I j d V) F"
  using assms(2) fresh_fileD(3) [OF assms(1)] unfolding inv_fds_def
  by (simp add: add_file_is_file [OF assms(1)] add_file_size [OF assms(1)]) blast

lemma add_file_content:
  assumes "fresh_file i I j d name V" "x \<noteq> i" "n \<le> 32768"
  shows "content (add_file i I j d V) x n = content V x n"
  using assms by (simp add: content_def fbyte_def faddr_def add_file_blk [OF assms(1)]) (simp add: add_file_def)

lemma add_file_abs_files:
  assumes f: "fresh_file i I j d name V" and b: "inv_blk V (fsize V)"
  shows "abs_files (add_file i I j d V) = (abs_files V)(i \<mapsto> [])"
proof
  fix x
  show "abs_files (add_file i I j d V) x = ((abs_files V)(i \<mapsto> [])) x"
    using inv_blkD(1) [OF b, of x] add_file_content [OF f, of x "fsize V x"]
    by (simp add: abs_files_def add_file_is_file [OF f] add_file_size [OF f]) (simp add: content_def)
qed

lemma add_file_abs_names:
  assumes f: "fresh_file i I j d name V" and dr: "inv_dir V" "inv_dir (add_file i I j d V)"
  shows "abs_names (add_file i I j d V) = (abs_names V)(name \<mapsto> i)"
proof (rule ext, rule option_ext)
  fix n x
  show "abs_names (add_file i I j d V) n = Some x \<longleftrightarrow> ((abs_names V)(name \<mapsto> i)) n = Some x"
    using fresh_fileD(4,5) [OF f]
    by (auto simp: abs_names_Some dr add_file_ent [OF f] split: if_splits) metis
qed

text \<open>Directory entries name distinct files, so while an inode is free a directory slot is.\<close>

lemma free_slot:
  assumes "inv_dir V"
  shows "\<exists>j. for_find (\<lambda>j. \<not> is_ent V j) 0 128 = Some j"
proof (rule ccontr)
  assume "\<nexists>j. for_find (\<lambda>j. \<not> is_ent V j) 0 128 = Some j"
  then have all: "is_ent V j" if "j < 128" for j
    using that for_find_None_iff [of "\<lambda>j. \<not> is_ent V j" 0 128] by simp
  have "inj_on (ent_id V) {..<128}"
    using all inv_dirD(2) [OF assms] by (auto intro: inj_onI)
  moreover have "ent_id V ` {..<128} \<subseteq> {1..<64}"
    using all inv_dirD(1) [OF assms] by (auto simp: is_file_def)
  ultimately have "card {..<128::nat} \<le> card {1..<64::nat}"
    by (metis card_image card_mono finite_atLeastLessThan)
  then show False by simp
qed

lemma add_dirent_view:
  assumes "for_find (\<lambda>j. \<not> is_ent (view m) j) 0 128 = Some j" "cstr_ok name" "length name < 24"
  shows "\<exists>m' d. add_dirent name ino m = (0, m') \<and> view m' = (view m)\<lparr>v_dir := (v_dir (view m))(j := d)\<rparr>
     \<and> d_used d = 1 \<and> d_inode d = ucast ino \<and> name_of d = name"
proof -
  have j: "j < 128" using assms(1) by (rule for_find_SomeD)
  have "for_find (\<lambda>i. dirent_used m i = 0) 0 128 = Some j"
    by (subst assms(1) [symmetric]) (rule for_find_cong, simp add: view_simps is_ent_def)
  moreover define d where "d = (v_dir (view m) j)\<lparr>d_used := 1, d_inode := ucast ino,
      d_name := name @ 0 # drop (Suc (length name)) (d_name (v_dir (view m) j))\<rparr>"
  ultimately have "add_dirent name ino m = (0, k_strncpy (set_dirent_inode (set_dirent_used m j 1) j (ucast ino))
      (dirent_name_addr j) name 29)"
    and "view (k_strncpy (set_dirent_inode (set_dirent_used m j 1) j (ucast ino)) (dirent_name_addr j) name 29)
      = (view m)\<lparr>v_dir := (v_dir (view m))(j := d)\<rparr>"
    and "d_used d = 1 \<and> d_inode d = ucast ino \<and> name_of d = name"
    using j assms(2,3) by (simp_all add: add_dirent_def k_strncpy_put view_simps name_of_put)
  then show ?thesis by blast
qed

lemma fs_create_step:
  assumes ok: "fs_ok s" and name: "cstr_ok n" "n \<noteq> []" "length n < 24"
    and new: "find_ent (view (disk s)) n = None"
    and i: "for_find (\<lambda>i. \<not> v_ibm (view (disk s)) i) 1 64 = Some i"
  shows "\<exists>m I j d. fs_create (Some n) s = (int i, s\<lparr>disk := m\<rparr>) \<and> view m = add_file i I j d (view (disk s))
     \<and> fresh_file i I j d n (view (disk s))"
proof -
  let ?V = "view (disk s)"
  note I = fs_okD [OF ok]
  have fd: "find_dirent n (disk s) = -1"
    using new by (simp add: find_dirent_view [OF I(3) name(1)])
  have i64: "1 \<le> i" "i < 64" "\<not> v_ibm ?V i" using for_find_SomeD [OF i] by simp_all
  obtain m1 where m1: "alloc_inode (disk s) = (int i, m1)" "view m1 = ?V\<lparr>v_ibm := (v_ibm ?V)(i := True),
      v_ino := (v_ino ?V)(i := zero_inode\<lparr>i_used := 1, i_type := 1\<rparr>)\<rparr>"
    using alloc_inode_Some [OF i] by blast
  obtain j where j: "for_find (\<lambda>j. \<not> is_ent ?V j) 0 128 = Some j"
    using free_slot [OF I(3)] by blast
  have j128: "j < 128" "\<not> is_ent ?V j" using for_find_SomeD [OF j] by simp_all
  have "is_ent (view m1) k = is_ent ?V k" for k by (simp add: m1(2) is_ent_def)
  then obtain m2 d where m2: "add_dirent n (of_nat i) m1 = (0, m2)"
      "view m2 = (view m1)\<lparr>v_dir := (v_dir (view m1))(j := d)\<rparr>"
    and d: "d_used d = 1" "d_inode d = ucast (of_nat i :: u32)" "name_of d = n"
    using add_dirent_view [of m1 j n "of_nat i"] j name by auto
  let ?m = "k_strncpy m2 (inode_name_addr i) n 24"
  obtain I' where I': "I' = (v_ino (view m2) i)\<lparr>i_name := n @ 0 # drop (Suc (length n)) (i_name (v_ino (view m2) i))\<rparr>"
    by simp
  have vm: "view ?m = add_file i I' j d ?V"
    using i64 name by (simp add: k_strncpy_put view_simps I') (simp add: m2(2) m1(2) add_file_def)
  have "c_at n 0 \<noteq> 0" using name by (simp add: c_at_0_iff)
  then have "fs_create (Some n) s = (int i, s\<lparr>disk := ?m\<rparr>)"
    using name fd m1(1) m2(1) by (simp add: fs_create_def k_strlen_length)
  moreover have "fresh_file i I' j d n ?V"
    using i64 j128 d new I(1) unfolding fresh_file_def find_ent_None
    by (auto simp: I' m2(2) m1(2) zero_inode_def is_file_def inv_ino_def unsigned_ucast_eq take_bit_nat_eq_self unsigned_of_nat)
  ultimately show ?thesis using vm by blast
qed

lemma fs_create_sim:
  assumes ok: "fs_ok s" and name: "pred_option cstr_ok name"
  shows "fs_ok (snd (fs_create name s))
    \<and> a_create name (abs_fs s) = (fst (fs_create name s), abs_fs (snd (fs_create name s)))"
proof (cases name)
  case None
  with ok show ?thesis by (simp add: fs_create_def a_create_def)
next
  case (Some n)
  let ?V = "view (disk s)"
  have n: "cstr_ok n" using name Some by simp
  note I = fs_okD [OF ok]
  have used: "(abs_files ?V i = None) = (\<not> v_ibm ?V i)" if "1 \<le> i" "i < 64" for i
    using I(1) that by (auto simp: abs_files_def inv_ino_def is_file_def)
  have fi: "for_find (\<lambda>i. abs_files ?V i = None) 1 64 = for_find (\<lambda>i. \<not> v_ibm ?V i) 1 64"
    by (rule for_find_cong) (use used in simp)
  note fi = fi [unfolded One_nat_def]
  consider "n = [] \<or> 24 \<le> length n" | "n \<noteq> []" "length n < 24" "find_ent ?V n \<noteq> None"
    | "n \<noteq> []" "length n < 24" "find_ent ?V n = None" "for_find (\<lambda>i. \<not> v_ibm ?V i) 1 64 = None"
    | i where "n \<noteq> []" "length n < 24" "find_ent ?V n = None" "for_find (\<lambda>i. \<not> v_ibm ?V i) 1 64 = Some i"
    by force
  then show ?thesis
  proof cases
    case 1
    with ok n Some show ?thesis
      by (auto simp: fs_create_def a_create_def k_strlen_length c_at_0_iff)
  next
    case 2
    with ok n Some I(3) show ?thesis
      by (auto simp: fs_create_def a_create_def k_strlen_length c_at_0_iff find_dirent_view abs_names_def)
  next
    case 3
    with ok n Some I(3) show ?thesis
      by (simp add: fs_create_def a_create_def k_strlen_length c_at_0_iff find_dirent_view abs_names_def fi
          alloc_inode_None)
  next
    case 4
    obtain m ino j d where m: "fs_create (Some n) s = (int i, s\<lparr>disk := m\<rparr>)" "view m = add_file i ino j d ?V"
      and f: "fresh_file i ino j d n ?V"
      using fs_create_step [OF ok n 4] by blast
    have dr: "inv_dir (add_file i ino j d ?V)" by (rule add_file_inv_dir [OF f I(3) 4(1,2)])
    have "fs_ok (s\<lparr>disk := m\<rparr>)"
      using add_file_inv_ino [OF f I(1)] add_file_inv_blk [OF f I(2)] dr add_file_inv_fds [OF f I(4)]
      by (simp add: fs_ok_def m(2))
    moreover have "blocks_free m = blocks_free (disk s)"
      by (simp add: blocks_free_view m(2)) (simp add: add_file_def)
    then have "abs_fs (s\<lparr>disk := m\<rparr>) = (abs_fs s)\<lparr>a_names := (abs_names ?V)(n \<mapsto> i), a_files := (abs_files ?V)(i \<mapsto> [])\<rparr>"
      by (simp add: abs_fs_def m(2) add_file_abs_names [OF f I(3) dr] add_file_abs_files [OF f I(2)])
    ultimately show ?thesis
      using Some m(1) 4 by (simp add: a_create_def abs_names_def fi)
  qed
qed

section \<open>Opening and closing\<close>

lemma inv_fds_upd:
  assumes "inv_fds V F" "f_used f \<noteq> 0 \<Longrightarrow> is_file V (unat (f_inode f)) \<and> unat (f_offset f) \<le> fsize V (unat (f_inode f))"
  shows "inv_fds V (F(fd := f))"
  using assms by (auto simp: inv_fds_def)

lemma fs_open_sim:
  assumes ok: "fs_ok s" and n: "cstr_ok n"
  shows "fs_ok (snd (fs_open n s)) \<and> a_open_file n (abs_fs s) = (fst (fs_open n s), abs_fs (snd (fs_open n s)))"
proof (cases "find_ent (view (disk s)) n")
  case None
  with ok n show ?thesis
    by (simp add: fs_open_def a_open_file_def find_dirent_view fs_okD abs_names_def)
next
  case (Some j)
  let ?V = "view (disk s)"
  note I = fs_okD [OF ok]
  have j: "is_ent ?V j" "j < 128" using find_ent_SomeD [OF Some] by simp_all
  then have isf: "is_file ?V (ent_id ?V j)" using inv_dirD(1) [OF I(3)] by simp
  have id: "unat (dirent_inode (disk s) j) = ent_id ?V j" using j by (simp add: ent_id_def view_simps)
  have usd: "inode_used (disk s) (ent_id ?V j) \<noteq> 0" "ent_id ?V j < 64"
    using isf by (auto simp: is_file_def view_simps)
  have fd: "for_find (\<lambda>fd. abs_open (fds s) fd = None) 0 32 = for_find (\<lambda>fd. f_used (fds s fd) = 0) 0 32"
    by (rule for_find_cong) (simp add: abs_open_def)
  show ?thesis
  proof (cases "for_find (\<lambda>fd. f_used (fds s fd) = 0) 0 32")
    case None
    with Some ok n usd show ?thesis
      by (simp add: fs_open_def a_open_file_def find_dirent_view I(3) abs_names_def id fd)
  next
    case (Some k)
    let ?f = "\<lparr>f_used = 1, f_flags = 0, f_inode = of_nat (ent_id ?V j), f_offset = 0\<rparr>"
    have k: "k < 32" using Some by (rule for_find_SomeD)
    have un: "unat (of_nat (ent_id ?V j) :: u16) = ent_id ?V j"
      using usd(2) by (simp add: unsigned_of_nat take_bit_nat_eq_self)
    have "fs_open n s = (int k, s\<lparr>fds := (fds s)(k := ?f)\<rparr>)"
      using Some \<open>find_ent ?V n = Some j\<close> n usd by (simp add: fs_open_def find_dirent_view I(3) id)
    moreover have "fs_ok (s\<lparr>fds := (fds s)(k := ?f)\<rparr>)"
      using I inv_fds_upd [OF I(4), of ?f k] isf un by (simp add: fs_ok_def)
    moreover have "abs_open ((fds s)(k := ?f)) = (abs_open (fds s))(k \<mapsto> (ent_id ?V j, 0))"
      using k un by (auto simp: abs_open_def fun_eq_iff)
    ultimately show ?thesis
      using Some \<open>find_ent ?V n = Some j\<close>
      by (simp add: a_open_file_def abs_names_def fd abs_fs_def)
  qed
qed

lemma fd_invalid_abs: "fd_invalid fd s \<longleftrightarrow> a_fd fd (abs_fs s) = None"
  by (auto simp: fd_invalid_def a_fd_def abs_open_def)

lemma fs_close_sim:
  assumes ok: "fs_ok s"
  shows "fs_ok (snd (fs_close fd s)) \<and> a_close fd (abs_fs s) = (fst (fs_close fd s), abs_fs (snd (fs_close fd s)))"
proof (cases "fd_invalid fd s")
  case True
  then have "a_fd fd (abs_fs s) = None" by (simp add: fd_invalid_abs)
  with True ok show ?thesis
    by (simp add: fs_close_def a_close_def)
next
  case False
  note I = fs_okD [OF ok]
  have "fs_ok (s\<lparr>fds := (fds s)(nat fd := zero_file)\<rparr>)"
    using I inv_fds_upd [OF I(4), of zero_file "nat fd"] by (simp add: fs_ok_def zero_file_def)
  moreover have "abs_open ((fds s)(nat fd := zero_file)) = (abs_open (fds s))(nat fd := None)"
    by (auto simp: abs_open_def zero_file_def fun_eq_iff)
  moreover have "\<exists>x. a_fd fd (abs_fs s) = Some x" using False by (simp add: fd_invalid_abs)
  ultimately show ?thesis
    using False by (auto simp: fs_close_def a_close_def abs_fs_def)
qed

section \<open>Removing a file\<close>

lemma nblocks_card: "n \<le> 32768 \<Longrightarrow> card {k. k < 8 \<and> k * 4096 < n} = nblocks n"
proof -
  assume "n \<le> 32768"
  then have "{k. k < 8 \<and> k * 4096 < n} = {..<nblocks n}"
    by (auto simp: nblocks_def)
  then show ?thesis by simp
qed

lemma blk_view: "i < 64 \<Longrightarrow> k < 8 \<Longrightarrow> unat (inode_block m i k) = blk (view m) i k"
  by (simp add: blk_def view_simps)

lemma view_free_block:
  assumes "5 \<le> unat b" "unat b < 256"
  shows "view (free_block b m) = (view m)\<lparr>v_bbm := (v_bbm (view m))(unat b := False)\<rparr>"
  using assms by (simp add: free_block_def view_simps)

lemma blocks_free_free_block:
  assumes "5 \<le> unat b" "unat b < 256" "v_bbm (view m) (unat b)"
  shows "blocks_free (free_block b m) = Suc (blocks_free m)"
  using assms unfolding blocks_free_def free_block_def
  by (subst block_map.clear_bits_clear [symmetric]) (simp_all add: view_simps)

definition freed_bbm :: "fs_view \<Rightarrow> nat \<Rightarrow> nat \<Rightarrow> nat \<Rightarrow> bool" where
  "freed_bbm V i n = (\<lambda>b. v_bbm V b \<and> \<not> (\<exists>k < n. blk V i k = b \<and> b \<noteq> 0))"

lemma view_free_blocks:
  fixes m0 :: memory and i :: nat
  defines "V \<equiv> view m0"
  assumes b: "inv_blk V sz" and f: "is_file V i"
  shows "view (free_blocks i m0) = V\<lparr>v_bbm := freed_bbm V i 8\<rparr>
    \<and> blocks_free (free_blocks i m0) = blocks_free m0 + card {k. k < 8 \<and> blk V i k \<noteq> 0}"
  unfolding free_blocks_def
proof (rule for_do_invariant [where P = "\<lambda>n m. view m = V\<lparr>v_bbm := freed_bbm V i n\<rparr>
    \<and> blocks_free m = blocks_free m0 + card {k. k < n \<and> blk V i k \<noteq> 0}"])
  show "view m0 = V\<lparr>v_bbm := freed_bbm V i 0\<rparr> \<and> blocks_free m0 = blocks_free m0 + card {k. k < 0 \<and> blk V i k \<noteq> 0}"
    by (simp add: V_def freed_bbm_def)
next
  fix n m
  assume n: "n < 8" and P: "view m = V\<lparr>v_bbm := freed_bbm V i n\<rparr>
    \<and> blocks_free m = blocks_free m0 + card {k. k < n \<and> blk V i k \<noteq> 0}"
  note B = inv_blkD [OF b]
  have i64: "i < 64" using f by (simp add: is_file_def)
  have bl: "unat (inode_block m i n) = blk V i n"
    using P n i64 by (simp add: blk_view) (simp add: blk_def)
  show "view (if inode_block m i n \<noteq> 0 then free_block (inode_block m i n) m else m) = V\<lparr>v_bbm := freed_bbm V i (Suc n)\<rparr>
    \<and> blocks_free (if inode_block m i n \<noteq> 0 then free_block (inode_block m i n) m else m)
      = blocks_free m0 + card {k. k < Suc n \<and> blk V i k \<noteq> 0}"
  proof (cases "blk V i n = 0")
    case True
    then have "inode_block m i n = 0" using bl by (simp add: unat_eq_zero)
    moreover have "freed_bbm V i (Suc n) = freed_bbm V i n" using True by (auto simp: freed_bbm_def less_Suc_eq)
    moreover have "{k. k < Suc n \<and> blk V i k \<noteq> 0} = {k. k < n \<and> blk V i k \<noteq> 0}" using True by (auto simp: less_Suc_eq)
    ultimately show ?thesis using P by simp
  next
    case False
    have r: "5 \<le> blk V i n" "blk V i n < 256" using B(3) [OF f n False] by simp_all
    have set: "v_bbm V (blk V i n)" using B(5) [OF r] f n by blast
    have other: "blk V i k \<noteq> blk V i n" if "k < n" for k
      using B(4) [OF f _ f n, of k] that n False by auto
    then have "freed_bbm V i n (blk V i n)" using set by (auto simp: freed_bbm_def)
    then have "blocks_free (free_block (inode_block m i n) m) = Suc (blocks_free m)"
      using r P bl by (intro blocks_free_free_block) simp_all
    moreover have "{k. k < Suc n \<and> blk V i k \<noteq> 0} = insert n {k. k < n \<and> blk V i k \<noteq> 0}"
      using False by auto
    moreover have "(freed_bbm V i n)(blk V i n := False) = freed_bbm V i (Suc n)"
      using False by (auto simp: freed_bbm_def fun_eq_iff less_Suc_eq)
    then have "view (free_block (inode_block m i n) m) = V\<lparr>v_bbm := freed_bbm V i (Suc n)\<rparr>"
      using r P bl by (simp add: view_free_block)
    moreover have "inode_block m i n \<noteq> 0" using False bl by auto
    ultimately show ?thesis using P by simp
  qed
qed simp

definition drop_file :: "nat \<Rightarrow> nat \<Rightarrow> fs_view \<Rightarrow> fs_view" where
  "drop_file i j V = V\<lparr>v_ibm := (v_ibm V)(i := False), v_bbm := freed_bbm V i 8,
     v_ino := (v_ino V)(i := zero_inode), v_dir := (v_dir V)(j := zero_dirent)\<rparr>"

lemma drop_file_simps:
  "is_file (drop_file i j V) x \<longleftrightarrow> x \<noteq> i \<and> is_file V x"
  "is_ent (drop_file i j V) k \<longleftrightarrow> k \<noteq> j \<and> is_ent V k"
  "x \<noteq> i \<Longrightarrow> blk (drop_file i j V) x k = blk V x k"
  "x \<noteq> i \<Longrightarrow> fsize (drop_file i j V) x = fsize V x"
  "k \<noteq> j \<Longrightarrow> ent_id (drop_file i j V) k = ent_id V k"
  "k \<noteq> j \<Longrightarrow> ent_name (drop_file i j V) k = ent_name V k"
  "x \<noteq> i \<Longrightarrow> content (drop_file i j V) x n = content V x n"
  by (auto simp: is_file_def is_ent_def blk_def fsize_def ent_id_def ent_name_def drop_file_def
      zero_inode_def zero_dirent_def content_def fbyte_def faddr_def)

lemma drop_file_inv_ino: "1 \<le> i \<Longrightarrow> inv_ino V \<Longrightarrow> inv_ino (drop_file i j V)"
  unfolding inv_ino_def drop_file_simps by (auto simp: drop_file_def zero_inode_def)

lemma drop_file_inv_blk:
  assumes b: "inv_blk V (fsize V)" and f: "is_file V i"
  shows "inv_blk (drop_file i j V) (fsize (drop_file i j V))"
proof (rule inv_blkI)
  note B = inv_blkD [OF b]
  let ?V = "drop_file i j V"
  note s = drop_file_simps(1) drop_file_simps(3,4)
  show "fsize ?V x \<le> 32768" if "is_file ?V x" for x using that B(1) by (simp add: s)
  show "blk ?V x k \<noteq> 0 \<longleftrightarrow> k * 4096 < fsize ?V x" if "is_file ?V x" "k < 8" for x k
    using that B(2) by (simp add: s)
  show "5 \<le> blk ?V x k \<and> blk ?V x k < 256" if "is_file ?V x" "k < 8" "blk ?V x k \<noteq> 0" for x k
    using that B(3) by (simp add: s)
  show "x = y \<and> k = l" if "is_file ?V x" "k < 8" "is_file ?V y" "l < 8" "blk ?V x k = blk ?V y l" "blk ?V x k \<noteq> 0"
    for x k y l using that B(4) [of x k y l] by (simp add: s)
  show "v_bbm ?V c \<longleftrightarrow> (\<exists>x k. is_file ?V x \<and> k < 8 \<and> blk ?V x k = c)" if c: "5 \<le> c" "c < 256" for c
  proof
    assume "v_bbm ?V c"
    then have "v_bbm V c" "\<forall>k < 8. blk V i k \<noteq> c" using c by (auto simp: drop_file_def freed_bbm_def)
    then obtain x k where "is_file V x" "k < 8" "blk V x k = c" "x \<noteq> i" using B(5) [OF c] by blast
    then show "\<exists>x k. is_file ?V x \<and> k < 8 \<and> blk ?V x k = c" by (intro exI [of _ x] exI [of _ k]) (simp add: s)
  next
    assume "\<exists>x k. is_file ?V x \<and> k < 8 \<and> blk ?V x k = c"
    then obtain x k where x: "is_file V x" "x \<noteq> i" "k < 8" "blk V x k = c" by (auto simp: s)
    moreover have "blk V i l \<noteq> c" if "l < 8" for l
      using B(4) [OF f that x(1,3)] x c by auto
    ultimately show "v_bbm ?V c"
      using B(5) [OF c] by (auto simp: drop_file_def freed_bbm_def)
  qed
qed

lemma drop_file_inv_dir:
  assumes dr: "inv_dir V" and j: "is_ent V j" "ent_id V j = i"
  shows "inv_dir (drop_file i j V)"
proof (rule inv_dirI)
  note D = inv_dirD [OF dr]
  let ?V = "drop_file i j V"
  show "is_file ?V (ent_id ?V k) \<and> ent_name ?V k \<noteq> [] \<and> length (ent_name ?V k) < 24" if "is_ent ?V k" for k
    using that D(1) [of k] D(2) [of k j] j by (auto simp: drop_file_simps)
  show "k = l" if "is_ent ?V k" "is_ent ?V l" "ent_id ?V k = ent_id ?V l" for k l
    using that D(2) [of k l] by (simp add: drop_file_simps)
  show "k = l" if "is_ent ?V k" "is_ent ?V l" "ent_name ?V k = ent_name ?V l" for k l
    using that D(3) [of k l] by (simp add: drop_file_simps)
  show "\<exists>k. is_ent ?V k \<and> ent_id ?V k = x" if "is_file ?V x" for x
  proof -
    have "x \<noteq> i" "is_file V x" using that by (simp_all add: drop_file_simps)
    then obtain k where "is_ent V k" "ent_id V k = x" "k \<noteq> j" using D(4) [of x] j by auto
    then show ?thesis by (intro exI [of _ k]) (simp add: drop_file_simps)
  qed
qed

lemma drop_file_abs_names:
  assumes dr: "inv_dir V" and j: "is_ent V j" "ent_id V j = i" "ent_name V j = n"
  shows "abs_names (drop_file i j V) = (abs_names V)(n := None)"
proof (rule ext, rule option_ext)
  fix n' x
  have "abs_names (drop_file i j V) n' = Some x
      \<longleftrightarrow> (\<exists>k. k \<noteq> j \<and> is_ent V k \<and> ent_name V k = n' \<and> ent_id V k = x)"
    by (simp add: abs_names_Some drop_file_inv_dir [OF dr j(1,2)])
      (rule arg_cong [where f = Ex], auto simp: drop_file_simps)
  also have "\<dots> \<longleftrightarrow> n' \<noteq> n \<and> (\<exists>k. is_ent V k \<and> ent_name V k = n' \<and> ent_id V k = x)"
    using inv_dirD(3) [OF dr] j(1,3) by metis
  also have "\<dots> \<longleftrightarrow> ((abs_names V)(n := None)) n' = Some x"
    by (simp add: abs_names_Some dr)
  finally show "abs_names (drop_file i j V) n' = Some x \<longleftrightarrow> ((abs_names V)(n := None)) n' = Some x" .
qed

lemma drop_file_abs_files: "abs_files (drop_file i j V) = (abs_files V)(i := None)"
  by (auto simp: abs_files_def drop_file_simps fun_eq_iff)

lemma fs_unlink_step:
  assumes ok: "fs_ok s" and n: "cstr_ok n" and j: "find_ent (view (disk s)) n = Some j"
    and closed: "for_find (\<lambda>fd. f_used (fds s fd) \<noteq> 0 \<and> unat (f_inode (fds s fd)) = ent_id (view (disk s)) j) 0 32 = None"
  shows "\<exists>m. fs_unlink n s = (0, s\<lparr>disk := m\<rparr>)
     \<and> view m = drop_file (ent_id (view (disk s)) j) j (view (disk s))
     \<and> blocks_free m = blocks_free (disk s) + nblocks (fsize (view (disk s)) (ent_id (view (disk s)) j))"
proof -
  let ?V = "view (disk s)" let ?i = "ent_id ?V j"
  note I = fs_okD [OF ok]
  have e: "is_ent ?V j" "j < 128" using find_ent_SomeD [OF j] by simp_all
  have f: "is_file ?V ?i" using inv_dirD(1) [OF I(3) e(1)] by simp
  then have i: "1 \<le> ?i" "?i < 64" by (simp_all add: is_file_def)
  let ?u = "ucast (dirent_inode (disk s) j) :: u32"
  have id: "unat (dirent_inode (disk s) j) = ?i" using e by (simp add: ent_id_def view_simps)
  then have u: "unat ?u = ?i" by simp
  let ?m1 = "free_blocks ?i (disk s)"
  let ?m2 = "free_inode ?u ?m1"
  let ?m3 = "remove_dirent (of_nat j) ?m2"
  have v1: "view ?m1 = ?V\<lparr>v_bbm := freed_bbm ?V ?i 8\<rparr>"
    and c1: "blocks_free ?m1 = blocks_free (disk s) + card {k. k < 8 \<and> blk ?V ?i k \<noteq> 0}"
    using view_free_blocks [OF I(2) f] by simp_all
  have v2: "view ?m2 = (view ?m1)\<lparr>v_ibm := (v_ibm (view ?m1))(?i := False), v_ino := (v_ino (view ?m1))(?i := zero_inode)\<rparr>"
    using view_free_inode [of ?u ?m1] i by (simp add: id)
  have "unat (of_nat j :: u32) = j" using e(2) by (simp add: unsigned_of_nat take_bit_nat_eq_self)
  then have v3: "view ?m3 = (view ?m2)\<lparr>v_dir := (v_dir (view ?m2))(j := zero_dirent)\<rparr>"
    using e(2) by (simp add: remove_dirent_def view_clear_dirent)
  have v: "view ?m3 = drop_file ?i j ?V"
    unfolding v3 v2 v1 by (simp add: drop_file_def)
  have "{k. k < 8 \<and> blk ?V ?i k \<noteq> 0} = {k. k < 8 \<and> k * 4096 < fsize ?V ?i}"
    using inv_blkD(2) [OF I(2) f] by auto
  then have "card {k. k < 8 \<and> blk ?V ?i k \<noteq> 0} = nblocks (fsize ?V ?i)"
    using nblocks_card [OF inv_blkD(1) [OF I(2) f]] by simp
  moreover have "blocks_free ?m3 = blocks_free ?m1"
    by (simp add: blocks_free_view v v1) (simp add: drop_file_def)
  ultimately have "blocks_free ?m3 = blocks_free (disk s) + nblocks (fsize ?V ?i)"
    using c1 by simp
  moreover have "fs_unlink n s = (0, s\<lparr>disk := ?m3\<rparr>)"
    using j closed i by (simp add: fs_unlink_def find_dirent_view I(3) n id ucast_16_32_eq)
  ultimately show ?thesis using v by blast
qed

lemma fs_unlink_sim:
  assumes ok: "fs_ok s" and n: "cstr_ok n"
  shows "fs_ok (snd (fs_unlink n s)) \<and> a_unlink n (abs_fs s) = (fst (fs_unlink n s), abs_fs (snd (fs_unlink n s)))"
proof (cases "find_ent (view (disk s)) n")
  case None
  with ok n show ?thesis
    by (simp add: fs_unlink_def a_unlink_def find_dirent_view fs_okD abs_names_def)
next
  case (Some j)
  let ?V = "view (disk s)" let ?i = "ent_id ?V j"
  note I = fs_okD [OF ok]
  have e: "is_ent ?V j" "j < 128" "ent_name ?V j = n" using find_ent_SomeD [OF Some] by simp_all
  have f: "is_file ?V ?i" using inv_dirD(1) [OF I(3) e(1)] by simp
  then have i: "1 \<le> ?i" "?i < 64" by (simp_all add: is_file_def)
  have busy: "(\<exists>fd < 32. \<exists>b. abs_open (fds s) fd = Some (?i, b))
      \<longleftrightarrow> (\<exists>fd < 32. f_used (fds s fd) \<noteq> 0 \<and> unat (f_inode (fds s fd)) = ?i)"
    by (auto simp: abs_open_def)
  show ?thesis
  proof (cases "\<exists>fd < 32. f_used (fds s fd) \<noteq> 0 \<and> unat (f_inode (fds s fd)) = ?i")
    case True
    then have "for_find (\<lambda>fd. f_used (fds s fd) \<noteq> 0 \<and> unat (f_inode (fds s fd)) = ?i) 0 32 \<noteq> None"
      by (simp add: for_find_None_iff)
    moreover have "unat (dirent_inode (disk s) j) = ?i" using e by (simp add: ent_id_def view_simps)
    ultimately have "fs_unlink n s = (-2, s)"
      using Some n i by (simp add: fs_unlink_def find_dirent_view I(3) ucast_16_32_eq)
    with Some ok True show ?thesis
      by (simp add: a_unlink_def abs_names_def busy)
  next
    case False
    then have "for_find (\<lambda>fd. f_used (fds s fd) \<noteq> 0 \<and> unat (f_inode (fds s fd)) = ?i) 0 32 = None"
      by (simp add: for_find_None_iff)
    then obtain m where m: "fs_unlink n s = (0, s\<lparr>disk := m\<rparr>)" "view m = drop_file ?i j ?V"
      "blocks_free m = blocks_free (disk s) + nblocks (fsize ?V ?i)"
      using fs_unlink_step [OF ok n Some] by blast
    have "inv_fds (drop_file ?i j ?V) (fds s)"
      using I(4) False by (auto simp: inv_fds_def drop_file_simps)
    then have "fs_ok (s\<lparr>disk := m\<rparr>)"
      using drop_file_inv_ino [OF i(1) I(1)] drop_file_inv_blk [OF I(2) f] drop_file_inv_dir [OF I(3) e(1)]
      by (simp add: fs_ok_def m(2))
    moreover have "length (the (abs_files ?V ?i)) = fsize ?V ?i"
      using f by (simp add: abs_files_def content_def)
    moreover have "abs_names ?V n = Some ?i" using Some by (simp add: abs_names_def)
    ultimately show ?thesis
      using m False
      by (simp add: a_unlink_def busy)
        (simp add: abs_fs_def drop_file_abs_names [OF I(3) e(1) refl e(3)] drop_file_abs_files)
  qed
qed

end
