(* ===== verification/FsData.thy ===== *)
theory FsData
  imports FsDir
begin

text \<open>
  Reading and writing file contents. The loops of \<^verbatim>\<open>fs_read\<close> and \<^verbatim>\<open>fs_write\<close> move one chunk per round,
  never across a block boundary; the lemmas turn them into one transfer of bytes, whatever blocks
  the file occupies, and account for every block a write allocates.
\<close>

section \<open>Addresses of file bytes\<close>

lemma block_addr:
  assumes "unat b < 256"
  shows "unat (b * 4096 + pos mod 4096 :: u32) = unat b * 4096 + unat pos mod 4096"
proof -
  have "unat pos mod 4096 < 4096" by simp
  then have "unat b * 4096 + unat pos mod 4096 < 4294967296" using assms by linarith
  then show ?thesis by (simp add: unat_word_ariths unat_mod)
qed

lemma faddr_inj:
  assumes b: "inv_blk V sz" and x: "is_file V x" "p < sz x" and y: "is_file V y" "q < sz y"
    and eq: "faddr V x p = faddr V y q"
  shows "x = y \<and> p = q"
proof -
  note B = inv_blkD [OF b]
  have k: "p div 4096 < 8" "q div 4096 < 8" using x y B(1) by fastforce+
  have "p div 4096 * 4096 < sz x" "q div 4096 * 4096 < sz y"
    using x(2) y(2) by (simp_all add: div_times_less_eq_dividend le_less_trans)
  then have nz: "blk V x (p div 4096) \<noteq> 0" "blk V y (q div 4096) \<noteq> 0"
    using B(2) x(1) y(1) k by simp_all
  have "p mod 4096 < 4096" "q mod 4096 < 4096" by simp_all
  then have e: "blk V x (p div 4096) = blk V y (q div 4096)"
    using eq unfolding faddr_def by linarith
  then have m: "p mod 4096 = q mod 4096"
    using eq unfolding faddr_def by simp
  then have "x = y \<and> p div 4096 = q div 4096" using B(4) x(1) y(1) k nz e by blast
  with m show ?thesis by (metis div_mult_mod_eq)
qed

lemma faddr_range:
  assumes b: "inv_blk V sz" and x: "is_file V x" "p < sz x"
  shows "p div 4096 < 8" "blk V x (p div 4096) \<noteq> 0" "5 \<le> blk V x (p div 4096)" "blk V x (p div 4096) < 256"
    "20480 \<le> faddr V x p" "faddr V x p < 1048576"
proof -
  note B = inv_blkD [OF b]
  show k: "p div 4096 < 8" using x B(1) by fastforce
  have "p div 4096 * 4096 < sz x" using x(2) by (simp add: div_times_less_eq_dividend le_less_trans)
  then show nz: "blk V x (p div 4096) \<noteq> 0" using B(2) x(1) k by simp
  show r: "5 \<le> blk V x (p div 4096)" "blk V x (p div 4096) < 256" using B(3) x(1) k nz by blast+
  show "20480 \<le> faddr V x p" using r by (simp add: faddr_def)
  have "p mod 4096 < 4096" by simp
  then show "faddr V x p < 1048576" using r unfolding faddr_def by linarith
qed

text \<open>Bytes in the same block are at consecutive addresses.\<close>

lemma faddr_add: "p mod 4096 + t < 4096 \<Longrightarrow> faddr V x (p + t) = faddr V x p + t"
proof -
  assume t: "p mod 4096 + t < 4096"
  have "p + t = p div 4096 * 4096 + (p mod 4096 + t)" by simp
  then have "(p + t) div 4096 = p div 4096" "(p + t) mod 4096 = p mod 4096 + t"
    using t by (metis div_mult_self3 div_less add.commute add_cancel_right_left zero_neq_numeral, metis mod_mult_self3 mod_less)
  then show ?thesis by (simp add: faddr_def)
qed

section \<open>Reading\<close>

lemma set_offset_same: "off = f_offset (fds s fd) \<Longrightarrow> set_offset fd off s = s"
  by (simp add: set_offset_def)

lemma set_offset_twice: "set_offset fd a (set_offset fd b s) = set_offset fd a s"
  by (simp add: set_offset_def)

lemma set_offset_simps [simp]:
  "disk (set_offset fd a s) = disk s" "f_offset (fds (set_offset fd a s) fd) = a"
  by (simp_all add: set_offset_def)

lemma read_loop_all:
  assumes "inv_blk (view (disk s)) (fsize (view (disk s)))" "is_file (view (disk s)) ino" "done \<le> count"
    and "unat (f_offset (fds s fd)) + (unat count - unat done) \<le> fsize (view (disk s)) ino"
  shows "read_loop fd ino count done out s =
     (count,
      \<lambda>p. if unat done \<le> p \<and> p < unat count
          then fbyte (view (disk s)) ino (unat (f_offset (fds s fd)) + (p - unat done)) else out p,
      set_offset fd (f_offset (fds s fd) + (count - done)) s)"
  using assms
proof (induction "unat count - unat done" arbitrary: "done" out s rule: less_induct)
  case (less d out s)
  let ?V = "view (disk s)" let ?pos = "f_offset (fds s fd)" let ?n = "chunk ?pos count d"
  show ?case
  proof (cases "d < count")
    case False
    with less.prems(3) have "d = count" by simp
    then show ?thesis
      by (subst read_loop.simps) (auto simp: set_offset_same fun_eq_iff)
  next
    case True
    let ?k = "unat ?pos div 4096"
    have lt: "unat d < unat count" using True by (simp add: word_less_nat_alt)
    then have pos: "unat ?pos < fsize ?V ino" using less.prems(4) by linarith
    note R = faddr_range [OF less.prems(1,2) pos]
    note C = chunk_advance [OF True, of ?pos] unat_chunk [OF True, of ?pos]
    have ino: "ino < 64" using less.prems(2) by (simp add: is_file_def)
    have k: "unat (?pos div 4096) = ?k" by (simp add: unat_div)
    have ib: "unat (inode_block (disk s) ino ?k) = blk ?V ino ?k" using ino R(1) by (rule blk_view)
    then have nz: "inode_block (disk s) ino ?k \<noteq> 0" using R(2) by auto
    have ad: "unat (inode_block (disk s) ino ?k * 4096 + ?pos mod 4096) = faddr ?V ino (unat ?pos)"
      using ib R(4) by (simp add: block_addr faddr_def)
    let ?out = "k_memcpy out (unat d) (disk s) (faddr ?V ino (unat ?pos)) (unat ?n)"
    have nle: "unat ?n \<le> unat count - unat d" using C(3) lt by linarith
    have posn: "unat (?pos + ?n) = unat ?pos + unat ?n"
    proof (rule unat_add_lem [THEN iffD1])
      have "unat ?pos + unat ?n \<le> fsize ?V ino" using less.prems(4) nle by linarith
      also have "\<dots> < 2 ^ LENGTH(32)" unfolding fsize_def by (rule unsigned_less)
      finally show "unat ?pos + unat ?n < 2 ^ LENGTH(32)" .
    qed
    have "read_loop fd ino count d out s = read_loop fd ino count (d + ?n) ?out (set_offset fd (?pos + ?n) s)"
      by (subst read_loop.simps) (use True nz R(1) in \<open>simp add: k ad Let_def\<close>)
    also have "\<dots> = (count,
        \<lambda>p. if unat (d + ?n) \<le> p \<and> p < unat count
            then fbyte ?V ino (unat (?pos + ?n) + (p - unat (d + ?n))) else ?out p,
        set_offset fd ((?pos + ?n) + (count - (d + ?n))) (set_offset fd (?pos + ?n) s))"
    proof -
      have "unat count - unat (d + ?n) < unat count - unat d" using C(1,2) lt by linarith
      moreover have "d + ?n \<le> count" using C(2,3) by (simp add: word_le_nat_alt)
      moreover have "unat (?pos + ?n) + (unat count - unat (d + ?n)) \<le> fsize ?V ino"
        using posn C(2,3) less.prems(4) lt by linarith
      ultimately show ?thesis
        by (intro less.hyps [of "d + ?n" "set_offset fd (?pos + ?n) s" ?out, unfolded set_offset_simps] less.prems(1,2))
    qed
    also have "\<dots> = (count,
        \<lambda>p. if unat d \<le> p \<and> p < unat count then fbyte ?V ino (unat ?pos + (p - unat d)) else out p,
        set_offset fd (?pos + (count - d)) s)"
    proof -
      have src: "disk s (faddr ?V ino (unat ?pos) + t) = fbyte ?V ino (unat ?pos + t)" if "t < unat ?n" for t
      proof -
        have "unat ?pos mod 4096 + t < 4096" using that C(4) by linarith
        then have a: "faddr ?V ino (unat ?pos) + t = faddr ?V ino (unat ?pos + t)" by (simp add: faddr_add)
        have "unat ?pos + t < fsize ?V ino" using that nle less.prems(4) by linarith
        then show ?thesis
          using faddr_range(5,6) [OF less.prems(1,2)] unfolding a fbyte_def by (intro load_simps(9))
      qed
      have "(if unat (d + ?n) \<le> p \<and> p < unat count
            then fbyte ?V ino (unat (?pos + ?n) + (p - unat (d + ?n))) else ?out p)
          = (if unat d \<le> p \<and> p < unat count then fbyte ?V ino (unat ?pos + (p - unat d)) else out p)" for p
        using C(2,3) src [of "p - unat d"] posn by (auto simp: k_memcpy_blit blit_at)
      then show ?thesis by (simp add: set_offset_twice)
    qed
    finally show ?thesis .
  qed
qed

lemma fs_read_sim:
  assumes ok: "fs_ok s"
  shows "fs_ok (snd (snd (fs_read fd buf count s)))
    \<and> a_read fd buf (unat count) (abs_fs s)
      = (fst (fs_read fd buf count s), fst (snd (fs_read fd buf count s)), abs_fs (snd (snd (fs_read fd buf count s))))"
proof -
  let ?V = "view (disk s)" let ?f = "fds s (nat fd)"
  let ?i = "unat (f_inode ?f)" let ?off = "unat (f_offset ?f)"
  note I = fs_okD [OF ok]
  consider "a_fd fd (abs_fs s) = None \<or> buf = None"
    | out where "a_fd fd (abs_fs s) \<noteq> None" "buf = Some out" by blast
  then show ?thesis
  proof cases
    case 1
    then have "fs_read fd buf count s = (-1, buf, s)"
      by (auto simp: fs_read_def fd_invalid_abs split: option.splits)
    moreover have "a_read fd buf (unat count) (abs_fs s) = (-1, buf, abs_fs s)"
      using 1 by (auto simp: a_read_def split: option.splits)
    ultimately show ?thesis using ok by simp
  next
    case (2 out)
    have valid: "\<not> fd_invalid fd s" using 2 by (simp add: fd_invalid_abs)
    then have fd: "0 \<le> fd" "nat fd < 32" "f_used ?f \<noteq> 0" by (auto simp: fd_invalid_def)
    then have f: "is_file ?V ?i" and le: "?off \<le> fsize ?V ?i"
      using I(4) by (auto simp: inv_fds_def)
    then have i: "1 \<le> ?i" "?i < 64" by (auto simp: is_file_def)
    have u: "inode_used (disk s) ?i \<noteq> 0" "inode_type (disk s) ?i = 1" "unat (inode_size (disk s) ?i) = fsize ?V ?i"
      using f i I(1) by (auto simp: is_file_def inv_ino_def view_simps fsize_def)
    have a: "a_fd fd (abs_fs s) = Some (?i, ?off)" using fd by (simp add: a_fd_def abs_open_def)
    have c: "abs_files ?V ?i = Some (content ?V ?i (fsize ?V ?i))" using f by (simp add: abs_files_def)
    define n where "n = (if inode_size (disk s) ?i - f_offset ?f < count then inode_size (disk s) ?i - f_offset ?f else count)"
    have av: "unat (inode_size (disk s) ?i - f_offset ?f) = fsize ?V ?i - ?off"
      using le u(3) by (simp add: unat_sub word_le_nat_alt)
    have n: "unat n = min (unat count) (fsize ?V ?i - ?off)"
      using av by (auto simp: n_def word_less_nat_alt min_def)
    have sz: "fsize ?V ?i \<le> 32768" using inv_blkD(1) [OF I(2) f] .
    let ?s = "set_offset (nat fd) (f_offset ?f + n) s"
    let ?out = "\<lambda>p. if p < unat n then fbyte ?V ?i (?off + p) else out p"
    have "read_loop (nat fd) ?i n 0 out s = (n, ?out, ?s)"
    proof -
      have "?off + (unat n - unat (0 :: u32)) \<le> fsize ?V ?i" using n le by (simp only: unat_0) linarith
      then show ?thesis
        using read_loop_all [OF I(2) f, of 0 n "nat fd" out] by (simp cong: if_cong)
    qed
    moreover have "unat n \<le> 32768" using n sz by linarith
    then have sn: "sint n = int (unat n)" by (intro sint_of_count) simp
    ultimately have r: "fs_read fd buf count s = (int (unat n), Some ?out, ?s)"
      if "\<not> inode_size (disk s) ?i \<le> f_offset ?f"
      using that valid 2(2) u(1,2) sn by (simp add: fs_read_def Let_def flip: n_def)
    have r0: "fs_read fd buf count s = (int (unat n), Some ?out, ?s)"
      if l: "inode_size (disk s) ?i \<le> f_offset ?f"
    proof -
      have "n = 0" using l le u(3) n by (simp add: word_le_nat_alt unat_eq_zero [symmetric])
      then show ?thesis using l valid 2(2) u by (simp add: fs_read_def set_offset_same)
    qed
    have res: "fs_read fd buf count s = (int (unat n), Some ?out, ?s)"
      using r r0 by blast
    have bnd: "?off + unat n \<le> fsize ?V ?i" using n le by linarith
    have offn: "unat (f_offset ?f + n) = ?off + unat n"
      using bnd sz by (intro unat_add_small) linarith
    have "fs_ok ?s"
      using I inv_fds_upd [OF I(4), of "?f\<lparr>f_offset := f_offset ?f + n\<rparr>" "nat fd"] f bnd offn
      by (simp add: fs_ok_def) (simp add: set_offset_def)
    moreover have "take (unat count) (drop ?off (content ?V ?i (fsize ?V ?i)))
        = map (\<lambda>p. fbyte ?V ?i (?off + p)) [0..<unat n]"
      using n by (intro nth_equalityI) (auto simp: content_def min.commute)
    then have "a_read fd buf (unat count) (abs_fs s) = (int (unat n), Some (put_bytes out (map (\<lambda>p. fbyte ?V ?i (?off + p)) [0..<unat n])),
        (abs_fs s)\<lparr>a_open := (abs_open (fds s))(nat fd \<mapsto> (?i, ?off + unat n))\<rparr>)"
      using 2(2) by (simp add: a_read_def a c)
    moreover have "put_bytes out (map (\<lambda>p. fbyte ?V ?i (?off + p)) [0..<unat n]) = ?out"
      by (auto simp: put_bytes_def fun_eq_iff)
    moreover have "abs_open (fds ?s) = (abs_open (fds s))(nat fd \<mapsto> (?i, ?off + unat n))"
      using fd offn by (auto simp: abs_open_def set_offset_def fun_eq_iff)
    then have "abs_fs ?s = (abs_fs s)\<lparr>a_open := (abs_open (fds s))(nat fd \<mapsto> (?i, ?off + unat n))\<rparr>"
      by (simp add: abs_fs_def)
    ultimately show ?thesis using res by simp
  qed
qed

section \<open>One round of a write\<close>

text \<open>The view after block \<open>b\<close> has been given to slot \<open>k\<close> of inode \<open>i\<close>.\<close>

definition grow :: "nat \<Rightarrow> nat \<Rightarrow> nat \<Rightarrow> fs_view \<Rightarrow> fs_view" where
  "grow i k b V = V\<lparr>v_bbm := (v_bbm V)(b := True), v_data := fill (v_data V) (b * 4096) 0 4096,
     v_ino := (v_ino V)(i := (v_ino V i)\<lparr>i_blocks := (i_blocks (v_ino V i))[k := of_nat b]\<rparr>)\<rparr>"

text \<open>Everything but block pointers, the block bitmap and the data is the same.\<close>

definition same_meta :: "fs_view \<Rightarrow> fs_view \<Rightarrow> bool" where
  "same_meta V W \<longleftrightarrow> v_ibm W = v_ibm V \<and> v_dir W = v_dir V
     \<and> (\<forall>i. i_used (v_ino W i) = i_used (v_ino V i) \<and> i_type (v_ino W i) = i_type (v_ino V i)
          \<and> i_size (v_ino W i) = i_size (v_ino V i))"

lemma same_metaD:
  assumes "same_meta V W"
  shows "is_file W i = is_file V i" "fsize W i = fsize V i" "is_ent W j = is_ent V j"
    "ent_id W j = ent_id V j" "ent_name W j = ent_name V j" "inv_ino W = inv_ino V" "inv_dir W = inv_dir V"
    "inv_fds W F = inv_fds V F" "find_ent W n = find_ent V n" "abs_names W = abs_names V"
proof -
  have f: "is_file W i = is_file V i" "fsize W i = fsize V i" for i
    using assms by (simp_all add: same_meta_def is_file_def fsize_def)
  have e: "is_ent W = is_ent V" "ent_id W = ent_id V" "ent_name W = ent_name V"
    using assms by (simp_all add: same_meta_def is_ent_def ent_id_def ent_name_def fun_eq_iff)
  have n: "find_ent W n = find_ent V n" for n
    by (simp add: find_ent_def e)
  show "is_file W i = is_file V i" "fsize W i = fsize V i" "is_ent W j = is_ent V j"
    "ent_id W j = ent_id V j" "ent_name W j = ent_name V j" "find_ent W n = find_ent V n"
    by (simp_all add: f e n)
  show "abs_names W = abs_names V" by (simp add: abs_names_def n e)
  show "inv_dir W = inv_dir V" by (simp add: inv_dir_def f e)
  show "inv_fds W F = inv_fds V F" by (simp add: inv_fds_def f)
  show "inv_ino W = inv_ino V" using assms by (simp add: inv_ino_def f) (simp add: same_meta_def)
qed

lemma same_meta_refl [simp]: "same_meta V V"
  by (simp add: same_meta_def)

lemma same_meta_trans: "same_meta U V \<Longrightarrow> same_meta V W \<Longrightarrow> same_meta U W"
  by (simp add: same_meta_def)

lemma same_meta_grow: "same_meta V (grow i k b V)"
  by (simp add: same_meta_def grow_def)

lemma same_meta_data: "same_meta V (V\<lparr>v_data := d\<rparr>)"
  by (simp add: same_meta_def)

lemma grow_blk:
  assumes "b < 256" "k < length (i_blocks (v_ino V i))"
  shows "blk (grow i k b V) x l = (if x = i \<and> l = k then b else blk V x l)"
  using assms by (auto simp: blk_def grow_def nth_list_update unsigned_of_nat take_bit_nat_eq_self)

text \<open>Either the slot already has a block and nothing changes, or a clear block of the bitmap is
  marked, zeroed and entered, or the disk is full.\<close>

lemma write_block_has:
  "inode_block m i k \<noteq> 0 \<Longrightarrow> write_block i k m = Some m"
  by (simp add: write_block_def)

lemma write_block_grow:
  assumes "i < 64" "k < 8" "inode_block m i k = 0" "for_find (\<lambda>b. \<not> v_bbm (view m) b) 5 256 = Some b"
  shows "\<exists>m'. write_block i k m = Some m' \<and> view m' = grow i k b (view m) \<and> Suc (blocks_free m') = blocks_free m"
proof -
  obtain m1 where m1: "alloc_block m = (int b, m1)" "Suc (blocks_free m1) = blocks_free m"
    "view m1 = (view m)\<lparr>v_bbm := (v_bbm (view m))(b := True), v_data := fill (v_data (view m)) (b * 4096) 0 4096\<rparr>"
    using alloc_block_Some [OF assms(4)] by blast
  let ?m = "set_inode_block m1 i k (of_nat b)"
  have v: "view ?m = grow i k b (view m)"
    using assms by (simp add: view_simps) (simp add: m1(3) grow_def)
  have "blocks_free ?m = blocks_free m1"
    by (simp add: blocks_free_view v m1(3)) (simp add: grow_def)
  with v m1 assms(3) show ?thesis by (simp add: write_block_def)
qed

lemma write_block_full:
  assumes "inode_block m i k = 0" "for_find (\<lambda>b. \<not> v_bbm (view m) b) 5 256 = None"
  shows "write_block i k m = None \<and> blocks_free m = 0"
  using assms alloc_block_None by (simp add: write_block_def)

lemma grow_inv_blk:
  assumes I: "inv_blk V sz" and f: "is_file V i" and len: "length (i_blocks (v_ino V i)) = 8"
    and k: "k < 8" "sz i \<le> k * 4096" "k * 4096 < n" "n \<le> (k + 1) * 4096" "k = 0 \<or> (k - 1) * 4096 < sz i"
    and b: "5 \<le> b" "b < 256" "\<not> v_bbm V b"
  shows "inv_blk (grow i k b V) (sz(i := n))"
proof (rule inv_blkI)
  note B = inv_blkD [OF I]
  have s: "blk (grow i k b V) x l = (if x = i \<and> l = k then b else blk V x l)" for x l
    using b k len by (intro grow_blk) simp_all
  have s2: "is_file (grow i k b V) x = is_file V x" for x using same_metaD(1) [OF same_meta_grow] .
  have new: "blk V x l \<noteq> b" if "is_file V x" "l < 8" for x l using B(5) [OF b(1,2)] b(3) that by blast
  have z: "blk V i k = 0" using B(2) [OF f k(1)] k(2) by simp
  show "(sz(i := n)) x \<le> 32768" if "is_file (grow i k b V) x" for x
    using that B(1) k by (auto simp: s2)
  show "blk (grow i k b V) x l \<noteq> 0 \<longleftrightarrow> l * 4096 < (sz(i := n)) x" if "is_file (grow i k b V) x" "l < 8" for x l
  proof (cases "x = i")
    case True
    have "l * 4096 < n \<longleftrightarrow> l * 4096 < sz i" if "l \<noteq> k"
    proof -
      from that have "l < k \<or> k < l" by (simp add: linorder_neq_iff)
      then show ?thesis
      proof
        assume "l < k"
        then have "l * 4096 \<le> (k - 1) * 4096" "0 < k" by simp_all
        then show ?thesis using k(3,5) \<open>l < k\<close> by linarith
      next
        assume "k < l"
        then have "(k + 1) * 4096 \<le> l * 4096" by simp
        then show ?thesis using k(2,4) \<open>k < l\<close> by linarith
      qed
    qed
    with True B(2) [OF f that(2)] k(3) b show ?thesis by (simp add: s)
  next
    case False
    with B(2) that show ?thesis by (simp add: s s2)
  qed
  show "5 \<le> blk (grow i k b V) x l \<and> blk (grow i k b V) x l < 256"
    if "is_file (grow i k b V) x" "l < 8" "blk (grow i k b V) x l \<noteq> 0" for x l
    using that B(3) b by (auto simp: s s2 split: if_splits)
  show "x = y \<and> l = l'" if "is_file (grow i k b V) x" "l < 8" "is_file (grow i k b V) y" "l' < 8"
    "blk (grow i k b V) x l = blk (grow i k b V) y l'" "blk (grow i k b V) x l \<noteq> 0" for x l y l'
    using that B(4) [of x l y l'] new by (auto simp: s s2 split: if_splits)
  show "v_bbm (grow i k b V) c \<longleftrightarrow> (\<exists>x l. is_file (grow i k b V) x \<and> l < 8 \<and> blk (grow i k b V) x l = c)"
    if c: "5 \<le> c" "c < 256" for c
  proof -
    have "v_bbm (grow i k b V) c \<longleftrightarrow> c = b \<or> v_bbm V c" by (simp add: grow_def)
    also have "\<dots> \<longleftrightarrow> c = b \<or> (\<exists>x l. is_file V x \<and> l < 8 \<and> blk V x l = c)" using B(5) [OF c] by simp
    also have "\<dots> \<longleftrightarrow> (\<exists>x l. is_file V x \<and> l < 8 \<and> (if x = i \<and> l = k then b else blk V x l) = c)"
      using f k(1) z c by (metis not_numeral_le_zero)
    finally show ?thesis by (simp add: s s2)
  qed
qed

lemma nblocks_eq: "k * 4096 < n \<Longrightarrow> n \<le> (k + 1) * 4096 \<Longrightarrow> nblocks n = k + 1"
  unfolding nblocks_def by (rule div_nat_eqI) simp_all

lemma nblocks_mult [simp]: "nblocks (k * 4096) = k"
  unfolding nblocks_def by (rule div_nat_eqI) simp_all

lemma block_end: "pos mod 4096 + n \<le> 4096 \<Longrightarrow> pos + n \<le> (pos div 4096 + 1) * (4096 :: nat)"
proof -
  assume "pos mod 4096 + n \<le> 4096"
  then have "pos div 4096 * 4096 + (pos mod 4096 + n) \<le> pos div 4096 * 4096 + 4096" by (rule add_left_mono)
  moreover have "pos div 4096 * 4096 + (pos mod 4096 + n) = pos + n"
    using div_mult_mod_eq [of pos 4096] by (simp only: add.assoc [symmetric])
  ultimately show ?thesis by (simp only: distrib_right mult_1)
qed

lemma sz_fixed:
  assumes "inv_blk V sz" "is_file V i" "pos < 32768" "blk V i (pos div 4096) = 0" "pos \<le> sz i"
  shows "pos = sz i" "pos = pos div 4096 * 4096"
proof -
  have "pos div 4096 < 8" using assms(3) by simp
  then have "sz i \<le> pos div 4096 * 4096" using inv_blkD(2) [OF assms(1,2)] assms(4) by fastforce
  moreover have "pos div 4096 * 4096 \<le> pos" by simp
  ultimately show "pos = sz i" "pos = pos div 4096 * 4096" using assms(5) by linarith+
qed

lemma write_block_step:
  fixes m :: memory
  defines "V \<equiv> view m"
  assumes I: "inv_blk V sz" and f: "is_file V i" and pos: "pos \<le> sz i" "pos < 32768"
    and n: "0 < n" "pos mod 4096 + n \<le> 4096" and wb: "write_block i (pos div 4096) m = Some m'"
  defines "sz' \<equiv> sz(i := max (sz i) (pos + n))"
  shows "same_meta V (view m') \<and> inv_blk (view m') sz' \<and> nblocks (sz' i) + blocks_free m' = nblocks (sz i) + blocks_free m
     \<and> (\<forall>x q. is_file V x \<and> q < sz x \<longrightarrow> fbyte (view m') x q = fbyte V x q)"
proof -
  note B = inv_blkD [OF I]
  let ?k = "pos div 4096"
  have k: "?k < 8" using pos by simp
  have i64: "i < 64" using f by (simp add: is_file_def)
  have dm: "pos = ?k * 4096 + pos mod 4096" by simp
  have le: "pos + n \<le> (?k + 1) * 4096" by (rule block_end [OF n(2)])
  show ?thesis
  proof (cases "inode_block m i ?k = 0")
    case False
    have "unat (inode_block m i ?k) = blk V i ?k" unfolding V_def using i64 k by (rule blk_view)
    then have nz: "blk V i ?k \<noteq> 0" using False by (metis unat_eq_zero)
    then have lt: "?k * 4096 < sz i" using B(2) [OF f k] by simp
    have m': "m' = m" using wb False by (simp add: write_block_has)
    have "nblocks (sz' i) = nblocks (sz i)"
      using nblocks_eq [of ?k "sz i"] nblocks_eq [of ?k "pos + n"] lt le n(1) dm
      by (cases "sz i \<le> pos + n") (simp_all add: sz'_def max_def)
    moreover have "inv_blk V sz'"
    proof (rule inv_blkI)
      show "sz' x \<le> 32768" if "is_file V x" for x using B(1) [OF that] le k by (auto simp: sz'_def)
      show "blk V x l \<noteq> 0 \<longleftrightarrow> l * 4096 < sz' x" if "is_file V x" "l < 8" for x l
      proof (cases "x = i \<and> sz i \<le> l * 4096")
        case True
        then have "?k * 4096 < l * 4096" using lt by linarith
        then have "(?k + 1) * 4096 \<le> l * 4096" by simp
        then have "sz' i \<le> l * 4096"
          using True le unfolding sz'_def fun_upd_same by (intro max.boundedI) linarith+
        moreover have "blk V x l = 0" using True B(2) [OF that] by simp
        ultimately show ?thesis using True by (simp add: not_less)
      next
        case False
        with B(2) [OF that] show ?thesis by (auto simp: sz'_def)
      qed
    qed (use B(3-5) in blast)+
    ultimately show ?thesis by (simp add: m' V_def)
  next
    case True
    have "unat (inode_block m i ?k) = blk V i ?k" unfolding V_def using i64 k by (rule blk_view)
    then have "blk V i ?k = 0" using True by simp
    note P = sz_fixed [OF I f pos(2) this pos(1)]
    obtain b where b: "for_find (\<lambda>b. \<not> v_bbm V b) 5 256 = Some b"
      using wb write_block_full [OF True] unfolding V_def by fastforce
    obtain m1 where "write_block i ?k m = Some m1" "view m1 = grow i ?k b V" "Suc (blocks_free m1) = blocks_free m"
      using write_block_grow [OF i64 k True b [unfolded V_def]] unfolding V_def by blast
    with wb have m': "view m' = grow i ?k b V" "Suc (blocks_free m') = blocks_free m" by simp_all
    have b': "5 \<le> b" "b < 256" "\<not> v_bbm V b" using for_find_SomeD [OF b] by simp_all
    have mx: "sz' = sz(i := pos + n)" using P(1) by (simp add: sz'_def)
    have pk: "?k = 0 \<or> (?k - 1) * 4096 < sz i" using P by (cases ?k) simp_all
    have "inv_blk (view m') sz'"
      unfolding m'(1) mx by (rule grow_inv_blk [OF I f _ k _ _ le pk b']) (use P n in \<open>simp_all add: V_def\<close>)
    moreover have "nblocks (sz i) = ?k"
      using P nblocks_mult [of ?k] by metis
    then have "nblocks (sz' i) = Suc (nblocks (sz i))"
      using nblocks_eq [of ?k "pos + n"] n(1) le dm by (simp add: mx)
    moreover have "fbyte (view m') x q = fbyte V x q" if x: "is_file V x" "q < sz x" for x q
    proof -
      note R = faddr_range [OF I x]
      have nb: "blk V x (q div 4096) \<noteq> b" using B(5) [OF b'(1,2)] b'(3) x(1) R(1) by blast
      have "\<not> (x = i \<and> q div 4096 = ?k)" using \<open>blk V i ?k = 0\<close> R(2) by auto
      then have "blk (view m') x (q div 4096) = blk V x (q div 4096)"
        using b' k unfolding m'(1) by (subst grow_blk) (auto simp: V_def)
      then have fa: "faddr (view m') x q = faddr V x q" by (simp add: faddr_def)
      have vd: "v_data (view m') = fill (v_data V) (b * 4096) 0 4096" by (simp add: m'(1) grow_def)
      have "q mod 4096 < 4096" by simp
      then have "faddr V x q < b * 4096 \<or> b * 4096 + 4096 \<le> faddr V x q"
        using nb unfolding faddr_def by linarith
      then show ?thesis
        by (auto simp: fbyte_def fa vd fill_at)
    qed
    ultimately show ?thesis
      using m' same_meta_grow by simp
  qed
qed

lemma copy_bytes:
  assumes I: "inv_blk V sz" and f: "is_file V i" and n: "pos + n \<le> sz i" "pos mod 4096 + n \<le> 4096"
    and x: "is_file V x" "q < sz x"
  shows "fbyte (V\<lparr>v_data := blit (v_data V) (faddr V i pos) src st n\<rparr>) x q
     = (if x = i \<and> pos \<le> q \<and> q < pos + n then src (st + (q - pos)) else fbyte V x q)"
proof -
  have fa: "faddr (V\<lparr>v_data := d\<rparr>) x q = faddr V x q" for d
    by (simp add: faddr_def blk_def)
  have hit: "faddr V x q = faddr V i pos + t \<longleftrightarrow> x = i \<and> q = pos + t" if "t < n" for t
  proof -
    have "faddr V i (pos + t) = faddr V i pos + t" using that n by (intro faddr_add) linarith
    moreover have "pos + t < sz i" using that n by linarith
    ultimately show ?thesis using faddr_inj [OF I x f, of "pos + t"] by auto
  qed
  show ?thesis
  proof (cases "x = i \<and> pos \<le> q \<and> q < pos + n")
    case True
    then have "faddr V x q = faddr V i pos + (q - pos)" using hit [of "q - pos"] by auto
    with True show ?thesis
      unfolding fbyte_def fa by (auto simp: blit_at)
  next
    case False
    have "\<not> (faddr V i pos \<le> faddr V x q \<and> faddr V x q < faddr V i pos + n)"
    proof
      assume a: "faddr V i pos \<le> faddr V x q \<and> faddr V x q < faddr V i pos + n"
      then obtain t where t: "faddr V x q = faddr V i pos + t" using le_Suc_ex by blast
      then have "t < n" using a by simp
      with hit [OF this] t False show False by simp
    qed
    with False show ?thesis
      unfolding fbyte_def fa by (auto simp: blit_at)
  qed
qed

section \<open>The write loop\<close>

text \<open>Memory \<open>m'\<close> is \<open>m\<close> after \<open>w\<close> bytes of \<open>src\<close>, from index \<open>st\<close> on, have been written to file \<open>i\<close> at
  offset \<open>pos\<close>.\<close>

definition wrote :: "nat \<Rightarrow> memory \<Rightarrow> nat \<Rightarrow> nat \<Rightarrow> nat \<Rightarrow> (nat \<Rightarrow> nat) \<Rightarrow> memory \<Rightarrow> memory \<Rightarrow> bool" where
  "wrote i src st pos w sz m m' \<longleftrightarrow>
     (let sz' = sz(i := max (sz i) (pos + w)) in
      same_meta (view m) (view m') \<and> inv_blk (view m') sz'
        \<and> nblocks (sz' i) + blocks_free m' = nblocks (sz i) + blocks_free m
        \<and> (\<forall>x q. is_file (view m) x \<and> q < sz' x \<longrightarrow>
             fbyte (view m') x q = (if x = i \<and> pos \<le> q \<and> q < pos + w then src (st + (q - pos)) else fbyte (view m) x q)))"

lemma wroteD:
  assumes "wrote i src st pos w sz m m'"
  shows "same_meta (view m) (view m')" "inv_blk (view m') (sz(i := max (sz i) (pos + w)))"
    "nblocks (max (sz i) (pos + w)) + blocks_free m' = nblocks (sz i) + blocks_free m"
    "is_file (view m) x \<Longrightarrow> q < (sz(i := max (sz i) (pos + w))) x \<Longrightarrow>
       fbyte (view m') x q = (if x = i \<and> pos \<le> q \<and> q < pos + w then src (st + (q - pos)) else fbyte (view m) x q)"
  using assms unfolding wrote_def Let_def by (simp_all only: fun_upd_same)

lemma wrote_0: "inv_blk (view m) sz \<Longrightarrow> pos \<le> sz i \<Longrightarrow> wrote i src st pos 0 sz m m"
  by (auto simp: wrote_def max_absorb1)

lemma wrote_trans:
  assumes a: "wrote i src st pos w sz m m1"
    and b: "wrote i src (st + w) (pos + w) w' (sz(i := max (sz i) (pos + w))) m1 m2"
  shows "wrote i src st pos (w + w') sz m m2"
proof -
  let ?sz1 = "sz(i := max (sz i) (pos + w))"
  note A = wroteD [OF a] and B = wroteD [OF b]
  have mx: "max (max (sz i) (pos + w)) (pos + w + w') = max (sz i) (pos + (w + w'))" by (simp add: max_def)
  have sz2: "?sz1(i := max (?sz1 i) (pos + w + w')) = sz(i := max (sz i) (pos + (w + w')))"
    by (simp add: mx)
  have "fbyte (view m2) x q = (if x = i \<and> pos \<le> q \<and> q < pos + (w + w') then src (st + (q - pos)) else fbyte (view m) x q)"
    if x: "is_file (view m) x" and q: "q < (sz(i := max (sz i) (pos + (w + w')))) x" for x q
  proof -
    have x1: "is_file (view m1) x" using x same_metaD(1) [OF A(1)] by simp
    have e2: "fbyte (view m2) x q = (if x = i \<and> pos + w \<le> q \<and> q < pos + w + w' then src (st + w + (q - (pos + w))) else fbyte (view m1) x q)"
      by (rule B(4) [OF x1]) (use q in \<open>simp only: sz2\<close>)
    show ?thesis
    proof (cases "x = i \<and> pos + w \<le> q \<and> q < pos + w + w'")
      case True
      with e2 show ?thesis by simp
    next
      case False
      then have "q < ?sz1 x" using q by (auto simp: max_def split: if_splits)
      with A(4) [OF x this] e2 False show ?thesis by auto
    qed
  qed
  moreover have "inv_blk (view m2) (sz(i := max (sz i) (pos + (w + w'))))"
    using B(2) unfolding sz2 .
  moreover have "nblocks (max (sz i) (pos + (w + w'))) + blocks_free m2 = nblocks (sz i) + blocks_free m"
    using A(3) B(3) by (simp add: mx)
  ultimately show ?thesis
    using same_meta_trans [OF A(1) B(1)] by (simp add: wrote_def)
qed

lemma in_block: "b < 256 \<Longrightarrow> r + n \<le> 4096 \<Longrightarrow> b * 4096 + r + n \<le> (1048576 :: nat)"
  by linarith

lemma write_round:
  assumes I: "inv_blk (view m) sz" and f: "is_file (view m) i" and pos: "unat p \<le> sz i" "unat p < 32768"
    and n: "0 < n" "unat p mod 4096 + n \<le> 4096" and wb: "write_block i (unat p div 4096) m = Some m1"
  shows "wrote i src st (unat p) n sz m
    (k_memcpy m1 (unat (inode_block m1 i (unat p div 4096) * 4096 + p mod 4096)) src st n)"
proof -
  let ?sz = "sz(i := max (sz i) (unat p + n))" let ?V1 = "view m1"
  have S: "same_meta (view m) ?V1" and I1: "inv_blk ?V1 ?sz"
    and fr: "nblocks (?sz i) + blocks_free m1 = nblocks (sz i) + blocks_free m"
    and old: "\<And>x q. is_file (view m) x \<Longrightarrow> q < sz x \<Longrightarrow> fbyte ?V1 x q = fbyte (view m) x q"
    using write_block_step [OF I f pos n wb] by blast+
  have f1: "is_file ?V1 i" using f same_metaD(1) [OF S] by simp
  have pn: "unat p + n \<le> ?sz i" "unat p < ?sz i" using n by simp_all
  note R = faddr_range [OF I1 f1 pn(2)]
  have i64: "i < 64" using f by (simp add: is_file_def)
  have "unat (inode_block m1 i (unat p div 4096)) = blk ?V1 i (unat p div 4096)"
    using i64 R(1) by (rule blk_view)
  then have ad: "unat (inode_block m1 i (unat p div 4096) * 4096 + p mod 4096) = faddr ?V1 i (unat p)"
    using R(4) by (simp add: block_addr faddr_def)
  let ?m2 = "k_memcpy m1 (faddr ?V1 i (unat p)) src st n"
  have "faddr ?V1 i (unat p) + n \<le> 1048576"
    unfolding faddr_def by (rule in_block [OF R(4) n(2)])
  then have v2: "view ?m2 = ?V1\<lparr>v_data := blit (v_data ?V1) (faddr ?V1 i (unat p)) src st n\<rparr>"
    using R(5) by (simp add: view_data_copy)
  have "blocks_free ?m2 = blocks_free m1" by (simp add: blocks_free_view v2)
  moreover have "inv_blk (view ?m2) ?sz"
    using I1 unfolding v2 by (subst inv_blk_cong [where V = ?V1 and sz = ?sz]) (simp_all add: is_file_def blk_def)
  moreover have "same_meta (view m) (view ?m2)"
    unfolding v2 by (rule same_meta_trans [OF S same_meta_data])
  moreover have "fbyte (view ?m2) x q = (if x = i \<and> unat p \<le> q \<and> q < unat p + n then src (st + (q - unat p)) else fbyte (view m) x q)"
    if x: "is_file (view m) x" "q < ?sz x" for x q
  proof -
    have x1: "is_file ?V1 x" using x same_metaD(1) [OF S] by simp
    have "q < sz x \<or> x = i \<and> unat p \<le> q \<and> q < unat p + n"
      using x(2) pos(1) by (auto simp: max_def split: if_splits)
    with old [OF x(1), of q] copy_bytes [OF I1 f1 pn(1) n(2) x1 x(2)] show ?thesis
      unfolding v2 by auto
  qed
  ultimately show ?thesis using fr unfolding ad wrote_def Let_def by simp
qed

text \<open>When no block is left, the offset is at the end of the last block of the file.\<close>

lemma write_full:
  assumes I: "inv_blk (view m) sz" and f: "is_file (view m) i" and pos: "pos \<le> sz i" "pos < 32768"
    and wb: "write_block i (pos div 4096) m = None"
  shows "blocks_free m = 0 \<and> pos = nblocks (sz i) * 4096"
proof -
  have i64: "i < 64" using f by (simp add: is_file_def)
  have k: "pos div 4096 < 8" using pos(2) by simp
  have z: "inode_block m i (pos div 4096) = 0" using wb write_block_has by fastforce
  then have "blk (view m) i (pos div 4096) = 0"
    using blk_view [OF i64 k, of m] by simp
  note P = sz_fixed [OF I f pos(2) this pos(1)]
  have "for_find (\<lambda>b. \<not> v_bbm (view m) b) 5 256 = None"
    using wb write_block_grow [OF i64 k z] by fastforce
  then have "blocks_free m = 0" using write_block_full [OF z] by simp
  moreover have "nblocks (sz i) = pos div 4096" using P nblocks_mult by metis
  ultimately show ?thesis using P by simp
qed

lemma nblocks_ge: "n \<le> nblocks n * 4096"
proof -
  have "n + 4095 = nblocks n * 4096 + (n + 4095) mod 4096" by (simp add: nblocks_def)
  moreover have "(n + 4095) mod 4096 < 4096" by simp
  ultimately show ?thesis by linarith
qed

lemma set_offset_disk:
  "set_offset fd a ((set_offset fd b s)\<lparr>disk := m\<rparr>) = set_offset fd a (s\<lparr>disk := m\<rparr>)"
  "set_offset fd (f_offset (fds s fd)) (s\<lparr>disk := disk s\<rparr>) = s"
  by (simp_all add: set_offset_def)

lemma write_loop_step:
  assumes "done < count" "unat (f_offset (fds s fd)) < 32768"
    and "write_block ino (unat (f_offset (fds s fd)) div 4096) (disk s) = Some m1"
  shows "write_loop fd ino count src done s =
    (let p = f_offset (fds s fd); n = chunk p count done;
         m2 = k_memcpy m1 (unat (inode_block m1 ino (unat p div 4096) * 4096 + p mod 4096)) src (unat done) (unat n)
     in write_loop fd ino count src (done + n) (set_offset fd (p + n) (s\<lparr>disk := m2\<rparr>)))"
proof -
  have "unat (f_offset (fds s fd)) div 4096 < 8" using assms(2) by simp
  with assms(1,3) show ?thesis
    by (subst write_loop.simps) (simp add: unat_div Let_def not_le)
qed

lemma write_loop_spec:
  assumes "inv_blk (view (disk s)) sz" "is_file (view (disk s)) ino" "unat (f_offset (fds s fd)) \<le> sz ino"
    and "done \<le> count" "unat (f_offset (fds s fd)) + (unat count - unat done) \<le> 32768"
  defines "w \<equiv> min (unat count - unat done)
      ((nblocks (sz ino) + blocks_free (disk s)) * 4096 - unat (f_offset (fds s fd)))"
  shows "\<exists>m off d. write_loop fd ino count src done s = (d, set_offset fd off (s\<lparr>disk := m\<rparr>))
    \<and> unat d = unat done + w \<and> unat off = unat (f_offset (fds s fd)) + w
    \<and> wrote ino src (unat done) (unat (f_offset (fds s fd))) w sz (disk s) m"
  using assms(1-5) unfolding w_def
proof (induction "unat count - unat done" arbitrary: "done" s sz rule: less_induct)
  case (less d s sz)
  let ?p = "f_offset (fds s fd)" let ?m = "disk s" let ?n = "chunk ?p count d"
  note I = less.prems(1) and f = less.prems(2) and ple = less.prems(3)
  let ?w = "min (unat count - unat d) ((nblocks (sz ino) + blocks_free ?m) * 4096 - unat ?p)"
  have stop: ?case if "write_loop fd ino count src d s = (d, s)" "?w = 0"
  proof (intro exI conjI)
    show "write_loop fd ino count src d s = (d, set_offset fd ?p (s\<lparr>disk := disk s\<rparr>))"
      using that(1) by (simp only: set_offset_disk)
    show "wrote ino src (unat d) (unat ?p) ?w sz (disk s) (disk s)"
      unfolding that(2) by (rule wrote_0 [OF I ple])
  qed (simp_all only: that(2) add_0_right)
  show ?case
  proof (cases "d < count")
    case False
    with less.prems(4) have "d = count" by simp
    then show ?thesis by (intro stop) (subst write_loop.simps, simp_all)
  next
    case True
    have lt: "unat d < unat count" using True by (simp add: word_less_nat_alt)
    then have p: "unat ?p < 32768" using less.prems(5) by linarith
    note C = chunk_advance [OF True, of ?p] unat_chunk [OF True, of ?p]
    show ?thesis
    proof (cases "write_block ino (unat ?p div 4096) ?m")
      case None
      then have "blocks_free ?m = 0 \<and> unat ?p = nblocks (sz ino) * 4096"
        by (rule write_full [OF I f ple p])
      moreover have "write_loop fd ino count src d s = (d, s)"
        using True None by (subst write_loop.simps) (simp add: unat_div Let_def)
      ultimately show ?thesis by (intro stop) simp_all
    next
      case (Some m1)
      define m2 where "m2 = k_memcpy m1 (unat (inode_block m1 ino (unat ?p div 4096) * 4096 + ?p mod 4096)) src (unat d) (unat ?n)"
      define s2 where "s2 = set_offset fd (?p + ?n) (s\<lparr>disk := m2\<rparr>)"
      define sz2 where "sz2 = sz(ino := max (sz ino) (unat ?p + unat ?n))"
      have step: "write_loop fd ino count src d s = write_loop fd ino count src (d + ?n) s2"
        using write_loop_step [OF True p Some] by (simp add: Let_def s2_def m2_def)
      have n2: "unat ?p mod 4096 + unat ?n \<le> 4096" using C(4) by simp
      have W: "wrote ino src (unat d) (unat ?p) (unat ?n) sz ?m m2"
        unfolding m2_def by (rule write_round [OF I f ple p C(1) n2 Some])
      note WD = wroteD [OF W, folded sz2_def]
      have nle: "unat ?n \<le> unat count - unat d" using C(3) lt by linarith
      have pn: "unat (?p + ?n) = unat ?p + unat ?n"
        using nle less.prems(5) by (intro unat_add_small) linarith
      have s2: "disk s2 = m2" "f_offset (fds s2 fd) = ?p + ?n" by (simp_all add: s2_def set_offset_def)
      have cap: "nblocks (sz2 ino) + blocks_free m2 = nblocks (sz ino) + blocks_free ?m"
        using WD(3) by (simp add: sz2_def)
      have "\<exists>m off d'. write_loop fd ino count src (d + ?n) s2 = (d', set_offset fd off (s2\<lparr>disk := m\<rparr>))
          \<and> unat d' = unat (d + ?n) + min (unat count - unat (d + ?n)) ((nblocks (sz2 ino) + blocks_free m2) * 4096 - unat (?p + ?n))
          \<and> unat off = unat (?p + ?n) + min (unat count - unat (d + ?n)) ((nblocks (sz2 ino) + blocks_free m2) * 4096 - unat (?p + ?n))
          \<and> wrote ino src (unat (d + ?n)) (unat (?p + ?n)) (min (unat count - unat (d + ?n)) ((nblocks (sz2 ino) + blocks_free m2) * 4096 - unat (?p + ?n))) sz2 m2 m"
      proof (rule less.hyps [of "d + ?n" s2 sz2, unfolded s2])
        show "unat count - unat (d + ?n) < unat count - unat d" using C(1,2) lt by linarith
        show "inv_blk (view m2) sz2" using WD(2) .
        show "is_file (view m2) ino" using f same_metaD(1) [OF WD(1)] by simp
        show "unat (?p + ?n) \<le> sz2 ino" by (simp add: sz2_def pn)
        show "d + ?n \<le> count" using C(2,3) by (simp add: word_le_nat_alt)
        show "unat (?p + ?n) + (unat count - unat (d + ?n)) \<le> 32768"
          unfolding pn C(2) using less.prems(5) C(3) by linarith
      qed
      then obtain m off d' where R: "write_loop fd ino count src (d + ?n) s2 = (d', set_offset fd off (s2\<lparr>disk := m\<rparr>))"
        "unat d' = unat d + unat ?n + min (unat count - (unat d + unat ?n)) ((nblocks (sz ino) + blocks_free ?m) * 4096 - (unat ?p + unat ?n))"
        "unat off = unat ?p + unat ?n + min (unat count - (unat d + unat ?n)) ((nblocks (sz ino) + blocks_free ?m) * 4096 - (unat ?p + unat ?n))"
        "wrote ino src (unat d + unat ?n) (unat ?p + unat ?n) (min (unat count - (unat d + unat ?n)) ((nblocks (sz ino) + blocks_free ?m) * 4096 - (unat ?p + unat ?n))) sz2 m2 m"
        unfolding pn C(2) cap by blast
      have "unat ?p + unat ?n \<le> nblocks (sz2 ino) * 4096"
        by (rule order_trans [OF _ nblocks_ge]) (simp add: sz2_def)
      then have "unat ?p + unat ?n \<le> (nblocks (sz ino) + blocks_free ?m) * 4096"
        using cap by (metis add_leE distrib_right le_add1 order_trans)
      then have w: "unat ?n + min (unat count - (unat d + unat ?n)) ((nblocks (sz ino) + blocks_free ?m) * 4096 - (unat ?p + unat ?n)) = ?w"
        using nle by linarith
      have "wrote ino src (unat d) (unat ?p) ?w sz ?m m"
        using wrote_trans [OF W] R(4) unfolding sz2_def w [symmetric] by blast
      moreover have "write_loop fd ino count src d s = (d', set_offset fd off (s\<lparr>disk := m\<rparr>))"
        by (simp only: step R(1)) (simp add: s2_def set_offset_def)
      ultimately show ?thesis
        using R(2,3) w by (intro exI conjI) (assumption | simp)+
    qed
  qed
qed

section \<open>The write operation\<close>

definition resize :: "nat \<Rightarrow> u32 \<Rightarrow> fs_view \<Rightarrow> fs_view" where
  "resize i z V = V\<lparr>v_ino := (v_ino V)(i := (v_ino V i)\<lparr>i_size := z\<rparr>)\<rparr>"

lemma resize_simps:
  "is_file (resize i z V) x = is_file V x" "fsize (resize i z V) = (fsize V)(i := unat z)"
  "blk (resize i z V) x k = blk V x k" "fbyte (resize i z V) x q = fbyte V x q"
  "inv_ino (resize i z V) = inv_ino V" "inv_dir (resize i z V) = inv_dir V" "abs_names (resize i z V) = abs_names V"
  "v_bbm (resize i z V) = v_bbm V"
proof -
  have f: "is_file (resize i z V) x = is_file V x" for x by (simp add: is_file_def resize_def)
  have b: "blk (resize i z V) x k = blk V x k" for x k by (simp add: blk_def resize_def)
  have e: "is_ent (resize i z V) = is_ent V" "ent_id (resize i z V) = ent_id V" "ent_name (resize i z V) = ent_name V"
    by (simp_all add: is_ent_def ent_id_def ent_name_def resize_def fun_eq_iff)
  show "is_file (resize i z V) x = is_file V x" "blk (resize i z V) x k = blk V x k" by (simp_all add: f b)
  show "fsize (resize i z V) = (fsize V)(i := unat z)" by (auto simp: fsize_def resize_def fun_eq_iff)
  show "fbyte (resize i z V) x q = fbyte V x q" by (simp add: fbyte_def faddr_def b) (simp add: resize_def)
  show "inv_dir (resize i z V) = inv_dir V" by (simp add: inv_dir_def f e)
  have "i_used (v_ino (resize i z V) x) = i_used (v_ino V x)" "i_type (v_ino (resize i z V) x) = i_type (v_ino V x)"
    "v_ibm (resize i z V) = v_ibm V" for x by (simp_all add: resize_def)
  then show "inv_ino (resize i z V) = inv_ino V" by (simp add: inv_ino_def f)
  show "abs_names (resize i z V) = abs_names V" by (simp add: abs_names_def find_ent_def e)
  show "v_bbm (resize i z V) = v_bbm V" by (simp add: resize_def)
qed

text \<open>The last step of \<^verbatim>\<open>fs_write\<close>: the size in the inode catches up with the offset.\<close>

lemma update_size:
  assumes "i < 64" "\<And>x. fsize (view m) x = sz x" "unat off = sz i + d \<or> unat off \<le> sz i"
  defines "m' \<equiv> (if inode_size m i < off then set_inode_size m i off else m)"
  shows "fsize (view m') = sz(i := max (sz i) (unat off))" "is_file (view m') x = is_file (view m) x"
    "blk (view m') x k = blk (view m) x k" "fbyte (view m') x q = fbyte (view m) x q"
    "inv_ino (view m') = inv_ino (view m)" "inv_dir (view m') = inv_dir (view m)"
    "abs_names (view m') = abs_names (view m)" "v_bbm (view m') = v_bbm (view m)"
proof -
  have v: "view (set_inode_size m i off) = resize i off (view m)"
    using assms(1) by (simp add: view_simps resize_def)
  have c: "inode_size m i < off \<longleftrightarrow> sz i < unat off"
    using assms(1) assms(2) [of i] by (simp add: view_simps fsize_def word_less_nat_alt)
  have sz: "fsize (view m) = sz" using assms(2) by (simp add: fun_eq_iff)
  show "fsize (view m') = sz(i := max (sz i) (unat off))"
    using c by (auto simp: m'_def v resize_simps sz max_def)
  show "is_file (view m') x = is_file (view m) x" "blk (view m') x k = blk (view m) x k"
    "fbyte (view m') x q = fbyte (view m) x q" "inv_ino (view m') = inv_ino (view m)"
    "inv_dir (view m') = inv_dir (view m)" "abs_names (view m') = abs_names (view m)"
    "v_bbm (view m') = v_bbm (view m)"
    by (simp_all add: m'_def v resize_simps)
qed

lemma splice_content:
  assumes b: "\<And>q. q < max n (pos + w) \<Longrightarrow> fbyte W i q = (if pos \<le> q \<and> q < pos + w then src (q - pos) else fbyte V i q)"
    and le: "pos \<le> n"
  shows "content W i (max n (pos + w)) = take pos (content V i n) @ map src [0..<w] @ drop (pos + w) (content V i n)"
proof (rule nth_equalityI)
  have len: "length (take pos (content V i n) @ map src [0..<w] @ drop (pos + w) (content V i n)) = max n (pos + w)"
    using le by (simp add: content_def)
  then show "length (content W i (max n (pos + w))) = length (take pos (content V i n) @ map src [0..<w] @ drop (pos + w) (content V i n))"
    by (simp add: content_def)
  fix q assume "q < length (content W i (max n (pos + w)))"
  then have q: "q < max n (pos + w)" by (simp add: content_def)
  consider "q < pos" | "pos \<le> q" "q < pos + w" | "pos + w \<le> q" "q < n" using q by linarith
  then show "content W i (max n (pos + w)) ! q = (take pos (content V i n) @ map src [0..<w] @ drop (pos + w) (content V i n)) ! q"
    using le b [OF q] q by cases (auto simp: content_def nth_append)
qed

lemma fs_write_step:
  assumes ok: "fs_ok s" and fd: "0 \<le> fd" "nat fd < 32" "f_used (fds s (nat fd)) \<noteq> 0"
  fixes V i pos count w
  defines "V \<equiv> view (disk s)" and "i \<equiv> unat (f_inode (fds s (nat fd)))"
    and "pos \<equiv> unat (f_offset (fds s (nat fd)))"
  defines "w \<equiv> min (unat count) (min (32768 - pos) ((nblocks (fsize V i) + blocks_free (disk s)) * 4096 - pos))"
  shows "\<exists>m off. fs_write fd (Some src) count s = (int w, set_offset (nat fd) off (s\<lparr>disk := m\<rparr>))
     \<and> unat off = pos + w \<and> fsize (view m) = (fsize V)(i := max (fsize V i) (pos + w))
     \<and> (\<forall>x. is_file (view m) x = is_file V x) \<and> inv_ino (view m) \<and> inv_dir (view m)
     \<and> inv_blk (view m) (fsize (view m)) \<and> abs_names (view m) = abs_names V
     \<and> nblocks (fsize (view m) i) + blocks_free m = nblocks (fsize V i) + blocks_free (disk s)
     \<and> (\<forall>x q. is_file V x \<and> q < fsize (view m) x \<longrightarrow>
          fbyte (view m) x q = (if x = i \<and> pos \<le> q \<and> q < pos + w then src (q - pos) else fbyte V x q))"
proof -
  let ?f = "fds s (nat fd)"
  note I = fs_okD [OF ok, folded V_def]
  have f: "is_file V i" and le: "pos \<le> fsize V i"
    using I(4) fd by (auto simp: inv_fds_def V_def i_def pos_def)
  then have i: "1 \<le> i" "i < 64" by (simp_all add: is_file_def)
  have u: "inode_used (disk s) i \<noteq> 0" "inode_type (disk s) i = 1"
    using f i I(1) by (auto simp: V_def is_file_def inv_ino_def view_simps)
  have sz: "fsize V i \<le> 32768" using inv_blkD(1) [OF I(2) f] .
  define c where "c = (if 32768 - f_offset ?f < count then 32768 - f_offset ?f else count)"
  have av: "unat (32768 - f_offset ?f) = 32768 - pos"
    using le sz by (simp add: unat_sub word_le_nat_alt pos_def)
  have c: "unat c = min (unat count) (32768 - pos)"
    using av by (auto simp: c_def word_less_nat_alt min_def)
  have "pos + (unat c - unat (0 :: u32)) \<le> 32768" using c le sz by simp
  then obtain m off d where L: "write_loop (nat fd) i c src 0 s = (d, set_offset (nat fd) off (s\<lparr>disk := m\<rparr>))"
    "unat d = w" "unat off = pos + w" "wrote i src 0 pos w (fsize V) (disk s) m"
    using write_loop_spec [of s "fsize V" i "nat fd" 0 c src] I(2) f le c
    unfolding V_def [symmetric] pos_def [symmetric] w_def by (auto simp: min.assoc)
  note W = wroteD [OF L(4), folded V_def]
  define m' where "m' = (if inode_size m i < off then set_inode_size m i off else m)"
  have fm: "fsize (view m) x = fsize V x" for x using same_metaD(2) [OF W(1)] .
  have "unat off = fsize V i + (unat off - fsize V i) \<or> unat off \<le> fsize V i" by linarith
  note U = update_size [OF i(2) fm this, folded m'_def, unfolded L(3)]
  have w: "w \<le> 32768" unfolding w_def by simp
  have sd: "sint d = int w" using L(2) w by (subst sint_of_count) simp_all
  have "\<not> 32768 < f_offset ?f" using le sz by (simp add: word_less_nat_alt pos_def)
  then have "fs_write fd (Some src) count s = (int w, set_offset (nat fd) off (s\<lparr>disk := m'\<rparr>))"
    using fd u L(1) sd unfolding fs_write_def fd_invalid_def Let_def
    by (simp add: i_def [symmetric] c_def [symmetric] m'_def) (simp add: set_offset_def)
  moreover have "inv_blk (view m') (fsize (view m'))"
    unfolding U(1) using W(2) by (subst inv_blk_cong [where V = "view m"]) (simp_all add: U)
  moreover have "blocks_free m' = blocks_free m" by (simp add: blocks_free_view U)
  ultimately show ?thesis
    using L(3) W(3,4) I(1,3) same_metaD(1,6,7,10) [OF W(1)] U
    by (intro exI [of _ m'] exI [of _ off]) simp
qed

lemma fs_write_sim:
  assumes ok: "fs_ok s"
  shows "fs_ok (snd (fs_write fd buf count s))
    \<and> a_write fd buf (unat count) (abs_fs s) = (fst (fs_write fd buf count s), abs_fs (snd (fs_write fd buf count s)))"
proof -
  let ?V = "view (disk s)" let ?f = "fds s (nat fd)"
  let ?i = "unat (f_inode ?f)" let ?pos = "unat (f_offset ?f)"
  note I = fs_okD [OF ok]
  consider "a_fd fd (abs_fs s) = None \<or> buf = None"
    | src where "a_fd fd (abs_fs s) \<noteq> None" "buf = Some src" by blast
  then show ?thesis
  proof cases
    case 1
    then have "fs_write fd buf count s = (-1, s)"
      by (auto simp: fs_write_def fd_invalid_abs split: option.splits)
    moreover have "a_write fd buf (unat count) (abs_fs s) = (-1, abs_fs s)"
      using 1 by (auto simp: a_write_def split: option.splits)
    ultimately show ?thesis using ok by simp
  next
    case (2 src)
    then have "\<not> fd_invalid fd s" by (simp add: fd_invalid_abs)
    then have fd: "0 \<le> fd" "nat fd < 32" "f_used ?f \<noteq> 0" by (auto simp: fd_invalid_def)
    then have f: "is_file ?V ?i" and le: "?pos \<le> fsize ?V ?i"
      using I(4) by (auto simp: inv_fds_def)
    define w where "w = min (unat count) (min (32768 - ?pos) ((nblocks (fsize ?V ?i) + blocks_free (disk s)) * 4096 - ?pos))"
    obtain m off where R: "fs_write fd (Some src) count s = (int w, set_offset (nat fd) off (s\<lparr>disk := m\<rparr>))"
      and off: "unat off = ?pos + w" and sz: "fsize (view m) = (fsize ?V)(?i := max (fsize ?V ?i) (?pos + w))"
      and is_f: "\<And>x. is_file (view m) x = is_file ?V x"
      and inv: "inv_ino (view m)" "inv_dir (view m)" "inv_blk (view m) (fsize (view m))"
      and nm: "abs_names (view m) = abs_names ?V"
      and fr: "nblocks (fsize (view m) ?i) + blocks_free m = nblocks (fsize ?V ?i) + blocks_free (disk s)"
      and b: "\<And>x q. is_file ?V x \<Longrightarrow> q < fsize (view m) x \<Longrightarrow>
          fbyte (view m) x q = (if x = ?i \<and> ?pos \<le> q \<and> q < ?pos + w then src (q - ?pos) else fbyte ?V x q)"
      using fs_write_step [OF ok fd, of src count] unfolding w_def by blast
    let ?s = "set_offset (nat fd) off (s\<lparr>disk := m\<rparr>)"
    have fds': "inv_fds (view m) (fds s)"
      using I(4) unfolding inv_fds_def by (auto simp: is_f sz max_def)
    have "inv_fds (view m) ((fds s)(nat fd := ?f\<lparr>f_offset := off\<rparr>))"
      by (rule inv_fds_upd [OF fds']) (use f off in \<open>simp add: is_f sz\<close>)
    then have "fs_ok ?s" using inv by (simp add: fs_ok_def) (simp add: set_offset_def)
    moreover have c: "abs_files ?V ?i = Some (content ?V ?i (fsize ?V ?i))" using f by (simp add: abs_files_def)
    have a: "a_fd fd (abs_fs s) = Some (?i, ?pos)" using fd by (simp add: a_fd_def abs_open_def)
    let ?c = "content ?V ?i (fsize ?V ?i)"
    let ?c' = "take ?pos ?c @ map src [0..<w] @ drop (?pos + w) ?c"
    have ci: "content (view m) ?i (max (fsize ?V ?i) (?pos + w)) = ?c'"
      by (rule splice_content [OF _ le]) (use b [OF f] in \<open>simp add: sz\<close>)
    have fl: "abs_files (view m) = (abs_files ?V)(?i \<mapsto> ?c')"
    proof
      fix x
      show "abs_files (view m) x = ((abs_files ?V)(?i \<mapsto> ?c')) x"
        using f ci b [of x] by (auto simp: abs_files_def is_f sz content_def)
    qed
    have lenc: "length ?c = fsize ?V ?i" "length ?c' = fsize (view m) ?i"
      using le by (simp_all add: content_def sz)
    have "nblocks (fsize ?V ?i) \<le> nblocks (fsize (view m) ?i)"
      unfolding nblocks_def sz by (intro div_le_mono) simp
    then have fr': "blocks_free m = blocks_free (disk s) - (nblocks (length ?c') - nblocks (length ?c))"
      using fr unfolding lenc by simp
    have op: "abs_open (fds ?s) = (abs_open (fds s))(nat fd \<mapsto> (?i, ?pos + w))"
      using fd off by (auto simp: abs_open_def set_offset_def fun_eq_iff)
    have "abs_fs ?s = (abs_fs s)\<lparr>a_files := (abs_files ?V)(?i \<mapsto> ?c'), a_open := (abs_open (fds s))(nat fd \<mapsto> (?i, ?pos + w)),
        a_free := blocks_free (disk s) - (nblocks (length ?c') - nblocks (length ?c))\<rparr>"
      unfolding abs_fs_def op by (simp add: nm fl fr')
    moreover have "a_write fd buf (unat count) (abs_fs s) = (int w, (abs_fs s)\<lparr>a_files := (abs_files ?V)(?i \<mapsto> ?c'),
        a_open := (abs_open (fds s))(nat fd \<mapsto> (?i, ?pos + w)),
        a_free := blocks_free (disk s) - (nblocks (length ?c') - nblocks (length ?c))\<rparr>)"
      using 2(2) unfolding a_write_def a by (simp only: option.case prod.case Let_def abs_fs_simps c option.sel lenc(1) w_def)
    ultimately show ?thesis using 2(2) R by simp
  qed
qed

end
