(* ===== verification/FsMount.thy ===== *)
theory FsMount
  imports FsData
begin

text \<open>
  Mounting: the disk \<^verbatim>\<open>fs_init\<close> builds satisfies the invariant and stands for the empty file system,
  whatever the memory held before.
\<close>

lemma view_superblock: "a + 4 \<le> 4096 \<Longrightarrow> view (wr32 m a v) = view m"
proof -
  assume a: "a + 4 \<le> 4096"
  have eq: "wr32 m a v x = m x" if "4096 \<le> x" for x using a that by (intro wr32_other) simp
  have "view_ibm (wr32 m a v) = view_ibm m" "view_bbm (wr32 m a v) = view_bbm m" "view_ino (wr32 m a v) = view_ino m"
    "view_dir (wr32 m a v) = view_dir m" "view_data (wr32 m a v) = view_data m"
    by (auto intro!: view_ibm_cong view_bbm_cong view_ino_cong view_dir_cong view_data_cong same_onI eq)
  then show ?thesis by (simp add: view_def)
qed

lemma load_inode_blank:
  assumes "i < 64"
  shows "load_inode (fill m 0 0 1048576) i = zero_inode"
proof -
  have "same_on (inode_addr i) (inode_addr i + 64) (fill m 0 0 1048576) (k_memset m (inode_addr i) 0 64)"
    by (rule same_onI) (use assms in \<open>simp add: k_memset_fill fill_at inode_addr_def\<close>)
  then show ?thesis using load_inode_cong load_clear_inode by metis
qed

lemma load_dirent_blank:
  assumes "j < 128"
  shows "load_dirent (fill m 0 0 1048576) j = zero_dirent"
proof -
  have "same_on (dirent_addr j) (dirent_addr j + 32) (fill m 0 0 1048576) (k_memset m (dirent_addr j) 0 32)"
    by (rule same_onI) (use assms in \<open>simp add: k_memset_fill fill_at dirent_addr_def\<close>)
  then show ?thesis using load_dirent_cong load_clear_dirent by metis
qed

lemma view_blank:
  "view (fill m 0 0 1048576) = \<lparr>v_ibm = \<lambda>_. False, v_bbm = \<lambda>_. False, v_ino = \<lambda>_. zero_inode,
     v_dir = \<lambda>_. zero_dirent, v_data = \<lambda>_. 0\<rparr>"
proof (rule view_eqI)
  show "view_ibm (fill m 0 0 1048576) = (\<lambda>_. False)" "view_bbm (fill m 0 0 1048576) = (\<lambda>_. False)"
    by (auto simp: view_ibm_def view_bbm_def bit_test_bit fill_at fun_eq_iff)
  show "view_ino (fill m 0 0 1048576) = (\<lambda>_. zero_inode)"
    by (auto simp: view_ino_def load_inode_blank fun_eq_iff)
  show "view_dir (fill m 0 0 1048576) = (\<lambda>_. zero_dirent)"
    by (auto simp: view_dir_def load_dirent_blank fun_eq_iff)
  show "view_data (fill m 0 0 1048576) = (\<lambda>_. 0)"
    by (auto simp: view_data_def fill_at fun_eq_iff)
qed

lemma view_reserve:
  "view (for_do (\<lambda>b m. bit_set m block_bitmap b) 0 5 m) = (view m)\<lparr>v_bbm := \<lambda>b. b < 5 \<or> v_bbm (view m) b\<rparr>"
proof -
  have "view (for_do (\<lambda>b m. bit_set m block_bitmap b) 0 5 m) = (view m)\<lparr>v_bbm := \<lambda>b. b < 5 \<or> v_bbm (view m) b\<rparr>"
  proof (rule for_do_invariant [where P = "\<lambda>n m'. view m' = (view m)\<lparr>v_bbm := \<lambda>b. b < n \<or> v_bbm (view m) b\<rparr>"])
    fix n m' assume "n < 5" "view m' = (view m)\<lparr>v_bbm := \<lambda>b. b < n \<or> v_bbm (view m) b\<rparr>"
    then show "view (bit_set m' block_bitmap n) = (view m)\<lparr>v_bbm := \<lambda>b. b < Suc n \<or> v_bbm (view m) b\<rparr>"
      by (simp add: view_simps) (rule arg_cong [where f = "\<lambda>f. (view m)\<lparr>v_bbm := f\<rparr>"], auto simp: fun_eq_iff)
  qed simp_all
  then show ?thesis .
qed

lemma view_fs_init:
  "view (disk (fst (fs_init s v))) = \<lparr>v_ibm = (\<lambda>i. i = 0), v_bbm = (\<lambda>b. b < 5),
     v_ino = (\<lambda>_. zero_inode)(0 := zero_inode\<lparr>i_used := 1, i_type := 2, i_blocks := [4, 0, 0, 0, 0, 0, 0, 0],
        i_name := bytes ''/'' @ 0 # replicate 22 0\<rparr>),
     v_dir = \<lambda>_. zero_dirent, v_data = \<lambda>_. 0\<rparr>"
proof -
  have ok: "cstr_ok (bytes ''/'')" by (simp add: cstr_ok_def bytes_def)
  have len: "length (bytes ''/'') = 1" by (simp add: bytes_def)
  have ib: "(replicate 8 0)[0 := 4 :: u32] = [4, 0, 0, 0, 0, 0, 0, 0]"
    by (simp add: numeral_eq_Suc)
  have nm: "drop (Suc (Suc 0)) (replicate 24 0) = replicate 22 (0 :: u8)" by simp
  have lz: "length (i_blocks zero_inode) = 8" by (simp add: zero_inode_def)
  show ?thesis
    using ok len
    by (simp add: fs_init_def Let_def k_strncpy_put view_simps view_reserve view_superblock k_memset_fill view_blank)
      (auto simp: zero_inode_def ib nm fun_eq_iff)
qed

lemma fs_init_sim: "fs_ok (fst (fs_init s v)) \<and> abs_fs (fst (fs_init s v)) = a_init"
proof -
  let ?V = "view (disk (fst (fs_init s v)))"
  have nf: "\<not> is_file ?V i" for i by (simp add: is_file_def view_fs_init zero_inode_def)
  have ne: "\<not> is_ent ?V j" for j by (simp add: is_ent_def view_fs_init zero_dirent_def)
  have fd: "f_used (fds (fst (fs_init s v)) k) = 0" if "k < 32" for k
    using that by (simp add: fs_init_def Let_def zero_file_def)
  have "inv_ino ?V" by (auto simp: inv_ino_def nf) (auto simp: view_fs_init zero_inode_def split: if_splits)
  moreover have "inv_blk ?V (fsize ?V)"
    by (rule inv_blkI) (simp_all add: nf, simp add: view_fs_init)
  moreover have "inv_dir ?V" by (rule inv_dirI) (simp_all add: nf ne)
  moreover have "inv_fds ?V (fds (fst (fs_init s v)))" by (simp add: inv_fds_def fd)
  moreover have "abs_names ?V = Map.empty" by (auto simp: abs_names_None ne fun_eq_iff)
  moreover have "abs_files ?V = Map.empty" by (simp add: abs_files_def nf fun_eq_iff)
  moreover have "abs_open (fds (fst (fs_init s v))) = Map.empty" by (auto simp: abs_open_def fd fun_eq_iff)
  moreover have "{b. 5 \<le> b \<and> b < 256 \<and> \<not> v_bbm ?V b} = {5..<256}" by (auto simp: view_fs_init)
  then have "blocks_free (disk (fst (fs_init s v))) = 251" by (simp add: blocks_free_view)
  ultimately show ?thesis by (simp add: fs_ok_def abs_fs_def a_init_def)
qed

end
