(* ===== verification/FsProps.thy ===== *)
theory FsProps
  imports FsMount
begin

text \<open>
  The properties of the file system: refinement of the abstract specification, operation by
  operation and over every sequence of calls from a fresh mount, block accounting, and the
  behaviour of the listing.
\<close>

section \<open>Sequences of calls\<close>

datatype fs_op =
  Create "cstr option"
| Open cstr
| Read int "memory option" u32
| Write int "memory option" u32
| Close int
| Unlink cstr

fun fs_step :: "fs_op \<Rightarrow> fs \<Rightarrow> (int \<times> memory option) \<times> fs" where
  "fs_step (Create n) s = (let (r, s) = fs_create n s in ((r, None), s))"
| "fs_step (Open n) s = (let (r, s) = fs_open n s in ((r, None), s))"
| "fs_step (Read fd buf c) s = (let (r, out, s) = fs_read fd buf c s in ((r, out), s))"
| "fs_step (Write fd buf c) s = (let (r, s) = fs_write fd buf c s in ((r, None), s))"
| "fs_step (Close fd) s = (let (r, s) = fs_close fd s in ((r, None), s))"
| "fs_step (Unlink n) s = (let (r, s) = fs_unlink n s in ((r, None), s))"

fun a_step :: "fs_op \<Rightarrow> afs \<Rightarrow> (int \<times> memory option) \<times> afs" where
  "a_step (Create n) A = (let (r, A) = a_create n A in ((r, None), A))"
| "a_step (Open n) A = (let (r, A) = a_open_file n A in ((r, None), A))"
| "a_step (Read fd buf c) A = (let (r, out, A) = a_read fd buf (unat c) A in ((r, out), A))"
| "a_step (Write fd buf c) A = (let (r, A) = a_write fd buf (unat c) A in ((r, None), A))"
| "a_step (Close fd) A = (let (r, A) = a_close fd A in ((r, None), A))"
| "a_step (Unlink n) A = (let (r, A) = a_unlink n A in ((r, None), A))"

fun op_ok :: "fs_op \<Rightarrow> bool" where
  "op_ok (Create n) = pred_option cstr_ok n"
| "op_ok (Open n) = cstr_ok n"
| "op_ok (Unlink n) = cstr_ok n"
| "op_ok _ = True"

primrec run :: "('o \<Rightarrow> 's \<Rightarrow> 'r \<times> 's) \<Rightarrow> 'o list \<Rightarrow> 's \<Rightarrow> 'r list \<times> 's" where
  "run f [] s = ([], s)"
| "run f (x # xs) s = (let (r, s) = f x s; (rs, s) = run f xs s in (r # rs, s))"

lemma fs_step_sim:
  assumes "fs_ok s" "op_ok x"
  shows "fs_ok (snd (fs_step x s)) \<and> a_step x (abs_fs s) = (fst (fs_step x s), abs_fs (snd (fs_step x s)))"
  using assms
proof (cases x)
  case (Create n)
  with assms fs_create_sim [of s n] show ?thesis by (simp add: case_prod_unfold Let_def)
next
  case (Open n)
  with assms fs_open_sim [of s n] show ?thesis by (simp add: case_prod_unfold Let_def)
next
  case (Read fd buf c)
  with assms fs_read_sim [of s fd buf c] show ?thesis by (simp add: case_prod_unfold Let_def)
next
  case (Write fd buf c)
  with assms fs_write_sim [of s fd buf c] show ?thesis by (simp add: case_prod_unfold Let_def)
next
  case (Close fd)
  with assms fs_close_sim [of s fd] show ?thesis by (simp add: case_prod_unfold Let_def)
next
  case (Unlink n)
  with assms fs_unlink_sim [of s n] show ?thesis by (simp add: case_prod_unfold Let_def)
qed

text \<open>The interface of a mounted file system: any state type with an invariant that every legal
  call preserves while answering like the abstract one.\<close>

locale file_system =
  fixes ok :: "'s \<Rightarrow> bool" and abs :: "'s \<Rightarrow> afs"
    and step :: "fs_op \<Rightarrow> 's \<Rightarrow> (int \<times> memory option) \<times> 's"
  assumes step_ok: "ok s \<Longrightarrow> op_ok x \<Longrightarrow> ok (snd (step x s))"
    and step_abs: "ok s \<Longrightarrow> op_ok x \<Longrightarrow> a_step x (abs s) = (fst (step x s), abs (snd (step x s)))"
begin

lemma run_sim:
  "ok s \<Longrightarrow> list_all op_ok xs \<Longrightarrow>
     ok (snd (run step xs s)) \<and> run a_step xs (abs s) = (fst (run step xs s), abs (snd (run step xs s)))"
proof (induction xs arbitrary: s)
  case (Cons x xs)
  then show ?case
    using step_ok [of s x] step_abs [of s x] Cons.IH [of "snd (step x s)"] by (simp add: case_prod_unfold Let_def)
qed simp

text \<open>What a client of the abstract file system may conclude after a run.\<close>

lemma run_cons: "ok s \<Longrightarrow> op_ok x \<Longrightarrow> fst (run step (x # xs) s) = fst (a_step x (abs s)) # fst (run step xs (snd (step x s)))"
  using step_abs [of s x] by (simp add: case_prod_unfold Let_def)

end

interpretation ramdisk: file_system fs_ok abs_fs fs_step
  by unfold_locales (use fs_step_sim in blast)+

section \<open>A concrete mounted disk\<close>

definition blank_fs :: fs where
  "blank_fs = \<lparr>disk = \<lambda>_. 0xAA, fds = \<lambda>_. zero_file\<rparr>"

definition mounted :: fs where
  "mounted = fst (fs_init blank_fs blank_vga)"

definition name_a :: cstr where "name_a = [0x61]"

text \<open>The mounted disk with one empty file \<^verbatim>\<open>a\<close>, open as descriptor 0.\<close>

definition demo :: fs where
  "demo = snd (fs_open name_a (snd (fs_create (Some name_a) mounted)))"

lemma mounted_sim: "fs_ok mounted" "abs_fs mounted = a_init"
  using fs_init_sim by (simp_all add: mounted_def)

lemma name_a_ok [simp]: "cstr_ok name_a" "name_a \<noteq> []" "length name_a = 1"
  by (simp_all add: name_a_def cstr_ok_def)

lemma created_sim:
  "fs_ok (snd (fs_create (Some name_a) mounted))" "fst (fs_create (Some name_a) mounted) = 1"
  "abs_fs (snd (fs_create (Some name_a) mounted))
     = \<lparr>a_names = [name_a \<mapsto> 1], a_files = [1 \<mapsto> []], a_open = Map.empty, a_free = 251\<rparr>"
  using fs_create_sim [of mounted "Some name_a"] mounted_sim
  by (simp_all add: a_create_def a_init_def for_find_hit)

lemma demo_sim:
  "fs_ok demo" "abs_fs demo = \<lparr>a_names = [name_a \<mapsto> 1], a_files = [1 \<mapsto> []], a_open = [0 \<mapsto> (1, 0)], a_free = 251\<rparr>"
  using fs_open_sim [OF created_sim(1), of name_a] created_sim(3)
  by (simp_all add: demo_def a_open_file_def for_find_hit)

section \<open>Refinement\<close>

text \<open>C1. Every sequence of file-system calls on a freshly mounted disk, with any arguments that are
  C strings, returns what the abstract file system returns, reads included, and leaves the disk in
  a state that satisfies the invariant and stands for the abstract final state.\<close>

theorem fs_trace_refinement:
  assumes "list_all op_ok ops"
  shows "fst (run fs_step ops (fst (fs_init s v))) = fst (run a_step ops a_init)
    \<and> fs_ok (snd (run fs_step ops (fst (fs_init s v))))
    \<and> abs_fs (snd (run fs_step ops (fst (fs_init s v)))) = snd (run a_step ops a_init)"
  using ramdisk.run_sim [OF conjunct1 [OF fs_init_sim] assms, of s v] by (simp add: fs_init_sim)

theorem fs_trace_refinement_witness:
  "map fst (fst (run fs_step [Create (Some name_a), Create (Some name_a), Open name_a, Write 0 (Some (\<lambda>_. 7)) 5000,
      Unlink name_a, Close 0, Unlink name_a, Open name_a] mounted)) = [1, -2, 0, 5000, -2, 0, 0, -1]"
proof -
  have "fst (run fs_step [Create (Some name_a), Create (Some name_a), Open name_a, Write 0 (Some (\<lambda>_. 7)) 5000,
      Unlink name_a, Close 0, Unlink name_a, Open name_a] mounted)
    = fst (run a_step [Create (Some name_a), Create (Some name_a), Open name_a, Write 0 (Some (\<lambda>_. 7)) 5000,
      Unlink name_a, Close 0, Unlink name_a, Open name_a] a_init)"
    unfolding mounted_def by (rule conjunct1 [OF fs_trace_refinement]) simp
  then show ?thesis
    by (simp add: a_init_def a_create_def a_open_file_def a_write_def a_close_def a_unlink_def a_fd_def
        for_find_hit nblocks_def Let_def)
qed

text \<open>Mounting produces a disk that satisfies the invariant and stands for the empty file system
  with 251 free blocks, whatever the memory and the descriptor table held before.\<close>

theorem fs_init_mounts:
  "fs_ok (fst (fs_init s v)) \<and> abs_fs (fst (fs_init s v)) = a_init"
  by (rule fs_init_sim)

text \<open>C2. A write transfers as many bytes as were asked for, as fit below 32 KiB and as the free
  blocks allow, replaces exactly that part of the file, moves the offset, and takes exactly the
  blocks the longer file needs; no other file changes.\<close>

theorem fs_write_refines:
  assumes "fs_ok s"
  shows "fs_ok (snd (fs_write fd buf count s))
    \<and> a_write fd buf (unat count) (abs_fs s) = (fst (fs_write fd buf count s), abs_fs (snd (fs_write fd buf count s)))"
  by (rule fs_write_sim [OF assms])

theorem fs_write_refines_witness:
  "fst (fs_write 0 (Some (\<lambda>p. of_nat p)) 40000 demo) = 32768 \<and> blocks_free (disk (snd (fs_write 0 (Some (\<lambda>p. of_nat p)) 40000 demo))) = 243"
proof -
  have "a_write 0 (Some (\<lambda>p. of_nat p)) 40000 (abs_fs demo)
      = (fst (fs_write 0 (Some (\<lambda>p. of_nat p)) 40000 demo), abs_fs (snd (fs_write 0 (Some (\<lambda>p. of_nat p)) 40000 demo)))"
    using fs_write_refines [OF demo_sim(1), of 0 "Some (\<lambda>p. of_nat p)" 40000] by simp
  then show ?thesis
    unfolding demo_sim(2) a_write_def a_fd_def
    by (simp add: nblocks_def Let_def abs_fs_def)
qed

text \<open>A read returns the bytes of the file from the offset on, as many as were asked for and as
  there are, stores exactly those into the caller's buffer and advances the offset.\<close>

theorem fs_read_refines:
  assumes "fs_ok s"
  shows "fs_ok (snd (snd (fs_read fd buf count s)))
    \<and> a_read fd buf (unat count) (abs_fs s)
      = (fst (fs_read fd buf count s), fst (snd (fs_read fd buf count s)), abs_fs (snd (snd (fs_read fd buf count s))))"
  by (rule fs_read_sim [OF assms])

theorem fs_read_refines_witness:
  "fst (fs_read 0 (Some (\<lambda>_. 1)) 10 demo) = 0 \<and> fst (snd (fs_read 0 (Some (\<lambda>_. 1)) 10 demo)) = Some (\<lambda>_. 1)"
  using fs_read_refines [OF demo_sim(1), of 0 "Some (\<lambda>_. 1)" 10]
  by (simp add: demo_sim(2) a_read_def a_fd_def put_bytes_def)

text \<open>C9. Creating a file binds the new name to the lowest free file number and an empty content, or
  fails with the code for a bad name, a duplicate or a full inode table; it never fails for want of
  a directory slot.\<close>

theorem fs_create_refines:
  assumes "fs_ok s" "pred_option cstr_ok name"
  shows "fs_ok (snd (fs_create name s))
    \<and> a_create name (abs_fs s) = (fst (fs_create name s), abs_fs (snd (fs_create name s)))
    \<and> fst (fs_create name s) \<in> {-3, -2, -1} \<union> {1..<64}"
proof -
  have "fst (a_create name A) \<in> {-3, -2, -1} \<union> {1..<64}" for A
    by (auto simp: a_create_def dest: for_find_SomeD split: option.splits)
  from this [of "abs_fs s"] show ?thesis using fs_create_sim [OF assms] by simp
qed

theorem fs_create_refines_witness:
  "fst (fs_create (Some name_a) mounted) = 1 \<and> fst (fs_create (Some name_a) demo) = -2"
proof
  show "fst (fs_create (Some name_a) mounted) = 1"
    using fs_create_refines [OF mounted_sim(1), of "Some name_a"] mounted_sim(2)
    by (simp add: a_init_def a_create_def for_find_hit)
  show "fst (fs_create (Some name_a) demo) = -2"
    using fs_create_refines [OF demo_sim(1), of "Some name_a"] by (simp add: demo_sim(2) a_create_def)
qed

text \<open>C8. Removing a file frees its name, its number and all its blocks; a file that some descriptor
  has open is refused and nothing changes.\<close>

theorem fs_unlink_refines:
  assumes "fs_ok s" "cstr_ok n"
  shows "fs_ok (snd (fs_unlink n s))
    \<and> a_unlink n (abs_fs s) = (fst (fs_unlink n s), abs_fs (snd (fs_unlink n s)))"
  by (rule fs_unlink_sim [OF assms])

theorem fs_unlink_refines_witness:
  "fst (fs_unlink name_a demo) = -2 \<and> fst (fs_unlink name_a mounted) = -1"
proof -
  have "\<exists>fd < 32. map_option fst (a_open (abs_fs demo) fd) = Some 1"
    by (rule exI [of _ 0]) (simp add: demo_sim(2) del: abs_fs_simps)
  then have "a_unlink name_a (abs_fs demo) = (-2, abs_fs demo)"
    using demo_sim(2) by (simp add: a_unlink_def del: abs_fs_simps)
  then show ?thesis
    using fs_unlink_refines [OF demo_sim(1), of name_a] fs_unlink_refines [OF mounted_sim(1), of name_a]
    by (simp add: mounted_sim(2) a_unlink_def [of _ a_init]) (simp add: a_init_def)
qed

text \<open>Opening an existing name takes the lowest free descriptor at offset 0; closing frees it and
  answers -1 for a descriptor that is not open.\<close>

theorem fs_open_close_refines:
  assumes "fs_ok s" "cstr_ok n"
  shows "fs_ok (snd (fs_open n s)) \<and> a_open_file n (abs_fs s) = (fst (fs_open n s), abs_fs (snd (fs_open n s)))
    \<and> fs_ok (snd (fs_close fd s)) \<and> a_close fd (abs_fs s) = (fst (fs_close fd s), abs_fs (snd (fs_close fd s)))"
  using fs_open_sim [OF assms] fs_close_sim [OF assms(1)] by simp

theorem fs_open_close_refines_witness:
  "fst (fs_open name_a demo) = 1 \<and> fst (fs_close 0 demo) = 0"
  using fs_open_close_refines [OF demo_sim(1), of name_a 0]
  by (simp add: demo_sim(2) a_open_file_def a_close_def a_fd_def for_find_skip for_find_hit)

section \<open>End to end\<close>

lemma a_close_slot: "a_open A k \<noteq> None \<Longrightarrow> k < 32 \<Longrightarrow>
    \<exists>j. for_find (\<lambda>fd. ((a_open A)(k := None)) fd = None) 0 32 = Some j"
  using for_find_None_iff [of "\<lambda>fd. ((a_open A)(k := None)) fd = None" 0 32]
  by (cases "for_find (\<lambda>fd. ((a_open A)(k := None)) fd = None) 0 32") auto

text \<open>C3. What is written to a new file is what a later open and read of its name returns.\<close>

theorem fs_write_read_roundtrip:
  assumes ok: "fs_ok s" and n: "cstr_ok n"
    and cr: "fs_create (Some n) s = (i, s1)" "0 \<le> i"
    and op1: "fs_open n s1 = (fd, s2)" "0 \<le> fd"
    and wr: "fs_write fd (Some src) c s2 = (r, s3)"
    and cl: "fs_close fd s3 = (q, s4)"
    and op2: "fs_open n s4 = (fd', s5)"
    and rd: "fs_read fd' (Some out) c s5 = (r', out', s6)"
  shows "q = 0 \<and> 0 \<le> fd' \<and> r' = r \<and> (\<exists>b. out' = Some b \<and> (\<forall>p. b p = (if int p < r then src p else out p)))"
proof -
  note [simp del] = abs_fs_simps
  have S1: "fs_ok s1" "i = fst (a_create (Some n) (abs_fs s))" "abs_fs s1 = snd (a_create (Some n) (abs_fs s))"
    using fs_create_sim [OF ok, of "Some n"] n cr by simp_all
  have S2: "fs_ok s2" "fd = fst (a_open_file n (abs_fs s1))" "abs_fs s2 = snd (a_open_file n (abs_fs s1))"
    using fs_open_sim [OF S1(1) n] op1 by simp_all
  have S3: "fs_ok s3" "a_write fd (Some src) (unat c) (abs_fs s2) = (r, abs_fs s3)"
    using fs_write_sim [OF S2(1), of fd "Some src" c] wr by simp_all
  have S4: "fs_ok s4" "q = fst (a_close fd (abs_fs s3))" "abs_fs s4 = snd (a_close fd (abs_fs s3))"
    using fs_close_sim [OF S3(1), of fd] cl by simp_all
  have S5: "fs_ok s5" "fd' = fst (a_open_file n (abs_fs s4))" "abs_fs s5 = snd (a_open_file n (abs_fs s4))"
    using fs_open_sim [OF S4(1) n] op2 by simp_all
  have S6: "a_read fd' (Some out) (unat c) (abs_fs s5) = (r', out', abs_fs s6)"
    using fs_read_sim [OF S5(1), of fd' "Some out" c] rd by simp
  obtain k where k: "a_names (abs_fs s1) n = Some k" "a_files (abs_fs s1) k = Some []"
    using S1(2,3) cr(2) by (simp add: a_create_def split: if_splits option.splits)
  obtain g where g: "fd = int g" "g < 32" "abs_fs s2 = (abs_fs s1)\<lparr>a_open := (a_open (abs_fs s1))(g \<mapsto> (k, 0))\<rparr>"
    using S2(2,3) op1(2) k by (auto simp: a_open_file_def dest: for_find_SomeD split: option.splits)
  define w where "w = min (unat c) (min 32768 ((nblocks 0 + a_free (abs_fs s1)) * 4096))"
  have "abs_fs s3 = snd (a_write fd (Some src) (unat c) (abs_fs s2))" "r = fst (a_write fd (Some src) (unat c) (abs_fs s2))"
    using S3(2) by simp_all
  then have A3: "a_files (abs_fs s3) k = Some (map src [0..<w])" "a_open (abs_fs s3) g = Some (k, w)"
    "a_names (abs_fs s3) n = Some k" "r = int w"
    using k by (simp_all add: a_write_def a_fd_def g Let_def w_def)
  have A4: "q = 0" "abs_fs s4 = (abs_fs s3)\<lparr>a_open := (a_open (abs_fs s3))(g := None)\<rparr>"
    using S4(2,3) A3(2) by (simp_all add: a_close_def a_fd_def g(1))
  obtain h where h: "for_find (\<lambda>fd. ((a_open (abs_fs s3))(g := None)) fd = None) 0 32 = Some h"
    using a_close_slot [of "abs_fs s3" g] A3(2) g(2) by auto
  have "a_open_file n (abs_fs s4) = (int h, (abs_fs s4)\<lparr>a_open := (a_open (abs_fs s4))(h \<mapsto> (k, 0))\<rparr>)"
    using A3(3) h unfolding a_open_file_def A4(2) by simp
  then have A5: "fd' = int h" "a_open (abs_fs s5) h = Some (k, 0)" "a_files (abs_fs s5) k = Some (map src [0..<w])"
    using S5(2,3) A3(1) by (simp_all add: A4(2))
  have "w \<le> unat c" by (simp add: w_def)
  then have "r' = int w" "out' = Some (put_bytes out (map src [0..<w]))"
    using S6 A5 by (auto simp: a_read_def a_fd_def Let_def)
  then show ?thesis using A4(1) A5(1) A3(4) by (auto simp: put_bytes_def)
qed

theorem fs_write_read_roundtrip_witness:
  "\<exists>s3 s5 fd b. snd (fs_write 0 (Some (\<lambda>p. of_nat p)) 5000 demo) = s3
     \<and> fs_open name_a (snd (fs_close 0 s3)) = (fd, s5)
     \<and> fst (snd (fs_read fd (Some (\<lambda>_. 0)) 5000 s5)) = Some b \<and> b 4999 = of_nat (4999 :: nat) \<and> b 5000 = 0"
proof -
  have w: "fst (fs_write 0 (Some (\<lambda>p. of_nat p)) 5000 demo) = 5000"
    using fs_write_sim [OF demo_sim(1), of 0 "Some (\<lambda>p. of_nat p)" 5000]
    by (simp add: demo_sim(2) a_write_def a_fd_def nblocks_def Let_def)
  have o: "fst (fs_open name_a (snd (fs_create (Some name_a) mounted))) = 0"
    using fs_open_sim [OF created_sim(1), of name_a] created_sim(3) by (simp add: a_open_file_def for_find_hit)
  have c: "fs_create (Some name_a) mounted = (1, snd (fs_create (Some name_a) mounted))"
    using created_sim(2) by (metis prod.collapse)
  have o2: "fs_open name_a (snd (fs_create (Some name_a) mounted)) = (0, demo)"
    using o unfolding demo_def by (metis prod.collapse)
  obtain s3 where s3: "fs_write 0 (Some (\<lambda>p. of_nat p)) 5000 demo = (5000, s3)" using w by (metis prod.collapse)
  obtain q s4 where s4: "fs_close 0 s3 = (q, s4)" by (metis prod.collapse)
  obtain fd' s5 where s5: "fs_open name_a s4 = (fd', s5)" by (metis prod.collapse)
  obtain r' out' s6 where s6: "fs_read fd' (Some (\<lambda>_. 0)) 5000 s5 = (r', out', s6)" by (metis prod.collapse)
  show ?thesis
    using fs_write_read_roundtrip [OF mounted_sim(1) name_a_ok(1) c _ o2 _ s3 s4 s5 s6]
    by (auto simp: s3 s4 s5 s6 Let_def)
qed

section \<open>Space\<close>



text \<open>A write that stays below 32 KiB and needs no more than the free blocks is never cut short.\<close>

theorem fs_write_completes:
  assumes "fs_ok s" "\<not> fd_invalid fd s" "unat (f_offset (fds s (nat fd))) + unat count \<le> 32768"
    and "unat count \<le> blocks_free (disk s) * 4096"
  shows "fst (fs_write fd (Some src) count s) = int (unat count)"
proof -
  let ?f = "fds s (nat fd)" let ?V = "view (disk s)"
  let ?i = "unat (f_inode ?f)" let ?off = "unat (f_offset ?f)"
  have fd: "0 \<le> fd" "nat fd < 32" "f_used ?f \<noteq> 0" using assms(2) by (auto simp: fd_invalid_def)
  have f: "is_file ?V ?i" and le: "?off \<le> fsize ?V ?i"
    using fs_okD(4) [OF assms(1)] fd by (auto simp: inv_fds_def)
  have "?off \<le> nblocks (fsize ?V ?i) * 4096" using le nblocks_ge order_trans by blast
  then have "unat count \<le> (nblocks (fsize ?V ?i) + blocks_free (disk s)) * 4096 - ?off"
    using assms(4) by (simp add: distrib_right)
  moreover have "unat count \<le> 32768 - ?off" using assms(3) by linarith
  ultimately have "min (unat count) (min (32768 - ?off) ((nblocks (fsize ?V ?i) + blocks_free (disk s)) * 4096 - ?off)) = unat count"
    by simp
  then obtain m off where "fs_write fd (Some src) count s = (int (unat count), set_offset (nat fd) off (s\<lparr>disk := m\<rparr>))"
    using fs_write_step [OF assms(1) fd, of src count] by metis
  then show ?thesis by simp
qed

theorem fs_write_completes_witness: "fst (fs_write 0 (Some (\<lambda>_. 1)) 32768 demo) = 32768"
proof -
  have o: "a_fd 0 (abs_fs demo) = Some (1, 0)" by (simp only: demo_sim(2) a_fd_def) simp
  then have "\<not> fd_invalid 0 demo" by (simp add: fd_invalid_abs)
  moreover have "unat (f_offset (fds demo 0)) = 0"
    using o by (auto simp: a_fd_def abs_open_def split: if_splits)
  moreover have "blocks_free (disk demo) = 251" using arg_cong [OF demo_sim(2), of a_free] by simp
  ultimately show ?thesis
    using fs_write_completes [OF demo_sim(1), of 0 32768 "\<lambda>_. 1"] by simp
qed

section \<open>The listing\<close>

text \<open>The format of \<^verbatim>\<open>fs_list\<close> uses a field width that \<^verbatim>\<open>vga_printf\<close> does not have: for a directory
  entry in use the line shows the text \<^verbatim>\<open>-24s\<close> and the address of the entry's name in place of the
  name and the size, and neither the name nor the size of the file.\<close>

theorem fs_list_prints_address:
  assumes "dirent_used m i \<noteq> 0" "unat (dirent_inode m i) < 64" "inode_used m (unat (dirent_inode m i)) \<noteq> 0"
  shows "list_line m i (c, v) = map_option (\<lambda>v. (c + 1, v))
     (vga_printf (bytes ''  -24s %u bytes'' @ [0x0A]) [VInt (0x200000 + of_nat (dirent_name_addr i))] v)"
proof -
  have "vga_printf (bytes ''  %-24s %u bytes'' @ [0x0A]) [VStr (Some a) nm, VInt z] v
      = vga_printf (bytes ''  -24s %u bytes'' @ [0x0A]) [VInt a] v" for a nm z
    by (simp add: bytes_def printf_conv_def)
  then show ?thesis
    using assms by (simp add: list_line_def map_option_case)
qed

theorem fs_list_prints_address_witness:
  "list_line ((\<lambda>_. 1)(16385 := 0)) 0 (0, blank_vga) = map_option (\<lambda>v. (1, v))
     (vga_printf (bytes ''  -24s %u bytes'' @ [0x0A]) [VInt 0x204003] blank_vga)"
  using fs_list_prints_address [of "(\<lambda>_. 1)(16385 := 0)" 0 0 blank_vga]
  by (simp add: dirent_used_def dirent_inode_def inode_used_def dirent_addr_def dirent_name_addr_def
      inode_addr_def rd16_def)

end
