(* ===== verification/FsConfined.thy ===== *)
theory FsConfined
  imports FsProps
begin

text \<open>
  Where the file system writes: no operation changes the superblock, which \<^verbatim>\<open>fs_init\<close> fills and nothing
  reads again, and none changes a byte behind the end of the RAM disk.
\<close>

section \<open>The superblock\<close>

text \<open>The packed \<^verbatim>\<open>superblock_t\<close> is eight words at the start of the disk.\<close>

record superblock_t =
  sb_magic :: u32
  sb_block_size :: u32
  sb_total_blocks :: u32
  sb_inode_count :: u32
  sb_inode_bitmap_block :: u32
  sb_block_bitmap_block :: u32
  sb_inode_table_start :: u32
  sb_data_start :: u32

definition load_superblock :: "memory \<Rightarrow> superblock_t" where
  "load_superblock m =
     \<lparr>sb_magic = rd32 m 0, sb_block_size = rd32 m 4, sb_total_blocks = rd32 m 8, sb_inode_count = rd32 m 12,
      sb_inode_bitmap_block = rd32 m 16, sb_block_bitmap_block = rd32 m 20, sb_inode_table_start = rd32 m 24,
      sb_data_start = rd32 m 28\<rparr>"

section \<open>Writes inside the disk\<close>

definition kept :: "memory \<Rightarrow> memory \<Rightarrow> bool" where
  "kept m m' \<longleftrightarrow> (\<forall>a. a < 4096 \<or> 1048576 \<le> a \<longrightarrow> m' a = m a)"

lemma kept_refl [simp]: "kept m m"
  by (simp add: kept_def)

lemma kept_trans: "kept m m' \<Longrightarrow> kept m' m'' \<Longrightarrow> kept m m''"
  by (simp add: kept_def)

named_theorems kept_intros \<open>writes between the superblock and the end of the disk\<close>

lemma kept_wr8 [kept_intros]: "kept m m' \<Longrightarrow> 4096 \<le> p \<Longrightarrow> p < 1048576 \<Longrightarrow> kept m (wr8 m' p v)"
  by (simp add: kept_def wr8_def)

lemma kept_wr16 [kept_intros]: "kept m m' \<Longrightarrow> 4096 \<le> p \<Longrightarrow> p + 1 < 1048576 \<Longrightarrow> kept m (wr16 m' p v)"
  by (simp add: kept_def wr16_def)

lemma kept_wr32 [kept_intros]: "kept m m' \<Longrightarrow> 4096 \<le> p \<Longrightarrow> p + 3 < 1048576 \<Longrightarrow> kept m (wr32 m' p v)"
  by (simp add: kept_def wr32_def)

lemma kept_memset [kept_intros]: "kept m m' \<Longrightarrow> 4096 \<le> p \<Longrightarrow> p + n \<le> 1048576 \<Longrightarrow> kept m (k_memset m' p v n)"
  by (auto simp: kept_def k_memset_fill fill_def)

lemma kept_memcpy [kept_intros]: "kept m m' \<Longrightarrow> 4096 \<le> p \<Longrightarrow> p + n \<le> 1048576 \<Longrightarrow> kept m (k_memcpy m' p src st n)"
  by (auto simp: kept_def k_memcpy_blit blit_def)

lemma kept_strncpy [kept_intros]:
  "kept m m' \<Longrightarrow> cstr_ok s \<Longrightarrow> 0 < n \<Longrightarrow> 4096 \<le> p \<Longrightarrow> p + n \<le> 1048576 \<Longrightarrow> kept m (k_strncpy m' p s n)"
  by (auto simp: kept_def k_strncpy_put put_str_def)

lemma kept_bits [kept_intros]:
  "kept m m' \<Longrightarrow> 4096 \<le> bm \<Longrightarrow> bm + n div 8 < 1048576 \<Longrightarrow> kept m (bit_set m' bm n)"
  "kept m m' \<Longrightarrow> 4096 \<le> bm \<Longrightarrow> bm + n div 8 < 1048576 \<Longrightarrow> kept m (bit_clear m' bm n)"
  by (simp_all add: bit_set_def bit_clear_def kept_wr8)

lemma kept_inode [kept_intros]:
  "kept m m' \<Longrightarrow> i < 64 \<Longrightarrow> kept m (set_inode_used m' i u)" "kept m m' \<Longrightarrow> i < 64 \<Longrightarrow> kept m (set_inode_type m' i u)"
  "kept m m' \<Longrightarrow> i < 64 \<Longrightarrow> kept m (set_inode_size m' i w)"
  "kept m m' \<Longrightarrow> i < 64 \<Longrightarrow> k < 8 \<Longrightarrow> kept m (set_inode_block m' i k w)"
  by (simp_all add: set_inode_used_def set_inode_type_def set_inode_size_def set_inode_block_def inode_addr_def kept_wr8 kept_wr32)

lemma kept_dirent [kept_intros]:
  "kept m m' \<Longrightarrow> i < 128 \<Longrightarrow> kept m (set_dirent_used m' i u)" "kept m m' \<Longrightarrow> i < 128 \<Longrightarrow> kept m (set_dirent_inode m' i h)"
  by (simp_all add: set_dirent_used_def set_dirent_inode_def dirent_addr_def kept_wr8 kept_wr16)

section \<open>The primitives\<close>

lemma alloc_inode_kept: "kept m (snd (alloc_inode m))" "fst (alloc_inode m) < 64"
  by (cases "for_find (\<lambda>i. \<not> bit_test m inode_bitmap i) 1 FS_MAX_INODES";
    auto simp: alloc_inode_def Let_def inode_addr_def dest!: for_find_SomeD(2) intro!: kept_intros)+

lemma free_inode_kept: "kept m m' \<Longrightarrow> kept m (free_inode i m')"
  by (auto simp: free_inode_def inode_addr_def not_le intro!: kept_intros)

lemma free_block_kept: "kept m m' \<Longrightarrow> kept m (free_block b m')"
  by (auto simp: free_block_def intro!: kept_intros)

lemma free_blocks_kept: "kept m (free_blocks i m)"
  unfolding free_blocks_def
  by (rule for_do_invariant [where P = "\<lambda>_ t. kept m t"]) (auto intro: free_block_kept)

lemma add_dirent_kept: "cstr_ok name \<Longrightarrow> kept m m' \<Longrightarrow> kept m (snd (add_dirent name i m'))"
  by (cases "for_find (\<lambda>i. dirent_used m' i = 0) 0 DIR_ENTRIES")
    (auto simp: add_dirent_def Let_def dirent_name_addr_def dirent_addr_def dest!: for_find_SomeD(2) intro!: kept_intros)

lemma remove_dirent_kept: "kept m m' \<Longrightarrow> kept m (remove_dirent i m')"
  by (auto simp: remove_dirent_def dirent_addr_def intro!: kept_intros)


section \<open>The write loop\<close>

text \<open>All blocks of an inode are data blocks.\<close>

definition data_blocks :: "nat \<Rightarrow> memory \<Rightarrow> bool" where
  "data_blocks i m \<longleftrightarrow> (\<forall>k < 8. inode_block m i k \<noteq> 0 \<longrightarrow> 5 \<le> unat (inode_block m i k) \<and> unat (inode_block m i k) < 256)"

lemma inode_block_cong: "same_on 12288 16384 m m' \<Longrightarrow> i < 64 \<Longrightarrow> k < 8 \<Longrightarrow> inode_block m' i k = inode_block m i k"
  unfolding inode_block_def inode_addr_def by (rule rd32_cong [symmetric]) auto

lemma data_blocks_cong: "same_on 12288 16384 m m' \<Longrightarrow> i < 64 \<Longrightarrow> data_blocks i m' = data_blocks i m"
  by (simp add: data_blocks_def inode_block_cong)

lemma alloc_block_table:
  assumes "alloc_block m = (b, m')" "0 \<le> b"
  shows "5 \<le> b" "b < 256" "kept m m'" "same_on 12288 16384 m m'"
proof -
  obtain n where n: "for_find (\<lambda>b. \<not> bit_test m block_bitmap b) FS_DATA_START FS_NUM_BLOCKS = Some n"
    using assms by (cases "for_find (\<lambda>b. \<not> bit_test m block_bitmap b) FS_DATA_START FS_NUM_BLOCKS") (auto simp: alloc_block_def)
  note r = for_find_SomeD(1,2) [OF n]
  have eq: "b = int n" "m' = k_memset (bit_set m block_bitmap n) (n * 4096) 0 4096"
    using assms by (simp_all add: alloc_block_def n Let_def)
  show "5 \<le> b" "b < 256" using r by (simp_all add: eq)
  show "kept m m'" unfolding eq using r by (intro kept_intros) simp_all
  have d: "n div 8 < 32" using r by (simp add: less_mult_imp_div_less)
  show "same_on 12288 16384 m m'"
    unfolding eq by (rule same_onI) (use r d in \<open>auto simp: k_memset_fill fill_def bit_set_def wr8_def\<close>)
qed

lemma write_block_kept:
  assumes "write_block i k m = Some m'" "i < 64" "k < 8" "data_blocks i m"
  shows "kept m m'" "data_blocks i m'" "5 \<le> unat (inode_block m' i k)" "unat (inode_block m' i k) < 256"
proof -
  have "kept m m' \<and> data_blocks i m' \<and> 5 \<le> unat (inode_block m' i k) \<and> unat (inode_block m' i k) < 256"
  proof (cases "inode_block m i k = 0")
    case False
    with assms show ?thesis by (simp add: write_block_def data_blocks_def)
  next
    case True
    obtain b m1 where b: "alloc_block m = (b, m1)" "0 \<le> b" "m' = set_inode_block m1 i k (of_int b)"
      using assms(1) True by (auto simp: write_block_def split: prod.splits if_splits)
    note a = alloc_block_table [OF b(1,2)]
    obtain c where c: "b = int c" using b(2) nonneg_int_cases by blast
    have n: "unat (of_int b :: u32) = c" using a(2) by (simp add: c unat_of_nat take_bit_eq_mod)
    have blk: "inode_block m' i j = (if j = k then of_int b else inode_block m i j)" if "j < 8" for j
    proof (cases "j = k")
      case True
      then show ?thesis by (simp add: b(3) inode_block_def set_inode_block_def inode_addr_def rd32_wr32)
    next
      case False
      then have "inode_block m' i j = inode_block m1 i j"
        unfolding b(3) inode_block_def set_inode_block_def inode_addr_def by (intro rd32_wr32_other) arith
      with False that assms(2) show ?thesis by (simp add: inode_block_cong [OF a(4)])
    qed
    have "kept m m'" unfolding b(3) using a(3) assms(2,3) by (rule kept_intros)
    moreover have "data_blocks i m'" using assms(4) a(1,2) n by (simp add: data_blocks_def blk c)
    ultimately show ?thesis using assms(3) a(1,2) n by (simp add: blk c)
  qed
  then show "kept m m'" "data_blocks i m'" "5 \<le> unat (inode_block m' i k)" "unat (inode_block m' i k) < 256" by simp_all
qed

lemma write_loop_kept:
  assumes "i < 64" "data_blocks i (disk s)"
  shows "kept (disk s) (disk (snd (write_loop fd i count src done s)))"
  using assms
proof (induction fd i count src "done" s rule: write_loop.induct)
  case (1 fd i count src "done" s)
  let ?pos = "f_offset (fds s fd)"
  have k: "unat (?pos div 4096) = unat ?pos div 4096" by (simp add: unat_div)
  show ?case
  proof (cases "done < count \<and> unat (?pos div 4096) < 8 \<and> write_block i (unat (?pos div 4096)) (disk s) \<noteq> None")
    case False
    then show ?thesis by (subst write_loop.simps) (auto simp: Let_def not_less split: option.splits)
  next
    case True
    then obtain m where m: "write_block i (unat (?pos div 4096)) (disk s) = Some m" by blast
    note w = write_block_kept [OF m "1.prems"(1) _ "1.prems"(2)]
    let ?n = "chunk ?pos count done"
    let ?a = "unat (inode_block m i (unat (?pos div 4096)) * 4096 + ?pos mod 4096)"
    let ?m = "k_memcpy m ?a src (unat done) (unat ?n)"
    have b: "5 \<le> unat (inode_block m i (unat (?pos div 4096)))" "unat (inode_block m i (unat (?pos div 4096))) < 256"
      using w True by simp_all
    have a: "?a = unat (inode_block m i (unat (?pos div 4096))) * 4096 + unat ?pos mod 4096" using b(2) by (rule block_addr)
    have n: "unat ?pos mod 4096 + unat ?n \<le> 4096" using True by (simp add: unat_chunk)
    have r: "20480 \<le> ?a" "?a + unat ?n \<le> 1048576" using b n unfolding a by linarith+
    have "same_on 12288 16384 m ?m"
      by (rule same_onI) (use r in \<open>auto simp: k_memcpy_blit blit_def\<close>)
    then have d: "data_blocks i ?m" using w(2) True "1.prems"(1) by (simp add: data_blocks_cong)
    have "kept (disk s) ?m" using w(1) r True by (intro kept_intros) simp_all
    moreover have "kept ?m (disk (snd (write_loop fd i count src (done + ?n) (set_offset fd (?pos + ?n) (s\<lparr>disk := ?m\<rparr>)))))"
      using "1.IH" [of ?pos "unat (?pos div 4096)" "?pos mod 4096" m ?n ?m] True m d "1.prems"(1)
      by (simp add: set_offset_def)
    ultimately show ?thesis
      using True m by (subst write_loop.simps) (auto simp: Let_def intro: kept_trans)
  qed
qed

lemma fs_write_kept:
  assumes "fs_ok s"
  shows "kept (disk s) (disk (snd (fs_write fd buf count s)))"
proof (cases "fd_invalid fd s \<or> buf = None")
  case False
  then obtain src where src: "buf = Some src" and fd: "0 \<le> fd" "fd < 32" "f_used (fds s (nat fd)) \<noteq> 0"
    by (auto simp: fd_invalid_def)
  let ?i = "unat (f_inode (fds s (nat fd)))"
  have i: "is_file (view (disk s)) ?i" using fs_okD(4) [OF assms] fd by (auto simp: inv_fds_def)
  then have i64: "?i < 64" by (simp add: is_file_def)
  have d: "data_blocks ?i (disk s)"
    unfolding data_blocks_def
  proof (intro allI impI)
    fix k assume k: "k < 8" "inode_block (disk s) ?i k \<noteq> 0"
    have v: "unat (inode_block (disk s) ?i k) = blk (view (disk s)) ?i k" using i64 k(1) by (rule blk_view)
    with k(2) have "blk (view (disk s)) ?i k \<noteq> 0" by (metis unat_eq_zero)
    with inv_blkD(3) [OF fs_okD(2) [OF assms] i, of k] k(1)
    show "5 \<le> unat (inode_block (disk s) ?i k) \<and> unat (inode_block (disk s) ?i k) < 256" unfolding v by simp
  qed
  have "kept (disk s) (disk (snd (write_loop (nat fd) ?i c src 0 s)))" for c
    using i64 d by (rule write_loop_kept)
  then show ?thesis
    using False src i64 by (auto simp: fs_write_def Let_def split_beta intro!: kept_intros)
qed (auto simp: fs_write_def)

section \<open>The operations\<close>

lemma fs_create_kept: "pred_option cstr_ok n \<Longrightarrow> kept (disk s) (disk (snd (fs_create n s)))"
proof (cases n)
  case (Some name)
  assume "pred_option cstr_ok n"
  with Some have name: "cstr_ok name" by simp
  obtain i m where m: "alloc_inode (disk s) = (i, m)" by (metis surj_pair)
  obtain r m' where m': "add_dirent name (of_int i) m = (r, m')" by (metis surj_pair)
  have k: "kept (disk s) m" "i < 64" using alloc_inode_kept [of "disk s"] m by simp_all
  have "kept (disk s) m'" using add_dirent_kept [OF name k(1), of "of_int i"] m' by simp
  with k name show ?thesis
    by (auto simp: Some fs_create_def m m' Let_def inode_name_addr_def inode_addr_def intro!: kept_intros free_inode_kept)
qed (simp add: fs_create_def)

lemma fs_unlink_kept: "kept (disk s) (disk (snd (fs_unlink n s)))"
  by (simp add: fs_unlink_def Let_def remove_dirent_kept free_inode_kept free_blocks_kept)

lemma fs_step_kept:
  assumes "fs_ok s" "op_ok x"
  shows "kept (disk s) (disk (snd (fs_step x s)))"
proof (cases x)
  case (Create n)
  with fs_create_kept [of n s] assms(2) show ?thesis by (simp add: split_beta)
next
  case (Open n)
  then show ?thesis by (simp add: split_beta) (simp add: fs_open_def Let_def split: option.splits)
next
  case (Read fd buf c)
  have "disk (snd (snd (read_loop fd i c d out s))) = disk s" for fd i c d out s
    by (induction fd i c d out s rule: read_loop.induct) (subst read_loop.simps, auto simp: Let_def set_offset_def)
  with Read show ?thesis by (simp add: split_beta) (simp add: fs_read_def Let_def split_beta split: option.splits)
next
  case (Write fd buf c)
  with fs_write_kept [OF assms(1)] show ?thesis by (simp add: split_beta)
next
  case (Close fd)
  then show ?thesis by (simp add: fs_close_def)
next
  case (Unlink n)
  with fs_unlink_kept [of s n] show ?thesis by (simp add: split_beta)
qed

section \<open>Mounting and every sequence of calls\<close>

definition fresh_super :: superblock_t where
  "fresh_super = \<lparr>sb_magic = 0x53454E47, sb_block_size = 4096, sb_total_blocks = 256, sb_inode_count = 64,
     sb_inode_bitmap_block = 1, sb_block_bitmap_block = 2, sb_inode_table_start = 3, sb_data_start = 5\<rparr>"

lemma kept_super: "kept m m' \<Longrightarrow> load_superblock m' = load_superblock m"
  by (simp add: kept_def load_superblock_def rd32_def)

lemma fs_init_super:
  "load_superblock (disk (fst (fs_init s v))) = fresh_super"
  "1048576 \<le> a \<Longrightarrow> disk (fst (fs_init s v)) a = disk s a"
proof -
  let ?m = "wr32 (wr32 (wr32 (wr32 (wr32 (wr32 (wr32 (wr32 (k_memset (disk s) 0 0 1048576)
    0 0x53454E47) 4 4096) 8 256) 12 64) 16 1) 20 2) 24 3) 28 5"
  have "kept ?m (for_do (\<lambda>b m. bit_set m block_bitmap b) 0 FS_DATA_START ?m)"
    by (rule for_do_invariant [where P = "\<lambda>_. kept ?m"]) (auto intro!: kept_intros)
  then have k: "kept ?m (disk (fst (fs_init s v)))"
    unfolding fs_init_def Let_def fst_conv fs.simps
    by (intro kept_intros) (simp_all add: bytes_def cstr_ok_def inode_name_addr_def inode_addr_def)
  show "load_superblock (disk (fst (fs_init s v))) = fresh_super"
    unfolding kept_super [OF k] by (simp add: load_superblock_def fresh_super_def rd32_wr32 rd32_wr32_other)
  show "1048576 \<le> a \<Longrightarrow> disk (fst (fs_init s v)) a = disk s a"
    using k by (simp add: kept_def k_memset_fill fill_at wr32_other)
qed

lemma run_kept: "fs_ok s \<Longrightarrow> list_all op_ok ops \<Longrightarrow> kept (disk s) (disk (snd (run fs_step ops s)))"
proof (induction ops arbitrary: s)
  case (Cons x ops)
  then have "kept (disk s) (disk (snd (fs_step x s)))" "fs_ok (snd (fs_step x s))"
    using fs_step_kept fs_step_sim by simp_all
  with Cons show ?case by (auto simp: split_beta Let_def intro: kept_trans)
qed simp

text \<open>C10. The file system stays on its disk: from the mount on, no sequence of calls with C strings for
  names changes the superblock that \<^verbatim>\<open>fs_init\<close> wrote, and none ever changes a byte behind the 1 MiB of
  the RAM disk.\<close>

theorem fs_stays_on_disk:
  assumes "list_all op_ok ops"
  shows "load_superblock (disk (snd (run fs_step ops (fst (fs_init s v))))) = fresh_super
    \<and> (1048576 \<le> a \<longrightarrow> disk (snd (run fs_step ops (fst (fs_init s v)))) a = disk s a)"
proof -
  have "kept (disk (fst (fs_init s v))) (disk (snd (run fs_step ops (fst (fs_init s v)))))"
    using fs_init_sim assms by (intro run_kept) simp_all
  then show ?thesis
    using fs_init_super [where s = s and v = v] by (simp add: kept_super) (simp add: kept_def)
qed

theorem fs_stays_on_disk_witness:
  "sb_magic (load_superblock (disk (snd (run fs_step
      [Create (Some name_a), Open name_a, Write 0 (Some (\<lambda>_. 7)) 40000, Close 0, Unlink name_a] mounted)))) = 0x53454E47
   \<and> disk (snd (run fs_step
      [Create (Some name_a), Open name_a, Write 0 (Some (\<lambda>_. 7)) 40000, Close 0, Unlink name_a] mounted)) 1048576 = 0xAA"
  using fs_stays_on_disk [of "[Create (Some name_a), Open name_a, Write 0 (Some (\<lambda>_. 7)) 40000, Close 0, Unlink name_a]"
      blank_fs blank_vga 1048576]
  unfolding mounted_def [symmetric] by (simp add: fresh_super_def blank_fs_def del: run.simps)

end
