(* ===== verification/VgaText.thy ===== *)
theory VgaText
  imports Vga
begin

text \<open>
  What \<^verbatim>\<open>vga_printf\<close> prints (\<^verbatim>\<open>kernel/vga.c\<close>): a reference formatter that builds the text from the
  values of the arguments, without screen, words or digit buffer, and the equivalence of the code with
  printing that text character by character.
\<close>

section \<open>The reference formatter\<close>

text \<open>Positional notation of a natural number, highest digit first.\<close>

definition digit_of :: "nat \<Rightarrow> u8" where
  "digit_of d = (if d < 10 then of_nat (0x30 + d) else of_nat (0x61 + (d - 10)))"

fun numeral_in :: "nat \<Rightarrow> nat \<Rightarrow> u8 list" where
  "numeral_in b n = (if n < b \<or> b < 2 then [digit_of n] else numeral_in b (n div b) @ [digit_of (n mod b)])"

declare numeral_in.simps [simp del]

definition signed_text :: "int \<Rightarrow> u8 list" where
  "signed_text i = (if i < 0 then ch CHR ''-'' # numeral_in 10 (nat (- i)) else numeral_in 10 (nat i))"

text \<open>The text of one argument under a conversion character, \<^term>\<open>None\<close> when the argument is not of
  its kind.\<close>

definition conv_text :: "u8 \<Rightarrow> va_arg \<Rightarrow> u8 list option" where
  "conv_text c a =
     (if c = ch CHR ''s'' then map_option (takeWhile (\<lambda>x. x \<noteq> 0)) (va_str a)
      else if c = ch CHR ''c'' then map_option (\<lambda>n. [ucast n]) (va_uint a)
      else if c = ch CHR ''d'' then map_option (\<lambda>n. signed_text (sint n)) (va_uint a)
      else if c = ch CHR ''u'' then map_option (\<lambda>n. numeral_in 10 (unat n)) (va_uint a)
      else map_option (\<lambda>n. numeral_in 16 (unat n)) (va_uint a))"

definition takes_argument :: "u8 \<Rightarrow> bool" where
  "takes_argument c \<longleftrightarrow> c \<in> {ch CHR ''s'', ch CHR ''c'', ch CHR ''d'', ch CHR ''u'', ch CHR ''x''}"

text \<open>The text of a format. It ends at a zero byte; a conversion character that takes no argument stands
  for itself.\<close>

fun format_text :: "u8 list \<Rightarrow> va_arg list \<Rightarrow> u8 list option" where
  "format_text [] args = Some []"
| "format_text (c # fmt) args =
     (if c = 0 then Some []
      else if c \<noteq> ch CHR ''%'' then map_option ((#) c) (format_text fmt args)
      else
        (case fmt of
           [] \<Rightarrow> None
         | d # rest \<Rightarrow>
             if d = 0 then None
             else if takes_argument d then
               (case args of
                  [] \<Rightarrow> None
                | a # args \<Rightarrow>
                    Option.bind (conv_text d a) (\<lambda>t. map_option ((@) t) (format_text rest args)))
             else map_option ((#) d) (format_text rest args)))"

section \<open>The digits\<close>

text \<open>The reference digits denote the number: they are no larger than the base allows and evaluate to it.\<close>

lemma numeral_in_value:
  "2 \<le> b \<Longrightarrow> \<exists>ds. numeral_in b n = map digit_of ds \<and> (\<forall>d \<in> set ds. d < b) \<and> foldl (\<lambda>a d. a * b + d) 0 ds = n"
proof (induction b n rule: numeral_in.induct)
  case (1 b n)
  show ?case
  proof (cases "n < b")
    case True
    then show ?thesis by (intro exI [of _ "[n]"]) (simp add: numeral_in.simps [of b n])
  next
    case False
    with 1 obtain ds where ds: "numeral_in b (n div b) = map digit_of ds" "\<forall>d \<in> set ds. d < b"
      "foldl (\<lambda>a d. a * b + d) 0 ds = n div b" by auto
    with 1(2) False show ?thesis
      by (intro exI [of _ "ds @ [n mod b]"]) (auto simp: numeral_in.simps [of b n])
  qed
qed

lemma digit_char_of: "unat r < 16 \<Longrightarrow> digit_char r = digit_of (unat r)"
proof -
  assume "unat r < 16"
  then have "unat r \<in> set [0..<16]" by simp
  moreover have "\<forall>d \<in> set [0..<16]. digit_char (of_nat d) = digit_of d" by code_simp
  ultimately have "digit_char (of_nat (unat r)) = digit_of (unat r)" by (rule bspec [rotated])
  then show ?thesis by simp
qed

lemma print_uint_buf_numeral:
  assumes "1 < b" "b \<le> 16"
  shows "0 < n \<Longrightarrow> print_uint_buf n b [] = rev (numeral_in (unat b) (unat n))"
proof (induction "unat n" arbitrary: n rule: less_induct)
  case less
  have b: "2 \<le> unat b" "unat b \<le> 16" using assms by (simp_all add: word_less_nat_alt word_le_nat_alt)
  have n: "0 < unat n" using less.prems by (simp add: word_less_nat_alt)
  have "unat (n mod b) < 16"
    unfolding unat_mod by (rule order_less_le_trans [OF mod_less_divisor b(2)]) (use b in simp)
  then have d: "digit_char (n mod b) = digit_of (unat n mod unat b)" by (simp add: digit_char_of unat_mod)
  show ?case
  proof (cases "unat n < unat b")
    case True
    then have "n div b = 0" by (simp add: word_eq_iff_unsigned unat_div flip: unat_eq_zero)
    with True d assms less.prems show ?thesis
      by (simp add: print_uint_buf_step print_uint_buf_0 numeral_in.simps [of "unat b" "unat n"])
  next
    case False
    have q: "unat (n div b) = unat n div unat b" by (rule unat_div)
    have "0 < unat n div unat b" using False b by (simp add: div_greater_zero_iff)
    then have "0 < n div b" by (simp add: word_less_nat_alt q)
    moreover have "unat (n div b) < unat n" unfolding q using b n by (intro div_less_dividend) simp_all
    ultimately have "print_uint_buf (n div b) b [] = rev (numeral_in (unat b) (unat n div unat b))"
      using less.hyps [of "n div b"] by (simp only: q)
    with False d b assms less.prems show ?thesis
      by (simp add: print_uint_buf_step numeral_in.simps [of "unat b" "unat n"])
  qed
qed

lemma print_uint_text:
  assumes "1 < b" "b \<le> 16"
  shows "print_uint n b v = fold vga_putchar (numeral_in (unat b) (unat n)) v"
proof (cases "n = 0")
  case True
  have "2 \<le> unat b" using assms(1) by (simp add: word_less_nat_alt)
  with True show ?thesis by (simp add: print_uint_def numeral_in.simps digit_of_def)
next
  case False
  then show ?thesis
    using print_uint_buf_numeral [OF assms, of n]
    by (simp add: print_uint_def word_gr0_iff foldr_conv_fold)
qed

lemma print_int_text: "print_int n v = fold vga_putchar (signed_text (sint n)) v"
proof (cases "sint n < 0")
  case True
  have "- n = word_of_int (- sint n)" by simp
  then have "uint (- n) = (- sint n) mod 2 ^ 32" by (simp only: uint_word_of_int) simp
  also have "\<dots> = - sint n" using True sint_ge [of n] by (intro mod_pos_pos_trivial) simp_all
  finally have "nat (- sint n) = unat (- n)" by (simp only: unat_eq_nat_uint)
  then show ?thesis using True by (simp add: print_int_def print_uint_text signed_text_def)
next
  case False
  then have "uint n = sint n" using sint_lt [of n] by (simp add: uint_sint take_bit_int_eq_self)
  then have "nat (sint n) = unat n" by (simp only: unat_eq_nat_uint)
  then show ?thesis using False by (simp add: print_int_def print_uint_text signed_text_def)
qed

section \<open>The conversions and the format\<close>

lemma puts_loop_text: "puts_loop s v = fold vga_putchar (takeWhile (\<lambda>x. x \<noteq> 0) s) v"
  by (induction s arbitrary: v) simp_all

lemma printf_conv_plain: "\<not> takes_argument d \<Longrightarrow> printf_conv d args v = Some (args, vga_putchar d v)"
  by (auto simp: printf_conv_def takes_argument_def)

lemma printf_conv_text:
  assumes "takes_argument d"
  shows "printf_conv d [] v = None"
    and "printf_conv d (a # as) v = map_option (\<lambda>t. (as, fold vga_putchar t v)) (conv_text d a)"
  using assms
  by (auto simp: takes_argument_def printf_conv_def conv_text_def vga_puts_def puts_loop_text print_int_text
      print_uint_text option.map_comp o_def)

lemma vga_printf_text:
  "vga_printf fmt args v = map_option (\<lambda>t. fold vga_putchar t v) (format_text fmt args)"
proof (induction fmt args v rule: vga_printf.induct)
  case (3 c d cs args v)
  consider "c = 0" | "c \<noteq> 0" "c \<noteq> ch CHR ''%''" | "c = ch CHR ''%''" "d = 0"
    | "c = ch CHR ''%''" "d \<noteq> 0" "takes_argument d" | "c = ch CHR ''%''" "d \<noteq> 0" "\<not> takes_argument d" by blast
  then show ?case
  proof cases
    case 2
    with 3(1) show ?thesis by (simp add: option.map_comp o_def)
  next
    case 4
    show ?thesis
    proof (cases args)
      case (Cons a as)
      with 4 show ?thesis
        using 3(2) [OF _ _ _ _ refl]
        by (cases "conv_text d a") (simp_all add: printf_conv_text option.map_comp o_def)
    qed (use 4 in \<open>simp add: printf_conv_text\<close>)
  next
    case 5
    then show ?thesis using 3(2) by (simp add: printf_conv_plain option.map_comp o_def)
  qed simp_all
qed simp_all

text \<open>C17. \<^verbatim>\<open>vga_printf\<close> prints, character by character, exactly the text the format denotes: every integer
  in its full decimal or hexadecimal notation, the smallest \<^verbatim>\<open>int\<close> included, every string up to its
  terminator, and unknown conversion characters as themselves. It reads a missing or unsuitable argument
  exactly when the format has no text.\<close>

theorem vga_printf_formats:
  "vga_printf fmt args v = map_option (\<lambda>t. fold vga_putchar t v) (format_text fmt args)"
  by (rule vga_printf_text)

end
