(* ===== verification/VgaRace.thy ===== *)
theory VgaRace
  imports Vga
begin

text \<open>
  Printing without a lock (\<^verbatim>\<open>vga_putchar\<close> of \<^verbatim>\<open>kernel/vga.c\<close>). Processes share the cursor, and the timer can
  preempt one between any two statements. A character is the list of statements that are left to execute;
  \<^verbatim>\<open>cursor_col++\<close> is its load and its store. The scrolling loop and the port writes are single steps. A
  process alone prints as \<^verbatim>\<open>vga_putchar\<close> does; two of them drive the column out of every bound.
\<close>

section \<open>Statements\<close>

datatype vstmt =
  Cell u8 | ColZero | ColLoad | ColStore | ColTab | ColBack | RowInc | WrapTest | ScrollTest | HwCursor

definition putchar_stmts :: "u8 \<Rightarrow> vstmt list" where
  "putchar_stmts c =
     (if c = 0x0A then [ColZero, RowInc]
      else if c = 0x0D then [ColZero]
      else if c = 0x09 then [ColTab, WrapTest]
      else if c = 0x08 then [ColBack, Cell 0x20]
      else [Cell c, ColLoad, ColStore, WrapTest]) @ [ScrollTest, HwCursor]"

text \<open>One statement: what a taken branch adds to the list, the register and the screen.\<close>

fun exec :: "vstmt \<Rightarrow> int \<Rightarrow> vga \<Rightarrow> vstmt list \<times> int \<times> vga" where
  "exec (Cell c) r v = ([], r, vga_write_cell (cursor_row v) (cursor_col v) c (cur_attr v) v)"
| "exec ColZero r v = ([], r, v\<lparr>cursor_col := 0\<rparr>)"
| "exec ColLoad r v = ([], cursor_col v, v)"
| "exec ColStore r v = ([], r, v\<lparr>cursor_col := r + 1\<rparr>)"
| "exec ColTab r v = ([], r, v\<lparr>cursor_col := (cursor_col v + 8) AND NOT 7\<rparr>)"
| "exec ColBack r v = ([], r, if 0 < cursor_col v then v\<lparr>cursor_col := cursor_col v - 1\<rparr> else v)"
| "exec RowInc r v = ([], r, v\<lparr>cursor_row := cursor_row v + 1\<rparr>)"
| "exec WrapTest r v = (if VGA_COLS \<le> cursor_col v then [ColZero, RowInc] else [], r, v)"
| "exec ScrollTest r v = ([], r, if VGA_ROWS \<le> cursor_row v then scroll_up v else v)"
| "exec HwCursor r v = ([], r, update_hw_cursor v)"

section \<open>Printing processes\<close>

text \<open>What a process has left of its current character, its register, and the characters after it.\<close>

record printer =
  todo :: "vstmt list"
  reg :: int
  rest :: "u8 list"

definition print_step :: "printer \<times> vga \<Rightarrow> printer \<times> vga" where
  "print_step = (\<lambda>(p, v).
     case todo p of
       s # ss \<Rightarrow> (let (pre, r, v) = exec s (reg p) v in (p\<lparr>todo := pre @ ss, reg := r\<rparr>, v))
     | [] \<Rightarrow> (case rest p of [] \<Rightarrow> (p, v) | c # cs \<Rightarrow> (p\<lparr>todo := putchar_stmts c, rest := cs\<rparr>, v)))"

text \<open>A schedule names the process that takes each step.\<close>

type_synonym printers = "(nat \<Rightarrow> printer) \<times> vga"

definition turn :: "nat \<Rightarrow> printers \<Rightarrow> printers" where
  "turn i = (\<lambda>(ps, v). let (p, v) = print_step (ps i, v) in (ps(i := p), v))"

definition print_run :: "nat list \<Rightarrow> printers \<Rightarrow> printers" where
  "print_run = fold turn"

section \<open>A process alone\<close>

lemma print_step_simps [simp]:
  "print_step (\<lparr>todo = s # ss, reg = r, rest = cs\<rparr>, v)
     = (\<lparr>todo = fst (exec s r v) @ ss, reg = fst (snd (exec s r v)), rest = cs\<rparr>, snd (snd (exec s r v)))"
  "print_step (\<lparr>todo = [], reg = r, rest = c # cs\<rparr>, v) = (\<lparr>todo = putchar_stmts c, reg = r, rest = cs\<rparr>, v)"
  by (simp_all add: print_step_def split_beta)

lemma print_run_simps [simp]:
  "print_run [] c = c" "print_run (i # sch) c = print_run sch (turn i c)"
  by (simp_all add: print_run_def)

lemma print_run_append: "print_run (sch @ sch') c = print_run sch' (print_run sch c)"
  by (simp add: print_run_def)

text \<open>What a process with nothing to share does until its list is empty.\<close>

inductive finishes :: "vstmt list \<Rightarrow> int \<Rightarrow> vga \<Rightarrow> int \<Rightarrow> vga \<Rightarrow> bool" where
  stop: "finishes [] r v r v"
| more: "finishes (fst (exec s r v) @ ss) (fst (snd (exec s r v))) (snd (snd (exec s r v))) r' v' \<Longrightarrow> finishes (s # ss) r v r' v'"

lemma finishes_run:
  "finishes ss r v r' v' \<Longrightarrow>
     \<exists>n. (print_step ^^ n) (\<lparr>todo = ss, reg = r, rest = cs\<rparr>, v) = (\<lparr>todo = [], reg = r', rest = cs\<rparr>, v')"
proof (induction rule: finishes.induct)
  case (stop r v)
  show ?case by (rule exI [of _ 0]) simp
next
  case (more s r v ss r' v')
  then obtain n where "(print_step ^^ n) (print_step (\<lparr>todo = s # ss, reg = r, rest = cs\<rparr>, v)) = (\<lparr>todo = [], reg = r', rest = cs\<rparr>, v')"
    by auto
  then show ?case by (intro exI [of _ "Suc n"]) (simp add: funpow_swap1)
qed

inductive_simps finishes_simps [simp]: "finishes [] r v r' v'" "finishes (s # ss) r v r' v'"

lemma putchar_finishes: "\<exists>r'. finishes (putchar_stmts c) r v r' (vga_putchar c v)"
  by (auto simp: putchar_stmts_def vga_putchar_def wrap_col_def Let_def vga_write_cell_def)

text \<open>The list of statements is \<^verbatim>\<open>vga_putchar\<close>: a process that is not interrupted puts every character of
  its text on the screen exactly as the function does.\<close>

theorem print_alone:
  "\<exists>n r'. (print_step ^^ n) (\<lparr>todo = [], reg = r, rest = cs\<rparr>, v) = (\<lparr>todo = [], reg = r', rest = []\<rparr>, fold vga_putchar cs v)"
proof (induction cs arbitrary: r v)
  case Nil
  show ?case by (rule exI [of _ 0]) simp
next
  case (Cons c cs)
  obtain r1 where "finishes (putchar_stmts c) r v r1 (vga_putchar c v)" using putchar_finishes by blast
  from finishes_run [OF this] obtain n where
    n: "(print_step ^^ n) (\<lparr>todo = putchar_stmts c, reg = r, rest = cs\<rparr>, v) = (\<lparr>todo = [], reg = r1, rest = cs\<rparr>, vga_putchar c v)"
    by blast
  obtain m r' where
    m: "(print_step ^^ m) (\<lparr>todo = [], reg = r1, rest = cs\<rparr>, vga_putchar c v) = (\<lparr>todo = [], reg = r', rest = []\<rparr>, fold vga_putchar cs (vga_putchar c v))"
    using Cons.IH by blast
  have "(print_step ^^ (m + (n + 1))) (\<lparr>todo = [], reg = r, rest = c # cs\<rparr>, v)
      = (\<lparr>todo = [], reg = r', rest = []\<rparr>, fold vga_putchar (c # cs) v)"
    unfolding funpow_add o_apply using n m by simp
  then show ?case by blast
qed

section \<open>Two processes\<close>

definition plain :: "u8 \<Rightarrow> bool" where
  "plain c \<longleftrightarrow> c \<notin> {0x08, 0x09, 0x0A, 0x0D}"

lemma plain_stmts: "plain c \<Longrightarrow> putchar_stmts c = [Cell c, ColLoad, ColStore, WrapTest, ScrollTest, HwCursor]"
  by (simp add: putchar_stmts_def plain_def)

lemma turn_step: "turn i (ps, v) = (ps(i := fst (print_step (ps i, v))), snd (print_step (ps i, v)))"
  by (simp add: turn_def split_beta)

text \<open>One round: process \<open>i\<close> stores its character and loads the column; \<open>j\<close>, which found the column at 80 or
  more, wraps and scrolls; \<open>i\<close> stores the old column plus one.\<close>

lemma drift_round:
  assumes "ps i = \<lparr>todo = [], reg = r, rest = c # cs\<rparr>" "ps j = \<lparr>todo = [WrapTest, ScrollTest, HwCursor], reg = r', rest = ds\<rparr>"
    and "i \<noteq> j" "plain c" "cursor_row v = 24" "80 \<le> cursor_col v"
  shows "\<exists>sch v'. print_run sch (ps, v) = (ps(i := \<lparr>todo = [WrapTest, ScrollTest, HwCursor], reg = cursor_col v, rest = cs\<rparr>,
       j := \<lparr>todo = [], reg = r', rest = ds\<rparr>), v')
     \<and> cursor_row v' = 24 \<and> cursor_col v' = cursor_col v + 1 \<and> cur_attr v' = cur_attr v"
  by (rule exI [of _ "[i, i, i, j, j, j, j, j, i]"])
    (use assms in \<open>simp add: turn_step plain_stmts vga_write_cell_def scroll_up_closed fun_upd_twist\<close>)

lemma drift:
  "ps i = \<lparr>todo = [], reg = r, rest = xs\<rparr> \<Longrightarrow> ps j = \<lparr>todo = [WrapTest, ScrollTest, HwCursor], reg = r', rest = ys\<rparr> \<Longrightarrow>
     i \<noteq> j \<Longrightarrow> \<forall>c \<in> set xs \<union> set ys. plain c \<Longrightarrow> n < length xs \<Longrightarrow> n \<le> length ys \<Longrightarrow>
     cursor_row v = 24 \<Longrightarrow> 80 \<le> cursor_col v \<Longrightarrow>
     \<exists>sch. \<exists>c \<in> set xs \<union> set ys. cells (snd (print_run sch (ps, v))) (1920 + cursor_col v + int n) = cell (cur_attr v) c"
proof (induction n arbitrary: ps i j r r' xs ys v)
  case 0
  then obtain c cs where xs: "xs = c # cs" by (cases xs) auto
  then show ?case
    by (intro exI [of _ "[i, i]"] bexI [of _ c])
      (use 0 in \<open>simp_all add: turn_step plain_stmts vga_write_cell_def\<close>)
next
  case (Suc n)
  then obtain c cs where xs: "xs = c # cs" by (cases xs) auto
  obtain sch v' where a: "print_run sch (ps, v) = (ps(i := \<lparr>todo = [WrapTest, ScrollTest, HwCursor], reg = cursor_col v, rest = cs\<rparr>,
       j := \<lparr>todo = [], reg = r', rest = ys\<rparr>), v')"
    and v': "cursor_row v' = 24" "cursor_col v' = cursor_col v + 1" "cur_attr v' = cur_attr v"
    using drift_round [of ps i r c cs j r' ys v] Suc.prems xs by auto
  let ?ps = "ps(i := \<lparr>todo = [WrapTest, ScrollTest, HwCursor], reg = cursor_col v, rest = cs\<rparr>,
       j := \<lparr>todo = [], reg = r', rest = ys\<rparr>)"
  have "\<exists>sch'. \<exists>c \<in> set ys \<union> set cs. cells (snd (print_run sch' (?ps, v'))) (1920 + cursor_col v' + int n) = cell (cur_attr v') c"
    by (rule Suc.IH [of ?ps j r' ys i "cursor_col v" cs v']) (use Suc.prems xs v' in auto)
  then obtain sch' d where d: "d \<in> set ys \<union> set cs"
    "cells (snd (print_run sch' (?ps, v'))) (1920 + cursor_col v' + int n) = cell (cur_attr v') d" by blast
  show ?case
    by (intro exI [of _ "sch @ sch'"] bexI [of _ d])
      (use d v' xs in \<open>auto simp: print_run_append a add_ac\<close>)
qed

text \<open>C14. Printing is not safe under preemption: from the last cell of the screen, two processes that print plain
  texts of more than \<open>n\<close> characters can be scheduled such that a character is stored \<open>n\<close> cells behind the
  end of the frame buffer, however large \<open>n\<close> is.\<close>

theorem vga_putchar_races:
  assumes "i \<noteq> j" "ps i = \<lparr>todo = [], reg = r, rest = xs\<rparr>" "ps j = \<lparr>todo = [], reg = r', rest = ys\<rparr>"
    and "\<forall>c \<in> set xs \<union> set ys. plain c" "n < length xs" "n < length ys"
    and "cursor_row v = 24" "cursor_col v = 79"
  shows "\<exists>sch. \<exists>c \<in> set xs \<union> set ys. cells (snd (print_run sch (ps, v))) (2000 + int n) = cell (cur_attr v) c"
proof -
  obtain c cs where ys: "ys = c # cs" using assms(6) by (cases ys) auto
  then have c: "plain c" using assms(4) by simp
  let ?ps = "ps(j := \<lparr>todo = [WrapTest, ScrollTest, HwCursor], reg = 79, rest = cs\<rparr>)"
  have "\<exists>v'. print_run [j, j, j, j] (ps, v) = (?ps, v') \<and> cursor_row v' = 24 \<and> cursor_col v' = 80 \<and> cur_attr v' = cur_attr v"
    using assms(3,7,8) ys c by (simp add: turn_step plain_stmts vga_write_cell_def)
  then obtain sch0 v' where a: "print_run sch0 (ps, v) = (?ps, v')"
    and v': "cursor_row v' = 24" "cursor_col v' = 80" "cur_attr v' = cur_attr v" by blast
  have "\<exists>sch. \<exists>c \<in> set xs \<union> set cs. cells (snd (print_run sch (?ps, v'))) (1920 + cursor_col v' + int n) = cell (cur_attr v') c"
    by (rule drift [of ?ps i r xs j 79 cs n v']) (use assms ys v' in auto)
  then obtain sch d where d: "d \<in> set xs \<union> set cs"
    "cells (snd (print_run sch (?ps, v'))) (2000 + int n) = cell (cur_attr v) d" by (auto simp: v')
  show ?thesis
    by (intro exI [of _ "sch0 @ sch"] bexI [of _ d]) (use d ys in \<open>auto simp: print_run_append a\<close>)
qed

text \<open>What the two demonstration tasks print, \<^verbatim>\<open>[A]\<close> and \<^verbatim>\<open>[B]\<close> five times each, reaches 19 cells behind the
  buffer.\<close>

definition demo_texts :: "nat \<Rightarrow> printer" where
  "demo_texts i = \<lparr>todo = [], reg = 0, rest = if i = 1 then bytes ''[A] [A] [A] [A] [A] '' else bytes ''[B] [B] [B] [B] [B] ''\<rparr>"

theorem vga_putchar_races_witness:
  "\<exists>sch. \<exists>c \<in> {0x5B, 0x41, 0x42, 0x5D, 0x20}. cells (snd (print_run sch (demo_texts, blank_vga))) 2019 = cell 7 c"
proof -
  have t: "set (bytes ''[A] [A] [A] [A] [A] '') \<union> set (bytes ''[B] [B] [B] [B] [B] '') = {0x5B, 0x41, 0x42, 0x5D, 0x20}"
    by (auto simp: bytes_def)
  have "\<exists>sch. \<exists>c \<in> set (bytes ''[A] [A] [A] [A] [A] '') \<union> set (bytes ''[B] [B] [B] [B] [B] '').
      cells (snd (print_run sch (demo_texts, blank_vga))) (2000 + int 19) = cell (cur_attr blank_vga) c"
    by (rule vga_putchar_races [of 1 2]) (simp_all only: t, simp_all add: demo_texts_def blank_vga_def plain_def)
  then show ?thesis unfolding t by (simp add: blank_vga_def)
qed

end
