(* ===== verification/Process.thy ===== *)
theory Process
  imports Cstr
begin

text \<open>
  The process table (\<^verbatim>\<open>kernel/process.c\<close>, \<^verbatim>\<open>kernel/process.h\<close>): sixteen control blocks, the pid of the
  running process, and the memory that holds the stacks. The address of the static array \<^verbatim>\<open>stacks\<close>
  is a link-time constant, so it is an argument; the address of a process's entry function is too.
\<close>

section \<open>State\<close>

datatype process_state =
  PROCESS_FREE | PROCESS_READY | PROCESS_RUNNING | PROCESS_BLOCKED | PROCESS_TERMINATED

instantiation process_state :: enum
begin

definition enum_process_state :: "process_state list" where
  "enum_process_state = [PROCESS_FREE, PROCESS_READY, PROCESS_RUNNING, PROCESS_BLOCKED, PROCESS_TERMINATED]"

definition enum_all_process_state :: "(process_state \<Rightarrow> bool) \<Rightarrow> bool" where
  "enum_all_process_state P \<longleftrightarrow> list_all P enum_class.enum"

definition enum_ex_process_state :: "(process_state \<Rightarrow> bool) \<Rightarrow> bool" where
  "enum_ex_process_state P \<longleftrightarrow> list_ex P enum_class.enum"

instance
proof
  have u: "x \<in> set enum_class.enum" for x :: process_state by (cases x) (simp_all add: enum_process_state_def)
  then show "(UNIV :: process_state set) = set enum_class.enum" by blast
  show "distinct (enum_class.enum :: process_state list)" by (simp add: enum_process_state_def)
  show "enum_class.enum_all P \<longleftrightarrow> Ball UNIV P" "enum_class.enum_ex P \<longleftrightarrow> Bex UNIV P" for P :: "process_state \<Rightarrow> bool"
    using u by (auto simp: enum_all_process_state_def enum_ex_process_state_def list_all_iff list_ex_iff)
qed

end

record pcb =
  pid :: u32
  state :: process_state
  esp :: u32
  stack :: u32
  name :: memory

record procs =
  process_table :: "pcb list"
  current_pid :: u32
  ram :: memory

abbreviation (input) MAX_PROCESSES :: nat where "MAX_PROCESSES \<equiv> 16"
abbreviation (input) STACK_SIZE :: u32 where "STACK_SIZE \<equiv> 4096"

section \<open>Operations\<close>

text \<open>\<^verbatim>\<open>i\<close> and \<^verbatim>\<open>n\<close> are unsigned: the bound \<^verbatim>\<open>n - 1\<close> wraps for \<^verbatim>\<open>n = 0\<close>.\<close>

function proc_strncpy_from :: "memory \<Rightarrow> cstr \<Rightarrow> u32 \<Rightarrow> nat \<Rightarrow> memory" where
  "proc_strncpy_from dst src n i =
     (if i < unat (n - 1) \<and> c_at src i \<noteq> 0
      then proc_strncpy_from (wr8 dst i (c_at src i)) src n (i + 1)
      else wr8 dst i 0)"
  by pat_completeness auto
termination
  by (relation "measure (\<lambda>(dst, src, n, i). unat (n - 1) - i)") auto

declare proc_strncpy_from.simps [simp del]

definition proc_strncpy :: "memory \<Rightarrow> cstr \<Rightarrow> u32 \<Rightarrow> memory" where
  "proc_strncpy dst src n = proc_strncpy_from dst src n 0"

text \<open>A control block of zero bytes, which \<^verbatim>\<open>k_memset\<close> over the table leaves in every slot.\<close>

definition zero_pcb :: pcb where
  "zero_pcb = \<lparr>pid = 0, state = PROCESS_FREE, esp = 0, stack = 0, name = \<lambda>_. 0\<rparr>"

definition set_pcb :: "nat \<Rightarrow> (pcb \<Rightarrow> pcb) \<Rightarrow> 'a procs_scheme \<Rightarrow> 'a procs_scheme" where
  "set_pcb i f s = s\<lparr>process_table := (process_table s)[i := f (process_table s ! i)]\<rparr>"

definition process_init :: "'a procs_scheme \<Rightarrow> 'a procs_scheme" where
  "process_init s =
     (let s = s\<lparr>process_table := replicate MAX_PROCESSES zero_pcb\<rparr>;
          s = set_pcb 0 (\<lambda>p. p\<lparr>pid := 0\<rparr>) s;
          s = set_pcb 0 (\<lambda>p. p\<lparr>state := PROCESS_RUNNING\<rparr>) s;
          s = set_pcb 0 (\<lambda>p. p\<lparr>stack := 0x90000\<rparr>) s;
          s = set_pcb 0 (\<lambda>p. p\<lparr>name := proc_strncpy (name p) (bytes ''kernel'') 32\<rparr>) s
      in s\<lparr>current_pid := 0\<rparr>)"

text \<open>\<^verbatim>\<open>*(--stack_top) = v\<close>\<close>

definition push :: "u32 \<Rightarrow> u32 \<times> memory \<Rightarrow> u32 \<times> memory" where
  "push v = (\<lambda>(stack_top, m). (stack_top - 4, wr32 m (unat (stack_top - 4)) v))"

definition initial_frame :: "u32 \<Rightarrow> u32 \<times> memory \<Rightarrow> u32 \<times> memory" where
  "initial_frame entry t =
     (let t = push entry t;
          t = push 0 t; t = push 0 t; t = push 0 t; t = push 0 t;
          t = push 0 t; t = push 0 t; t = push 0 t
      in push 0 t)"

definition process_create :: "u32 \<Rightarrow> cstr \<Rightarrow> u32 \<Rightarrow> 'a procs_scheme \<Rightarrow> int \<times> 'a procs_scheme" where
  "process_create stacks nm entry s =
     (case for_find (\<lambda>i. state (process_table s ! i) = PROCESS_FREE) 1 MAX_PROCESSES of
        None \<Rightarrow> (-1, s)
      | Some slot \<Rightarrow>
          (let base = stacks + of_nat slot * STACK_SIZE;
               (stack_top, m) = initial_frame entry (base + STACK_SIZE, ram s);
               s = s\<lparr>ram := m\<rparr>;
               s = set_pcb slot (\<lambda>p. p\<lparr>pid := of_nat slot\<rparr>) s;
               s = set_pcb slot (\<lambda>p. p\<lparr>state := PROCESS_READY\<rparr>) s;
               s = set_pcb slot (\<lambda>p. p\<lparr>esp := stack_top\<rparr>) s;
               s = set_pcb slot (\<lambda>p. p\<lparr>stack := base\<rparr>) s;
               s = set_pcb slot (\<lambda>p. p\<lparr>name := proc_strncpy (name p) nm 32\<rparr>) s
           in (int slot, s)))"

definition process_terminate :: "u32 \<Rightarrow> 'a procs_scheme \<Rightarrow> 'a procs_scheme" where
  "process_terminate p s =
     (if p = 0 \<or> 16 \<le> p then s else set_pcb (unat p) (\<lambda>q. q\<lparr>state := PROCESS_TERMINATED\<rparr>) s)"

section \<open>Accesses to the table\<close>

lemma set_pcb_simps [simp]:
  "length (process_table (set_pcb i f s)) = length (process_table s)"
  "ram (set_pcb i f s) = ram s" "current_pid (set_pcb i f s) = current_pid s"
  "i < length (process_table s) \<Longrightarrow> set_pcb i g (set_pcb i f s) = set_pcb i (\<lambda>p. g (f p)) s"
  by (simp_all add: set_pcb_def)

lemma set_pcb_at [simp]:
  "i < length (process_table s) \<Longrightarrow>
     process_table (set_pcb i f s) ! j = (if j = i then f (process_table s ! j) else process_table s ! j)"
  by (simp add: set_pcb_def)

lemma set_pcb_field:
  "(\<And>p. g (f p) = g p) \<Longrightarrow> g (process_table (set_pcb i f s) ! j) = g (process_table s ! j)"
  by (cases "i < length (process_table s)") (simp_all add: set_pcb_def nth_list_update list_update_beyond)

section \<open>The name\<close>

lemma proc_strncpy_from_put:
  "cstr_ok src \<Longrightarrow> i \<le> unat (n - 1) \<Longrightarrow>
     proc_strncpy_from dst src n i = put_str dst i (take (unat (n - 1) - i) (drop i src))"
proof (induction dst src n i rule: proc_strncpy_from.induct)
  case (1 dst src n i)
  show ?case
  proof (cases "i < unat (n - 1) \<and> c_at src i \<noteq> 0")
    case True
    then have lt: "i < length src" using "1.prems" by (simp add: c_at_0_iff)
    obtain k where k: "unat (n - 1) - i = Suc k" using True by (metis Suc_diff_Suc)
    then have k': "unat (n - 1) - (i + 1) = k" by simp
    have "proc_strncpy_from dst src n i = put_str (wr8 dst i (c_at src i)) (i + 1) (take k (drop (i + 1) src))"
      using True "1.IH" "1.prems" k' by (subst proc_strncpy_from.simps) simp
    also have "\<dots> = put_str dst i (c_at src i # take k (drop (i + 1) src))"
      by (simp add: put_str_Cons)
    also have "c_at src i # take k (drop (i + 1) src) = take (unat (n - 1) - i) (drop i src)"
      using lt by (simp add: k c_at_def Cons_nth_drop_Suc [symmetric])
    finally show ?thesis .
  next
    case False
    then have "take (unat (n - 1) - i) (drop i src) = []"
      using "1.prems" by (auto simp: c_at_0_iff)
    with False show ?thesis by (subst proc_strncpy_from.simps) (auto simp: put_str_Nil)
  qed
qed

lemma proc_strncpy_32: "cstr_ok src \<Longrightarrow> proc_strncpy dst src 32 = put_str dst 0 (take 31 src)"
  by (simp add: proc_strncpy_def proc_strncpy_from_put)

section \<open>The initial stack frame\<close>

text \<open>What \<^verbatim>\<open>context_switch\<close> finds at the saved stack pointer: eight zero registers for POPAD and the
  entry point for RET.\<close>

definition fresh_frame :: "memory \<Rightarrow> nat \<Rightarrow> u32 \<Rightarrow> bool" where
  "fresh_frame m q entry \<longleftrightarrow> (\<forall>k < 8. rd32 m (q + 4 * k) = 0) \<and> rd32 m (q + 32) = entry"

lemma initial_frame_eq:
  assumes "unat sp = q + 36"
  shows "initial_frame entry (sp, m) =
    (sp - 36, wr32 (wr32 (wr32 (wr32 (wr32 (wr32 (wr32 (wr32 (wr32 m (q + 32) entry) (q + 28) 0)
       (q + 24) 0) (q + 20) 0) (q + 16) 0) (q + 12) 0) (q + 8) 0) (q + 4) 0) q 0)"
proof -
  have d: "unat (sp - 4) = q + 32" "unat (sp - 8) = q + 28" "unat (sp - 12) = q + 24" "unat (sp - 16) = q + 20"
    "unat (sp - 20) = q + 16" "unat (sp - 24) = q + 12" "unat (sp - 28) = q + 8" "unat (sp - 32) = q + 4"
    "unat (sp - 36) = q"
    by (simp_all add: unat_minus_small assms)
  show ?thesis by (simp add: initial_frame_def push_def d)
qed

lemma initial_frame_correct:
  assumes "unat sp = q + 36" "initial_frame entry (sp, m) = (sp', m')"
  shows "sp' = sp - 36" "unat sp' = q" "fresh_frame m' q entry"
    "\<And>a. a < q \<or> q + 36 \<le> a \<Longrightarrow> m' a = m a"
proof -
  note eq = assms(2) [unfolded initial_frame_eq [OF assms(1)] prod.inject]
  show "sp' = sp - 36" using eq by simp
  with assms(1) show "unat sp' = q" by (simp add: unat_minus_small)
  have "\<forall>k \<in> set [0..<8]. rd32 m' (q + 4 * k) = 0"
    unfolding conjunct2 [OF eq, symmetric] by (simp add: upt_rec mem_simps)
  moreover have "rd32 m' (q + 32) = entry"
    unfolding conjunct2 [OF eq, symmetric] by (simp add: mem_simps)
  ultimately show "fresh_frame m' q entry" by (simp add: fresh_frame_def)
  show "m' a = m a" if "a < q \<or> q + 36 \<le> a" for a
    unfolding conjunct2 [OF eq, symmetric] using that by (elim disjE) (simp_all add: mem_simps)
qed

section \<open>Creating a process\<close>

text \<open>The lowest free slot.\<close>

definition first_free :: "'a procs_scheme \<Rightarrow> nat option" where
  "first_free s = for_find (\<lambda>i. state (process_table s ! i) = PROCESS_FREE) 1 MAX_PROCESSES"

lemma slot_base:
  assumes "unat (stacks :: u32) + 65536 < 2 ^ 32" "slot < 16" "unat (n :: u32) \<le> 4096"
  shows "unat (stacks + of_nat slot * 4096 + n) = unat stacks + 4096 * slot + unat n"
proof -
  have s: "unat (of_nat slot * 4096 :: u32) = 4096 * slot"
    using assms(2) by (simp add: unat_word_ariths unat_of_nat)
  have "unat (stacks + of_nat slot * 4096) = unat stacks + 4096 * slot"
    using assms s by (subst unat_add_small) auto
  then show ?thesis using assms by (subst unat_add_small) auto
qed

lemma process_create_Some:
  assumes "first_free s = Some slot" "length (process_table s) = 16"
  shows "\<exists>e m. process_create stacks nm entry s = (int slot, set_pcb slot
    (\<lambda>p. p\<lparr>pid := of_nat slot, state := PROCESS_READY, esp := e, stack := stacks + of_nat slot * 4096,
       name := proc_strncpy (name p) nm 32\<rparr>) (s\<lparr>ram := m\<rparr>))"
proof -
  have "slot < 16" using assms(1) by (simp add: first_free_def loop_simps)
  obtain e m where "initial_frame entry (stacks + of_nat slot * 4096 + 4096, ram s) = (e, m)"
    by (metis surj_pair)
  with assms \<open>slot < 16\<close> have "process_create stacks nm entry s = (int slot, set_pcb slot
    (\<lambda>p. p\<lparr>pid := of_nat slot, state := PROCESS_READY, esp := e, stack := stacks + of_nat slot * 4096,
       name := proc_strncpy (name p) nm 32\<rparr>) (s\<lparr>ram := m\<rparr>))"
    by (simp add: process_create_def first_free_def Let_def)
  then show ?thesis by blast
qed

lemma process_create_slot:
  assumes "first_free s = Some slot" "length (process_table s) = 16"
    "unat stacks + 65536 < 2 ^ 32" "cstr_ok nm"
  shows "\<exists>m. process_create stacks nm entry s =
    (int slot, set_pcb slot (\<lambda>p. p\<lparr>pid := of_nat slot, state := PROCESS_READY,
        esp := stacks + of_nat slot * 4096 + 4060, stack := stacks + of_nat slot * 4096,
        name := put_str (name p) 0 (take 31 nm)\<rparr>) (s\<lparr>ram := m\<rparr>))
    \<and> fresh_frame m (unat stacks + 4096 * slot + 4060) entry
    \<and> (\<forall>a. a < unat stacks + 4096 * slot + 4060 \<or> unat stacks + 4096 * slot + 4096 \<le> a \<longrightarrow> m a = ram s a)"
proof -
  have slot: "1 \<le> slot" "slot < 16" using assms(1) by (auto simp: first_free_def loop_simps)
  obtain sp m where f: "initial_frame entry (stacks + of_nat slot * 4096 + 4096, ram s) = (sp, m)"
    by (metis surj_pair)
  have end_of_stack: "unat (stacks + of_nat slot * 4096 + 4096) = unat stacks + 4096 * slot + 4060 + 36"
    using slot_base [OF assms(3) slot(2), of 4096] by simp
  note frame = initial_frame_correct [OF end_of_stack f]
  show ?thesis
    by (rule exI [of _ m])
      (use assms slot f frame in \<open>simp add: process_create_def first_free_def Let_def proc_strncpy_32 add_ac\<close>)
qed

lemma process_create_none: "first_free s = None \<Longrightarrow> process_create stacks nm entry s = (-1, s)"
  by (simp add: process_create_def first_free_def)

text \<open>C35. Creating a process takes the lowest free slot: its control block gets the slot number, READY,
  the slot's own 4 KiB stack and the name cut to 31 bytes; the saved stack pointer is 36 bytes below
  the end of that stack, where eight zero registers and the entry point lie; no other control
  block and no other byte of memory changes.\<close>

theorem process_create_correct:
  assumes "length (process_table s) = 16" "unat stacks + 65536 < 2 ^ 32" "cstr_ok nm"
    "1 \<le> slot" "slot < 16" "state (process_table s ! slot) = PROCESS_FREE"
    "\<forall>j. 1 \<le> j \<and> j < slot \<longrightarrow> state (process_table s ! j) \<noteq> PROCESS_FREE"
  shows "\<exists>t. process_create stacks nm entry s = (int slot, t) \<and> current_pid t = current_pid s
     \<and> process_table t = (process_table s)[slot := (process_table s ! slot)
          \<lparr>pid := of_nat slot, state := PROCESS_READY, esp := stacks + of_nat slot * 4096 + 4060,
           stack := stacks + of_nat slot * 4096, name := put_str (name (process_table s ! slot)) 0 (take 31 nm)\<rparr>]
     \<and> fresh_frame (ram t) (unat stacks + 4096 * slot + 4060) entry
     \<and> (\<forall>a. a < unat stacks + 4096 * slot + 4060 \<or> unat stacks + 4096 * slot + 4096 \<le> a
           \<longrightarrow> ram t a = ram s a)"
proof -
  have "first_free s = Some slot" using assms(4-7) by (simp add: first_free_def loop_simps)
  from process_create_slot [OF this assms(1-3), of entry] show ?thesis
    by (elim exE conjE) (rule exI, intro conjI, assumption, simp_all add: set_pcb_def)
qed

text \<open>Creation fails with -1 exactly when none of the slots 1 to 15 is free, and then it changes
  nothing.\<close>

theorem process_create_full:
  "(fst (process_create stacks nm entry s) = -1 \<longleftrightarrow>
      (\<forall>i. 1 \<le> i \<and> i < 16 \<longrightarrow> state (process_table s ! i) \<noteq> PROCESS_FREE))
   \<and> (fst (process_create stacks nm entry s) = -1 \<longrightarrow> snd (process_create stacks nm entry s) = s)"
proof -
  have "first_free s = None \<longleftrightarrow> (\<forall>i. 1 \<le> i \<and> i < 16 \<longrightarrow> state (process_table s ! i) \<noteq> PROCESS_FREE)"
    by (simp add: first_free_def loop_simps)
  moreover have "fst (process_create stacks nm entry s) \<noteq> -1" if "first_free s = Some slot" for slot
    using that by (simp add: process_create_def first_free_def Let_def split: prod.splits)
  ultimately show ?thesis
    by (cases "first_free s") (auto simp: process_create_none)
qed

definition boot_procs :: procs where
  "boot_procs = process_init \<lparr>process_table = [], current_pid = 7, ram = \<lambda>_. 0xFF\<rparr>"

lemma boot_procs_table: "process_table boot_procs = (replicate 16 zero_pcb)
    [0 := zero_pcb\<lparr>state := PROCESS_RUNNING, stack := 0x90000, name := proc_strncpy (\<lambda>_. 0) (bytes ''kernel'') 32\<rparr>]"
  by (simp add: boot_procs_def process_init_def set_pcb_def Let_def zero_pcb_def)

theorem process_create_correct_witness:
  "\<exists>t. process_create 0x20000 (bytes ''task_a'') 0x10234 boot_procs = (1, t)
     \<and> state (process_table t ! 1) = PROCESS_READY \<and> rd32 (ram t) (0x20000 + 8188) = 0x10234"
proof -
  have "length (process_table boot_procs) = 16" "state (process_table boot_procs ! 1) = PROCESS_FREE"
    by (simp_all add: boot_procs_table zero_pcb_def)
  with process_create_correct [of boot_procs "0x20000" "bytes ''task_a''" 1 "0x10234"] show ?thesis
    by (auto simp: fresh_frame_def cstr_ok_def bytes_def)
qed

theorem process_create_full_witness:
  "process_create 0x20000 (bytes ''x'') 0x10234 (boot_procs\<lparr>process_table := replicate 16 (zero_pcb\<lparr>state := PROCESS_BLOCKED\<rparr>)\<rparr>)
     = (-1, boot_procs\<lparr>process_table := replicate 16 (zero_pcb\<lparr>state := PROCESS_BLOCKED\<rparr>)\<rparr>)"
  using process_create_full [of "0x20000" "bytes ''x''" "0x10234" "boot_procs\<lparr>process_table := replicate 16 (zero_pcb\<lparr>state := PROCESS_BLOCKED\<rparr>)\<rparr>"]
  by (simp add: prod_eq_iff)

end
