(* ===== verification/Switch.thy ===== *)
theory Switch
  imports Process
begin

text \<open>
  The context switch (\<^verbatim>\<open>kernel/switch.asm\<close>): the registers of the processor, the instructions the
  routine uses, and the routine itself. It is what gives \<^verbatim>\<open>process_create\<close>'s stack frame its meaning.
\<close>

section \<open>The processor\<close>

record cpu =
  eax :: u32
  ecx :: u32
  edx :: u32
  ebx :: u32
  cpu_esp :: u32
  ebp :: u32
  esi :: u32
  edi :: u32
  eip :: u32
  intr :: bool

type_synonym machine = "cpu \<times> memory"

definition push32 :: "u32 \<Rightarrow> machine \<Rightarrow> machine" where
  "push32 v = (\<lambda>(c, m). (c\<lparr>cpu_esp := cpu_esp c - 4\<rparr>, wr32 m (unat (cpu_esp c - 4)) v))"

definition pop32 :: "machine \<Rightarrow> u32 \<times> machine" where
  "pop32 = (\<lambda>(c, m). (rd32 m (unat (cpu_esp c)), c\<lparr>cpu_esp := cpu_esp c + 4\<rparr>, m))"

definition pushad :: "machine \<Rightarrow> machine" where
  "pushad = (\<lambda>(c, m).
     push32 (edi c) (push32 (esi c) (push32 (ebp c) (push32 (cpu_esp c)
       (push32 (ebx c) (push32 (edx c) (push32 (ecx c) (push32 (eax c) (c, m)))))))))"

definition popad :: "machine \<Rightarrow> machine" where
  "popad s =
     (let (v, c, m) = pop32 s; c = c\<lparr>edi := v\<rparr>;
          (v, c, m) = pop32 (c, m); c = c\<lparr>esi := v\<rparr>;
          (v, c, m) = pop32 (c, m); c = c\<lparr>ebp := v\<rparr>;
          (v, c, m) = pop32 (c, m);
          (v, c, m) = pop32 (c, m); c = c\<lparr>ebx := v\<rparr>;
          (v, c, m) = pop32 (c, m); c = c\<lparr>edx := v\<rparr>;
          (v, c, m) = pop32 (c, m); c = c\<lparr>ecx := v\<rparr>;
          (v, c, m) = pop32 (c, m)
      in (c\<lparr>eax := v\<rparr>, m))"

definition ret :: "machine \<Rightarrow> machine" where
  "ret s = (let (v, c, m) = pop32 s in (c\<lparr>eip := v\<rparr>, m))"

text \<open>The store through \<^verbatim>\<open>old_esp\<close> goes to the process table, which is a record here, so the routine
  returns it as the pair of the address and the value stored.\<close>

definition context_switch :: "machine \<Rightarrow> (u32 \<times> u32) \<times> machine" where
  "context_switch s =
     (let (c, m) = pushad s;
          c = c\<lparr>eax := rd32 m (unat (cpu_esp c + 36))\<rparr>;
          stored = (eax c, cpu_esp c);
          c = c\<lparr>cpu_esp := rd32 m (unat (cpu_esp c + 40))\<rparr>;
          (c, m) = popad (c, m);
          c = c\<lparr>intr := True\<rparr>
      in (stored, ret (c, m)))"

section \<open>Saved register frames\<close>

definition saved_frame :: "cpu \<Rightarrow> memory \<Rightarrow> nat \<Rightarrow> bool" where
  "saved_frame c m q \<longleftrightarrow> rd32 m q = edi c \<and> rd32 m (q + 4) = esi c \<and> rd32 m (q + 8) = ebp c
     \<and> rd32 m (q + 16) = ebx c \<and> rd32 m (q + 20) = edx c \<and> rd32 m (q + 24) = ecx c \<and> rd32 m (q + 28) = eax c"

definition load_frame :: "cpu \<Rightarrow> cpu \<Rightarrow> cpu" where
  "load_frame c0 c = c\<lparr>eax := eax c0, ecx := ecx c0, edx := edx c0, ebx := ebx c0,
     cpu_esp := cpu_esp c + 32, ebp := ebp c0, esi := esi c0, edi := edi c0\<rparr>"

lemma pushad_saved:
  assumes "unat (cpu_esp c) = q + 32" "pushad (c, m) = (c', m')"
  shows "c' = c\<lparr>cpu_esp := cpu_esp c - 32\<rparr>" "saved_frame c m' q"
    "\<And>a. a < q \<or> q + 32 \<le> a \<Longrightarrow> m' a = m a"
proof -
  let ?e = "cpu_esp c"
  have d: "unat (?e - 4) = q + 28" "unat (?e - 8) = q + 24" "unat (?e - 12) = q + 20" "unat (?e - 16) = q + 16"
    "unat (?e - 20) = q + 12" "unat (?e - 24) = q + 8" "unat (?e - 28) = q + 4" "unat (?e - 32) = q"
    by (simp_all add: unat_minus_small assms)
  have eq: "c' = c\<lparr>cpu_esp := ?e - 32\<rparr>" "m' = wr32 (wr32 (wr32 (wr32 (wr32 (wr32 (wr32 (wr32 m (q + 28) (eax c))
      (q + 24) (ecx c)) (q + 20) (edx c)) (q + 16) (ebx c)) (q + 12) ?e) (q + 8) (ebp c)) (q + 4) (esi c)) q (edi c)"
    using assms(2) by (simp_all add: pushad_def push32_def d)
  show "c' = c\<lparr>cpu_esp := ?e - 32\<rparr>" by (rule eq)
  show "saved_frame c m' q" by (simp add: saved_frame_def eq mem_simps)
  show "m' a = m a" if "a < q \<or> q + 32 \<le> a" for a
    using that by (elim disjE) (simp_all add: eq mem_simps)
qed

lemma popad_saved:
  assumes "unat (cpu_esp c) = q" "q + 32 < 2 ^ 32" "saved_frame c0 m q"
  shows "popad (c, m) = (load_frame c0 c, m)"
proof (cases c)
  case (fields a0 a1 a2 a3 e a5 a6 a7 a8 a9)
  with assms(1) have e: "unat e = q" by simp
  have d: "unat (e + 4) = q + 4" "unat (8 + e) = q + 8" "unat (12 + e) = q + 12" "unat (16 + e) = q + 16"
    "unat (20 + e) = q + 20" "unat (24 + e) = q + 24" "unat (28 + e) = q + 28"
    using assms(2) e by (simp_all add: unat_add_small)
  show ?thesis
    using assms(3) by (simp add: fields popad_def pop32_def Let_def load_frame_def d e saved_frame_def)
qed

text \<open>One switch: the outgoing registers are saved below the return address, the incoming ones are
  loaded from the frame at \<open>new\<close>, and execution continues at the return address above it.\<close>

lemma context_switch_frame:
  assumes out: "unat (cpu_esp c) = q + 32" "q + 44 < 2 ^ 32" "rd32 m (q + 40) = new"
    and inc: "unat new + 36 < 2 ^ 32" "saved_frame c0 m (unat new)"
    and disjoint: "unat new + 36 \<le> q \<or> q + 32 \<le> unat new"
  shows "\<exists>m'. context_switch (c, m) =
      ((rd32 m (q + 36), cpu_esp c - 32),
       (load_frame c0 c)\<lparr>cpu_esp := new + 36, intr := True, eip := rd32 m (unat new + 32)\<rparr>, m')
    \<and> saved_frame c m' q \<and> (\<forall>a. a < q \<or> q + 32 \<le> a \<longrightarrow> m' a = m a)"
proof -
  obtain c1 m1 where p: "pushad (c, m) = (c1, m1)" by (metis surj_pair)
  note pa = pushad_saved [OF out(1) p]
  have e: "unat (cpu_esp c1) = q" using out(1) by (simp add: pa(1) unat_minus_small)
  have a: "unat (cpu_esp c1 + 36) = q + 36" "unat (cpu_esp c1 + 40) = q + 40"
    using out(2) e by (simp_all add: unat_add_small)
  have same: "rd32 m1 b = rd32 m b" if "b + 4 \<le> q \<or> q + 32 \<le> b" for b
    by (rule rd32_cong [where lo = b and hi = "b + 4"]) (use pa(3) that in \<open>auto intro: same_onI\<close>)
  have sv: "saved_frame c0 m1 (unat new)"
    using inc(2) disjoint by (auto simp: saved_frame_def same)
  have pop: "popad (c1\<lparr>eax := r, cpu_esp := new\<rparr>, m1) = (load_frame c0 (c1\<lparr>eax := r, cpu_esp := new\<rparr>), m1)" for r
    using inc(1) by (intro popad_saved [OF refl _ _]) (use sv in simp_all)
  have n32: "unat (new + 32) = unat new + 32" using inc(1) by (simp add: unat_add_small)
  have "rd32 m1 (unat new + 32) = rd32 m (unat new + 32)" using disjoint by (intro same) auto
  then have "context_switch (c, m) = ((rd32 m (q + 36), cpu_esp c1),
      (load_frame c0 (c1\<lparr>eax := rd32 m (q + 36), cpu_esp := new\<rparr>))\<lparr>intr := True, cpu_esp := new + 32 + 4,
         eip := rd32 m (unat new + 32)\<rparr>, m1)"
    by (simp add: context_switch_def p Let_def a same out(3) pop ret_def pop32_def n32 load_frame_def)
  then have "context_switch (c, m) = ((rd32 m (q + 36), cpu_esp c - 32),
       (load_frame c0 c)\<lparr>cpu_esp := new + 36, intr := True, eip := rd32 m (unat new + 32)\<rparr>, m1)"
    by (simp add: load_frame_def pa(1) add.commute)
  with pa(2,3) show ?thesis by blast
qed

section \<open>Switching away and back\<close>

lemma popad_mem: "\<exists>c'. popad (c, m) = (c', m)"
  by (simp add: popad_def pop32_def Let_def)

lemma context_switch_saves:
  assumes "unat (cpu_esp c) = q + 32" "q + 44 < 2 ^ 32" "context_switch (c, m) = ((p, saved), c1, m1)"
  shows "p = rd32 m (q + 36)" "saved = cpu_esp c - 32" "saved_frame c m1 q" "rd32 m1 (q + 32) = rd32 m (q + 32)"
proof -
  obtain c' m' where p: "pushad (c, m) = (c', m')" by (metis surj_pair)
  note pa = pushad_saved [OF assms(1) p]
  have e: "unat (cpu_esp c' + 36) = q + 36"
    using assms(1,2) by (simp add: pa(1) unat_add_small unat_minus_small)
  have same: "rd32 m' b = rd32 m b" if "q + 32 \<le> b" for b
    by (rule rd32_cong [where lo = b and hi = "b + 4"]) (use pa(3) that in \<open>auto intro: same_onI\<close>)
  let ?c = "c'\<lparr>eax := rd32 m' (unat (cpu_esp c' + 36)), cpu_esp := rd32 m' (unat (cpu_esp c' + 40))\<rparr>"
  obtain c'' where "popad (?c, m') = (c'', m')" using popad_mem by blast
  then have "m1 = m' \<and> p = rd32 m' (unat (cpu_esp c' + 36)) \<and> saved = cpu_esp c'"
    using assms(3) by (auto simp: context_switch_def p Let_def ret_def pop32_def)
  with pa e same show "p = rd32 m (q + 36)" "saved = cpu_esp c - 32" "saved_frame c m1 q" "rd32 m1 (q + 32) = rd32 m (q + 32)"
    by simp_all
qed

text \<open>A process that is switched away comes back with every register as it was: whatever ran in
  between, as long as the 36 bytes of its frame were left alone, switching to the stored stack
  pointer restores all registers, leaves the stack as the call found it less the return address, and
  continues after the call with interrupts on.\<close>

theorem context_switch_roundtrip:
  assumes "unat (cpu_esp c) = q + 32" "q + 44 < 2 ^ 32" "context_switch (c, m) = ((p, saved), c1, m1)"
    and "same_on q (q + 36) m1 m2"
    and "unat (cpu_esp c2) = q2 + 32" "q2 + 44 < 2 ^ 32" "rd32 m2 (q2 + 40) = saved"
    and "q + 36 \<le> q2 \<or> q2 + 32 \<le> q"
  shows "\<exists>stored m3. context_switch (c2, m2) =
     (stored, c\<lparr>cpu_esp := cpu_esp c + 4, intr := True, eip := rd32 m (q + 32)\<rparr>, m3)"
proof -
  note out = context_switch_saves [OF assms(1-3)]
  have q: "unat saved = q" using assms(1) by (simp add: out(2) unat_minus_small)
  have same: "rd32 m2 b = rd32 m1 b" if "q \<le> b" "b + 4 \<le> q + 36" for b
    by (rule rd32_cong [symmetric, OF assms(4) that])
  have "saved_frame c m2 (unat saved)"
    using out(3) by (simp add: saved_frame_def same q)
  moreover have "unat saved + 36 < 2 ^ 32" "unat saved + 36 \<le> q2 \<or> q2 + 32 \<le> unat saved"
    using assms(2,8) by (simp_all add: q)
  ultimately obtain m3 where m3: "context_switch (c2, m2) = ((rd32 m2 (q2 + 36), cpu_esp c2 - 32),
       (load_frame c c2)\<lparr>cpu_esp := saved + 36, intr := True, eip := rd32 m2 (unat saved + 32)\<rparr>, m3)"
    using context_switch_frame [OF assms(5-7)] by blast
  have eip': "rd32 m2 (unat saved + 32) = rd32 m (q + 32)"
    unfolding q using out(4) by (simp add: same)
  note esp' = out(2)
  have "(load_frame c c2)\<lparr>cpu_esp := saved + 36, intr := True, eip := rd32 m2 (unat saved + 32)\<rparr>
      = c\<lparr>cpu_esp := cpu_esp c + 4, intr := True, eip := rd32 m (q + 32)\<rparr>"
    unfolding eip' unfolding esp' by (cases c, cases c2) (simp add: load_frame_def)
  with m3 show ?thesis by simp
qed

text \<open>The stack frame \<^verbatim>\<open>process_create\<close> builds and the context switch fit together: switching to a
  process that was just created enters its function with zero registers, an empty stack of its own
  and interrupts on.\<close>

theorem context_switch_starts_process:
  assumes "process_create stacks nm entry s = (int slot, t)" "length (process_table s) = 16"
      "unat stacks + 65536 < 2 ^ 32" "cstr_ok nm"
    and "unat (cpu_esp c) = q + 32" "q + 44 < 2 ^ 32" "rd32 m (q + 40) = esp (process_table t ! slot)"
    and "same_on (unat stacks + 4096 * slot + 4060) (unat stacks + 4096 * slot + 4096) (ram t) m"
    and "unat stacks + 4096 * slot + 4096 \<le> q \<or> q + 32 \<le> unat stacks + 4096 * slot + 4060"
  shows "\<exists>stored m'. context_switch (c, m) = (stored,
     \<lparr>eax = 0, ecx = 0, edx = 0, ebx = 0, cpu_esp = stacks + of_nat slot * 4096 + 4096,
      ebp = 0, esi = 0, edi = 0, eip = entry, intr = True\<rparr>, m')"
proof -
  let ?c0 = "\<lparr>eax = 0, ecx = 0, edx = 0, ebx = 0, cpu_esp = 0, ebp = 0, esi = 0, edi = 0, eip = 0, intr = True\<rparr>"
  let ?f = "unat stacks + 4096 * slot + 4060"
  have ff: "first_free s = Some slot"
    using assms(1) process_create_none [of s stacks nm entry]
    by (cases "first_free s") (auto simp: process_create_def first_free_def Let_def split: prod.splits)
  then have slot: "slot < 16" by (simp add: first_free_def loop_simps)
  from process_create_slot [OF ff assms(2-4), of entry] assms(1,2) slot
  have fr: "fresh_frame (ram t) ?f entry" and esp: "esp (process_table t ! slot) = stacks + of_nat slot * 4096 + 4060"
    by auto
  have new: "unat (esp (process_table t ! slot)) = ?f"
    using slot_base [OF assms(3) slot, of 4060] by (simp add: esp)
  have bound: "unat (esp (process_table t ! slot)) + 36 < 2 ^ 32"
    using assms(3) slot by (simp add: new)
  have apart: "unat (esp (process_table t ! slot)) + 36 \<le> q \<or> q + 32 \<le> unat (esp (process_table t ! slot))"
    using assms(9) by (auto simp: new)
  have same: "rd32 m b = rd32 (ram t) b" if "?f \<le> b" "b + 4 \<le> unat stacks + 4096 * slot + 4096" for b
    by (rule rd32_cong [symmetric, OF assms(8) that])
  have "rd32 m (?f + 4 * k) = 0" if "k < 8" for k
    using fr that by (simp add: fresh_frame_def same)
  from this [of 0] this [of 1] this [of 2] this [of 4] this [of 5] this [of 6] this [of 7]
  have frame: "saved_frame ?c0 m (unat (esp (process_table t ! slot)))"
    by (simp add: saved_frame_def new)
  have entry: "rd32 m (unat (esp (process_table t ! slot)) + 32) = entry"
    using fr by (simp add: fresh_frame_def same new)
  have "esp (process_table t ! slot) + 36 = stacks + of_nat slot * 4096 + 4096" by (simp add: esp)
  then have "(load_frame ?c0 c)\<lparr>cpu_esp := esp (process_table t ! slot) + 36, intr := True,
        eip := rd32 m (unat (esp (process_table t ! slot)) + 32)\<rparr>
      = \<lparr>eax = 0, ecx = 0, edx = 0, ebx = 0, cpu_esp = stacks + of_nat slot * 4096 + 4096,
         ebp = 0, esi = 0, edi = 0, eip = entry, intr = True\<rparr>"
    unfolding entry by (cases c) (simp only: load_frame_def, simp)
  with context_switch_frame [OF assms(5-7) bound frame apart] show ?thesis by (auto simp only:)
qed

section \<open>A run of two switches\<close>

text \<open>A machine whose stack pointer is 0x1020, about to switch to a frame of zero registers at 0x2000.\<close>

definition demo_cpu :: cpu where
  "demo_cpu = \<lparr>eax = 1, ecx = 2, edx = 3, ebx = 4, cpu_esp = 0x1020, ebp = 6, esi = 7, edi = 8, eip = 9, intr = False\<rparr>"

definition demo_ram :: memory where
  "demo_ram = wr32 (wr32 (wr32 (\<lambda>_. 0) 0x1020 0x10077) 0x1024 0x5008) 0x1028 0x2000"

lemma demo_reads: "rd32 demo_ram 0x1020 = 0x10077" "rd32 demo_ram 0x1024 = 0x5008" "rd32 demo_ram 0x1028 = 0x2000"
  by (simp_all add: demo_ram_def mem_simps)

theorem context_switch_roundtrip_witness:
  "\<exists>c1 m1 stored m3. context_switch (demo_cpu, demo_ram) = ((0x5008, 0x1000), c1, m1)
     \<and> context_switch (demo_cpu\<lparr>cpu_esp := 0x3020\<rparr>, wr32 m1 0x3028 0x1000)
         = (stored, demo_cpu\<lparr>cpu_esp := 0x1024, intr := True, eip := 0x10077\<rparr>, m3)"
proof -
  obtain p saved c1 m1 where s: "context_switch (demo_cpu, demo_ram) = ((p, saved), c1, m1)" by (metis surj_pair)
  have e: "unat (cpu_esp demo_cpu) = 0x1000 + 32" "cpu_esp demo_cpu = 0x1020" by (simp_all add: demo_cpu_def)
  have "p = 0x5008" "saved = 0x1000"
    using context_switch_saves(1,2) [OF e(1) _ s] by (simp_all add: demo_reads e(2))
  moreover have "same_on 0x1000 (0x1000 + 36) m1 (wr32 m1 0x3028 0x1000)"
    by (rule same_onI) (simp add: mem_simps)
  ultimately show ?thesis
    using context_switch_roundtrip [OF e(1) _ s, of "wr32 m1 0x3028 0x1000" "demo_cpu\<lparr>cpu_esp := 0x3020\<rparr>" "0x3000"]
      s e(2) by (simp add: mem_simps demo_reads)
qed

theorem context_switch_starts_process_witness:
  "\<exists>t stored m'. process_create 0x20000 (bytes ''task_a'') 0x10234 boot_procs = (1, t)
     \<and> context_switch (demo_cpu, wr32 (ram t) 0x1028 (esp (process_table t ! 1)))
         = (stored, \<lparr>eax = 0, ecx = 0, edx = 0, ebx = 0, cpu_esp = 0x22000,
              ebp = 0, esi = 0, edi = 0, eip = 0x10234, intr = True\<rparr>, m')"
proof -
  have ff: "first_free boot_procs = Some 1" "length (process_table boot_procs) = 16" "cstr_ok (bytes ''task_a'')"
    by (simp_all add: first_free_def loop_simps boot_procs_table zero_pcb_def cstr_ok_def bytes_def)
  obtain t where t: "process_create 0x20000 (bytes ''task_a'') 0x10234 boot_procs = (int 1, t)"
    using process_create_slot [OF ff(1,2) _ ff(3), of "0x20000" "0x10234"] by auto
  let ?m = "wr32 (ram t) 0x1028 (esp (process_table t ! 1))"
  have "unat (cpu_esp demo_cpu) = 0x1000 + 32" by (simp add: demo_cpu_def)
  moreover have "same_on (unat (0x20000 :: u32) + 4096 * 1 + 4060) (unat (0x20000 :: u32) + 4096 * 1 + 4096) (ram t) ?m"
    by (rule same_onI) (simp add: mem_simps)
  ultimately show ?thesis
    using context_switch_starts_process [OF t ff(2) _ ff(3), of demo_cpu "0x1000" ?m] t
    by (simp add: mem_simps)
qed

end
