(* ===== verification/Hw.thy ===== *)
theory Hw
  imports Memory
begin

text \<open>
  Interrupt set-up: the interrupt descriptor table (\<^verbatim>\<open>kernel/idt.c\<close>), the 8259 interrupt
  controllers (\<^verbatim>\<open>kernel/pic.c\<close>) and the interval timer (\<^verbatim>\<open>kernel/pit.c\<close>). Port output is a list of
  (port, byte) pairs in the order of the \<^verbatim>\<open>outb\<close> instructions. The addresses of the interrupt stubs
  and of the table are link-time constants, so they are arguments.
\<close>

section \<open>The interrupt descriptor table\<close>

text \<open>The packed \<^verbatim>\<open>idt_entry_t\<close> is 8 bytes: \<^verbatim>\<open>offset_low\<close> at 0, \<^verbatim>\<open>selector\<close> at 2, \<^verbatim>\<open>zero\<close> at 4,
  \<^verbatim>\<open>type_attr\<close> at 5 and \<^verbatim>\<open>offset_high\<close> at 6. \<open>lidt\<close> is what the last LIDT instruction loaded.\<close>

record idt_entry_t =
  offset_low :: u16
  selector :: u16
  gate_zero :: u8
  type_attr :: u8
  offset_high :: u16

record idt =
  idt_mem :: memory
  idt_limit :: u16
  idt_base :: u32
  lidt :: "(u16 \<times> u32) option"

definition load_idt_entry :: "memory \<Rightarrow> nat \<Rightarrow> idt_entry_t" where
  "load_idt_entry m n =
     \<lparr>offset_low = rd16 m (8 * n), selector = rd16 m (8 * n + 2), gate_zero = m (8 * n + 4),
      type_attr = m (8 * n + 5), offset_high = rd16 m (8 * n + 6)\<rparr>"

definition idt_set_gate :: "u8 \<Rightarrow> u32 \<Rightarrow> u16 \<Rightarrow> u8 \<Rightarrow> idt \<Rightarrow> idt" where
  "idt_set_gate num handler sel flags s =
     (let e = 8 * unat num; m = idt_mem s;
          m = wr16 m e (ucast (handler AND 0xFFFF));
          m = wr16 m (e + 2) sel;
          m = wr8 m (e + 4) 0;
          m = wr8 m (e + 5) flags;
          m = wr16 m (e + 6) (ucast (drop_bit 16 handler AND 0xFFFF))
      in s\<lparr>idt_mem := m\<rparr>)"

definition idt_init :: "u32 \<Rightarrow> u32 \<Rightarrow> u32 \<Rightarrow> idt \<Rightarrow> idt" where
  "idt_init idt_addr irq0_handler irq1_handler s =
     (let s = s\<lparr>idt_limit := 8 * 256 - 1, idt_base := idt_addr\<rparr>;
          s = s\<lparr>idt_mem := for_do (\<lambda>i m. wr8 m i 0) 0 2048 (idt_mem s)\<rparr>;
          s = idt_set_gate 32 irq0_handler 0x08 0x8E s;
          s = idt_set_gate 33 irq1_handler 0x08 0x8E s
      in s\<lparr>lidt := Some (idt_limit s, idt_base s)\<rparr>)"

text \<open>How the processor reads a gate: the handler's address is split over two fields, and bit 7 of
  the attributes says whether the gate is present.\<close>

definition gate_target :: "idt_entry_t \<Rightarrow> u32" where
  "gate_target g = ucast (offset_low g) OR push_bit 16 (ucast (offset_high g))"

definition gate_present :: "idt_entry_t \<Rightarrow> bool" where
  "gate_present g \<longleftrightarrow> bit (type_attr g) 7"

lemma and_FFFF: "(w :: 'a::len word) AND 0xFFFF = take_bit 16 w"
  by (simp add: take_bit_eq_mask mask_eq_exp_minus_1)

lemma split_handler:
  "(ucast (ucast (h AND 0xFFFF) :: u16) :: u32) OR push_bit 16 (ucast (ucast (drop_bit 16 h AND 0xFFFF) :: u16)) = h"
proof (rule bit_word_eqI)
  fix n assume "n < LENGTH(32)"
  then show "bit ((ucast (ucast (h AND 0xFFFF) :: u16) :: u32)
      OR push_bit 16 (ucast (ucast (drop_bit 16 h AND 0xFFFF) :: u16))) n = bit h n"
    unfolding and_FFFF by (auto simp: bit_simps not_le)
qed

lemma idt_set_gate_entry:
  "load_idt_entry (idt_mem (idt_set_gate num h sel flags s)) n =
     (if n = unat num
      then \<lparr>offset_low = ucast (h AND 0xFFFF), selector = sel, gate_zero = 0, type_attr = flags,
            offset_high = ucast (drop_bit 16 h AND 0xFFFF)\<rparr>
      else load_idt_entry (idt_mem s) n)"
proof (cases "n = unat num")
  case True
  then show ?thesis
    by (simp add: load_idt_entry_def idt_set_gate_def Let_def mem_simps)
next
  case False
  then have "8 * n + 8 \<le> 8 * unat num \<or> 8 * unat num + 8 \<le> 8 * n" by linarith
  with False show ?thesis
    by (auto simp: load_idt_entry_def idt_set_gate_def Let_def mem_simps)
qed

lemma idt_zeroed: "load_idt_entry (for_do (\<lambda>i m. wr8 m i 0) 0 2048 m) n = load_idt_entry (fill m 0 0 2048) n"
proof -
  have "for_do (\<lambda>i m. wr8 m i 0) 0 2048 m = fill m 0 0 2048"
    by (rule for_do_invariant [where P = "\<lambda>i t. t = fill m 0 0 i"]) (simp_all add: fill_Suc_end [of m 0, simplified])
  then show ?thesis by simp
qed

lemma idt_init_entry:
  "load_idt_entry (idt_mem (idt_init a h0 h1 s)) n =
      (if n = 33 then \<lparr>offset_low = ucast (h1 AND 0xFFFF), selector = 8, gate_zero = 0, type_attr = 0x8E,
          offset_high = ucast (drop_bit 16 h1 AND 0xFFFF)\<rparr>
       else if n = 32 then \<lparr>offset_low = ucast (h0 AND 0xFFFF), selector = 8, gate_zero = 0, type_attr = 0x8E,
          offset_high = ucast (drop_bit 16 h0 AND 0xFFFF)\<rparr>
       else load_idt_entry (fill (idt_mem s) 0 0 2048) n)"
  by (simp add: idt_init_def Let_def idt_set_gate_entry idt_zeroed)

lemma idt_gates_present:
  "n < 256 \<Longrightarrow> gate_present (load_idt_entry (idt_mem (idt_init a h0 h1 s)) n) \<longleftrightarrow> n = 32 \<or> n = 33"
  by (auto simp: idt_init_entry gate_present_def) (simp add: load_idt_entry_def fill_at)

text \<open>Setting up the table makes exactly the vectors 32 and 33 present, as ring-0 interrupt gates of
  the kernel code segment whose handler addresses the processor reassembles to the two interrupt
  stubs, and loads a table of 256 entries.\<close>

theorem idt_init_gates:
  assumes "n < 256"
  shows "(gate_present (load_idt_entry (idt_mem (idt_init a h0 h1 s)) n) \<longleftrightarrow> n = 32 \<or> n = 33)
     \<and> gate_target (load_idt_entry (idt_mem (idt_init a h0 h1 s)) 32) = h0
     \<and> gate_target (load_idt_entry (idt_mem (idt_init a h0 h1 s)) 33) = h1
     \<and> selector (load_idt_entry (idt_mem (idt_init a h0 h1 s)) 32) = 8
     \<and> selector (load_idt_entry (idt_mem (idt_init a h0 h1 s)) 33) = 8
     \<and> lidt (idt_init a h0 h1 s) = Some (2047, a)"
proof -
  have "lidt (idt_init a h0 h1 s) = Some (2047, a)"
    by (simp add: idt_init_def idt_set_gate_def Let_def)
  with idt_gates_present [OF assms] show ?thesis
    by (simp add: idt_init_entry gate_target_def split_handler)
qed

theorem idt_init_gates_witness:
  "\<not> gate_present (load_idt_entry (idt_mem (idt_init 0x5000 0x1234ABCD 0x2000 \<lparr>idt_mem = \<lambda>_. 0xFF, idt_limit = 0, idt_base = 0, lidt = None\<rparr>)) 14)"
  using idt_init_gates [of 14 "0x5000" "0x1234ABCD" "0x2000"] by simp

section \<open>The interrupt controllers\<close>

type_synonym ports = "(u16 \<times> u8) list"

definition outb :: "u16 \<Rightarrow> u8 \<Rightarrow> ports \<Rightarrow> ports" where
  "outb port val t = t @ [(port, val)]"

definition io_wait :: "ports \<Rightarrow> ports" where
  "io_wait t = outb 0x80 0 t"

definition pic_init :: "ports \<Rightarrow> ports" where
  "pic_init t =
     (let t = io_wait (outb 0x20 0x11 t); t = io_wait (outb 0xA0 0x11 t);
          t = io_wait (outb 0x21 0x20 t); t = io_wait (outb 0xA1 0x28 t);
          t = io_wait (outb 0x21 0x04 t); t = io_wait (outb 0xA1 0x02 t);
          t = io_wait (outb 0x21 0x01 t); t = io_wait (outb 0xA1 0x01 t);
          t = outb 0x21 0xFC t
      in outb 0xA1 0xFF t)"

definition pic_send_eoi :: "u8 \<Rightarrow> ports \<Rightarrow> ports" where
  "pic_send_eoi irq t = outb 0x20 0x20 (if 8 \<le> irq then outb 0xA0 0x20 t else t)"

text \<open>What one controller receives on its command and data ports.\<close>

definition writes_to :: "u16 \<Rightarrow> u16 \<Rightarrow> ports \<Rightarrow> u8 list" where
  "writes_to cmd data t = map snd (filter (\<lambda>(p, v). p = cmd \<or> p = data) t)"

text \<open>C40. Both controllers receive a complete initialisation sequence and then their mask, and the
  remapping agrees with the descriptor table: a line of the master is unmasked exactly when the
  vector it is mapped to has a present gate; every line of the slave is masked.\<close>

theorem pic_init_matches_idt:
  "\<exists>base mask. writes_to 0x20 0x21 (pic_init []) = [0x11, base, 0x04, 0x01, mask]
     \<and> (\<forall>irq \<in> set [0..<8]. bit mask irq
          \<longleftrightarrow> \<not> gate_present (load_idt_entry (idt_mem (idt_init a h0 h1 s)) (unat base + irq)))
     \<and> writes_to 0xA0 0xA1 (pic_init []) = [0x11, 0x28, 0x02, 0x01, 0xFF]"
proof -
  have w: "writes_to 0x20 0x21 (pic_init []) = [0x11, 0x20, 0x04, 0x01, 0xFC]"
    "writes_to 0xA0 0xA1 (pic_init []) = [0x11, 0x28, 0x02, 0x01, 0xFF]"
    by (simp_all add: pic_init_def outb_def io_wait_def writes_to_def)
  have g: "gate_present (load_idt_entry (idt_mem (idt_init a h0 h1 s)) (unat (0x20 :: u8) + irq)) \<longleftrightarrow> irq = 0 \<or> irq = 1"
    if "irq < 8" for irq
    using idt_gates_present [of "32 + irq" a h0 h1 s] that by auto
  have "\<forall>irq \<in> set [0..<8]. bit (0xFC :: u8) irq \<longleftrightarrow> irq \<noteq> 0 \<and> irq \<noteq> 1" by (simp add: upt_rec numeral_eq_Suc)
  with w g have "writes_to 0x20 0x21 (pic_init []) = [0x11, 0x20, 0x04, 0x01, 0xFC]
     \<and> (\<forall>irq \<in> set [0..<8]. bit (0xFC :: u8) irq
          \<longleftrightarrow> \<not> gate_present (load_idt_entry (idt_mem (idt_init a h0 h1 s)) (unat (0x20 :: u8) + irq)))
     \<and> writes_to 0xA0 0xA1 (pic_init []) = [0x11, 0x28, 0x02, 0x01, 0xFF]" by auto
  then show ?thesis by blast
qed

theorem pic_init_matches_idt_witness:
  "\<exists>base mask. writes_to 0x20 0x21 (pic_init []) = [0x11, base, 0x04, 0x01, mask]
     \<and> (bit mask 3 \<longleftrightarrow> \<not> gate_present (load_idt_entry (idt_mem (idt_init 0 1 2
            \<lparr>idt_mem = \<lambda>_. 0, idt_limit = 0, idt_base = 0, lidt = None\<rparr>)) (unat base + 3)))"
  using pic_init_matches_idt [of 0 1 2 "\<lparr>idt_mem = \<lambda>_. 0, idt_limit = 0, idt_base = 0, lidt = None\<rparr>"]
  by fastforce

section \<open>The interval timer\<close>

definition pit_divisor :: u16 where
  "pit_divisor = of_int (1193182 div 100)"

definition pit_init :: "ports \<Rightarrow> ports" where
  "pit_init t =
     (let divisor = pit_divisor;
          t = outb 0x43 0x36 t;
          t = outb 0x40 (ucast (divisor AND 0xFF)) t
      in outb 0x40 (ucast (drop_bit 8 divisor AND 0xFF)) t)"

text \<open>The timer is programmed in low-byte/high-byte order with a divisor that survives the
  narrowing to 16 bits and gives 100 whole ticks per second of the 1193182 Hz clock.\<close>

theorem pit_init_rate:
  "\<exists>lo hi. pit_init t = t @ [(0x43, 0x36), (0x40, lo), (0x40, hi)]
     \<and> unat lo + 256 * unat hi = 1193182 div 100 \<and> 1193182 div (unat lo + 256 * unat hi) = (100 :: nat)"
proof -
  have d: "unat pit_divisor = 11931" by (simp add: pit_divisor_def)
  have "pit_init t = t @ [(0x43, 0x36), (0x40, ucast (pit_divisor AND 0xFF)), (0x40, ucast (drop_bit 8 pit_divisor AND 0xFF))]"
    by (simp add: pit_init_def outb_def Let_def)
  moreover have "unat (ucast (drop_bit 8 pit_divisor AND 0xFF) :: u8) = 46"
    by (simp only: unat_high_byte d)
  moreover have "unat (ucast (pit_divisor AND 0xFF) :: u8) = 155"
    by (simp only: unat_low_byte d) simp
  ultimately have "pit_init t = t @ [(0x43, 0x36), (0x40, ucast (pit_divisor AND 0xFF)), (0x40, ucast (drop_bit 8 pit_divisor AND 0xFF))]
      \<and> unat (ucast (pit_divisor AND 0xFF) :: u8) + 256 * unat (ucast (drop_bit 8 pit_divisor AND 0xFF) :: u8) = 1193182 div 100
      \<and> 1193182 div (unat (ucast (pit_divisor AND 0xFF) :: u8) + 256 * unat (ucast (drop_bit 8 pit_divisor AND 0xFF) :: u8)) = 100"
    by simp
  then show ?thesis by blast
qed

end
