(* ===== verification/Scheduler.thy ===== *)
theory Scheduler
  imports Switch Hw
begin

text \<open>
  The scheduler (\<^verbatim>\<open>kernel/scheduler.c\<close>) on top of the process table and the context switch. Link-time
  addresses (the stacks, the process table, the instruction after the call of \<^verbatim>\<open>context_switch\<close>) are
  the fields of a layout argument. A call that switches ends in the context of the next process; the
  C function's return in the old process's context is the instruction pointer that was pushed.
\<close>

section \<open>State\<close>

record layout =
  stacks_addr :: u32
  table_addr :: u32
  resume_addr :: u32

record sched = procs +
  processor :: cpu
  tick_count :: u32
  ports_out :: ports

section \<open>Choosing the next process\<close>

definition pick_next :: "pcb list \<Rightarrow> u32 \<Rightarrow> u32" where
  "pick_next tab old_pid =
     (case for_find (\<lambda>i. state (tab ! unat ((old_pid + of_nat i) mod 16)) = PROCESS_READY) 1 16 of
        None \<Rightarrow> old_pid
      | Some i \<Rightarrow> (old_pid + of_nat i) mod 16)"

text \<open>The part of \<^verbatim>\<open>pick_and_switch\<close> before the context switch; \<^term>\<open>None\<close> is its early return.\<close>

definition switch_states :: "'a procs_scheme \<Rightarrow> 'a procs_scheme option" where
  "switch_states s =
     (let old_pid = current_pid s; next_pid = pick_next (process_table s) old_pid in
      if next_pid = old_pid then None
      else
        (let s = (if state (process_table s ! unat old_pid) = PROCESS_RUNNING
                  then set_pcb (unat old_pid) (\<lambda>p. p\<lparr>state := PROCESS_READY\<rparr>) s else s);
             s = set_pcb (unat next_pid) (\<lambda>p. p\<lparr>state := PROCESS_RUNNING\<rparr>) s
         in Some (s\<lparr>current_pid := next_pid\<rparr>)))"

text \<open>\<^verbatim>\<open>&process_table[i].esp\<close>, and the block such an address points into: a \<^verbatim>\<open>pcb_t\<close> is 48 bytes, with
  \<^verbatim>\<open>esp\<close> at offset 8.\<close>

definition esp_addr :: "layout \<Rightarrow> u32 \<Rightarrow> u32" where
  "esp_addr L i = table_addr L + 48 * i + 8"

definition esp_index :: "layout \<Rightarrow> u32 \<Rightarrow> nat" where
  "esp_index L a = unat ((a - table_addr L - 8) div 48)"

text \<open>The call: both arguments and the return address are pushed, and the routine's store goes to the
  block its first argument points into.\<close>

definition call_context_switch :: "layout \<Rightarrow> u32 \<Rightarrow> u32 \<Rightarrow> sched \<Rightarrow> sched" where
  "call_context_switch L old_esp new_esp s =
     (let (c, m) = push32 (resume_addr L) (push32 old_esp (push32 new_esp (processor s, ram s)));
          ((a, v), (c, m)) = context_switch (c, m)
      in set_pcb (esp_index L a) (\<lambda>p. p\<lparr>esp := v\<rparr>) (s\<lparr>processor := c, ram := m\<rparr>))"

definition pick_and_switch :: "layout \<Rightarrow> sched \<Rightarrow> int \<times> sched" where
  "pick_and_switch L s =
     (case switch_states s of
        None \<Rightarrow> (0, s)
      | Some t \<Rightarrow> (1, call_context_switch L (esp_addr L (current_pid s))
                       (esp (process_table t ! unat (current_pid t))) t))"

section \<open>Operations\<close>

definition scheduler_init :: "sched \<Rightarrow> sched" where
  "scheduler_init s = s"

definition scheduler_tick :: "layout \<Rightarrow> sched \<Rightarrow> sched" where
  "scheduler_tick L s =
     (let s = s\<lparr>tick_count := tick_count s + 1\<rparr>;
          s = s\<lparr>ports_out := pic_send_eoi 0 (ports_out s)\<rparr>
      in snd (pick_and_switch L s))"

definition scheduler_yield :: "layout \<Rightarrow> sched \<Rightarrow> sched" where
  "scheduler_yield L s =
     (let s = s\<lparr>processor := (processor s)\<lparr>intr := False\<rparr>\<rparr>;
          (r, s) = pick_and_switch L s
      in if r = 0 then s\<lparr>processor := (processor s)\<lparr>intr := True\<rparr>\<rparr> else s)"

definition scheduler_unblock :: "u32 \<Rightarrow> 'a procs_scheme \<Rightarrow> 'a procs_scheme" where
  "scheduler_unblock p s =
     (if 16 \<le> p then s
      else if state (process_table s ! unat p) = PROCESS_BLOCKED
        then set_pcb (unat p) (\<lambda>q. q\<lparr>state := PROCESS_READY\<rparr>) s else s)"

definition scheduler_get_current :: "'a procs_scheme \<Rightarrow> pcb" where
  "scheduler_get_current s = process_table s ! unat (current_pid s)"

text \<open>\<^verbatim>\<open>mutex_lock\<close> blocks the caller with an assignment to the table.\<close>

definition block_current :: "'a procs_scheme \<Rightarrow> 'a procs_scheme" where
  "block_current s = set_pcb (unat (current_pid s)) (\<lambda>p. p\<lparr>state := PROCESS_BLOCKED\<rparr>) s"

section \<open>Everything that changes the table, as a sequence of calls\<close>

datatype kcall = Create cstr u32 | Terminate u32 | Tick | Yield | Unblock u32 | Block

fun kexec :: "layout \<Rightarrow> kcall \<Rightarrow> sched \<Rightarrow> sched" where
  "kexec L (Create nm entry) s = snd (process_create (stacks_addr L) nm entry s)"
| "kexec L (Terminate p) s = process_terminate p s"
| "kexec L Tick s = scheduler_tick L s"
| "kexec L Yield s = scheduler_yield L s"
| "kexec L (Unblock p) s = scheduler_unblock p s"
| "kexec L Block s = block_current s"

primrec krun :: "layout \<Rightarrow> kcall list \<Rightarrow> sched \<Rightarrow> sched" where
  "krun L [] s = s"
| "krun L (c # cs) s = krun L cs (kexec L c s)"

text \<open>What the calls of \<^verbatim>\<open>process_create\<close> return.\<close>

primrec created :: "layout \<Rightarrow> kcall list \<Rightarrow> sched \<Rightarrow> int list" where
  "created L [] s = []"
| "created L (c # cs) s =
     (case c of Create nm entry \<Rightarrow> [fst (process_create (stacks_addr L) nm entry s)] | _ \<Rightarrow> [])
      @ created L cs (kexec L c s)"

section \<open>What the calls do to states and pids\<close>

text \<open>The states of the sixteen slots and the current process are all that scheduling depends on.\<close>

definition st :: "'a procs_scheme \<Rightarrow> nat \<Rightarrow> process_state" where
  "st s i = state (process_table s ! i)"

definition cur :: "'a procs_scheme \<Rightarrow> nat" where
  "cur s = unat (current_pid s)"

lemma length_call_context_switch [simp]:
  "length (process_table (call_context_switch L a b s)) = length (process_table s)"
  "cur (call_context_switch L a b s) = cur s"
  "st (call_context_switch L a b s) = st s"
  "pid (process_table (call_context_switch L a b s) ! i) = pid (process_table s ! i)"
  by (simp_all add: call_context_switch_def Let_def st_def cur_def fun_eq_iff
      set_pcb_field [where g = state] set_pcb_field [where g = pid] split: prod.splits)

definition next_of :: "(nat \<Rightarrow> process_state) \<Rightarrow> nat \<Rightarrow> nat" where
  "next_of f c = (case for_find (\<lambda>i. f ((c + i) mod 16) = PROCESS_READY) 1 16 of None \<Rightarrow> c | Some i \<Rightarrow> (c + i) mod 16)"

lemma candidate: "unat (c :: u32) < 16 \<Longrightarrow> i < 16 \<Longrightarrow> unat ((c + of_nat i) mod 16) = (unat c + i) mod 16"
proof -
  assume *: "unat c < 16" "i < 16"
  then have "unat (of_nat i :: u32) = i" by (simp add: unat_of_nat)
  then have "unat (c + of_nat i) = unat c + i" using * by (subst unat_add_small) simp_all
  then show ?thesis by (simp add: unat_mod)
qed

lemma pick_next_next_of:
  assumes "cur s < 16"
  shows "unat (pick_next (process_table s) (current_pid s)) = next_of (st s) (cur s)"
proof -
  have "for_find (\<lambda>i. state (process_table s ! unat ((current_pid s + of_nat i) mod 16)) = PROCESS_READY) 1 16
      = for_find (\<lambda>i. st s ((cur s + i) mod 16) = PROCESS_READY) 1 16"
    by (rule for_find_cong) (use assms in \<open>simp add: candidate cur_def st_def\<close>)
  then show ?thesis
    using assms
    by (cases "for_find (\<lambda>i. st s ((cur s + i) mod 16) = PROCESS_READY) 1 16")
      (simp_all add: pick_next_def next_of_def cur_def candidate for_find_SomeD(2))
qed

definition view :: "'a procs_scheme \<Rightarrow> (nat \<Rightarrow> process_state) \<times> nat" where
  "view s = (st s, cur s)"

definition sched_ok :: "'a procs_scheme \<Rightarrow> bool" where
  "sched_ok s \<longleftrightarrow> length (process_table s) = 16 \<and> cur s < 16"

fun abs_switch :: "(nat \<Rightarrow> process_state) \<times> nat \<Rightarrow> (nat \<Rightarrow> process_state) \<times> nat" where
  "abs_switch (f, c) =
     (let n = next_of f c in
      if n = c then (f, c)
      else ((if f c = PROCESS_RUNNING then f(c := PROCESS_READY) else f)(n := PROCESS_RUNNING), n))"

fun abs_step :: "kcall \<Rightarrow> (nat \<Rightarrow> process_state) \<times> nat \<Rightarrow> (nat \<Rightarrow> process_state) \<times> nat" where
  "abs_step (Create nm entry) (f, c) =
     (case for_find (\<lambda>i. f i = PROCESS_FREE) 1 16 of None \<Rightarrow> (f, c) | Some i \<Rightarrow> (f(i := PROCESS_READY), c))"
| "abs_step (Terminate p) (f, c) = (if p = 0 \<or> 16 \<le> p then (f, c) else (f(unat p := PROCESS_TERMINATED), c))"
| "abs_step Tick v = abs_switch v"
| "abs_step Yield v = abs_switch v"
| "abs_step (Unblock p) (f, c) =
     (if p < 16 \<and> f (unat p) = PROCESS_BLOCKED then (f(unat p := PROCESS_READY), c) else (f, c))"
| "abs_step Block (f, c) = (f(c := PROCESS_BLOCKED), c)"

lemma st_set_pcb:
  "i < length (process_table s) \<Longrightarrow> st (set_pcb i f s) = (st s)(i := state (f (process_table s ! i)))"
  by (auto simp: st_def fun_eq_iff)

lemma st_simps [simp]:
  "st (s\<lparr>current_pid := p\<rparr>) = st s" "st (s\<lparr>ram := m\<rparr>) = st s"
  "cur (s\<lparr>current_pid := p\<rparr>) = unat p" "cur (s\<lparr>ram := m\<rparr>) = cur s" "cur (set_pcb i f s) = cur s"
  by (simp_all add: st_def cur_def fun_eq_iff)

lemma st_sched_simps [simp]:
  "st (s\<lparr>processor := c\<rparr>) = st s" "st (s\<lparr>tick_count := t\<rparr>) = st s" "st (s\<lparr>ports_out := o'\<rparr>) = st s"
  "cur (s\<lparr>processor := c\<rparr>) = cur s" "cur (s\<lparr>tick_count := t\<rparr>) = cur s" "cur (s\<lparr>ports_out := o'\<rparr>) = cur s"
  for s :: sched
  by (simp_all add: st_def cur_def fun_eq_iff)

lemma next_of_less: "c < 16 \<Longrightarrow> next_of f c < 16"
  by (auto simp: next_of_def split: option.splits)

lemma switch_states_view:
  assumes "sched_ok s"
  shows "case switch_states s of
      None \<Rightarrow> abs_switch (view s) = view s
    | Some t \<Rightarrow> sched_ok t \<and> view t = abs_switch (view s)"
proof -
  let ?n = "pick_next (process_table s) (current_pid s)"
  have n: "unat ?n = next_of (st s) (cur s)" "unat ?n < 16"
    using assms by (simp_all add: sched_ok_def pick_next_next_of next_of_less)
  have eq: "?n = current_pid s \<longleftrightarrow> next_of (st s) (cur s) = cur s"
    unfolding n(1) [symmetric] by (simp add: cur_def word_unat_eq_iff [where 'a = 32])
  have s: "length (process_table s) = 16" "unat (current_pid s) < 16"
    using assms by (simp_all add: sched_ok_def cur_def)
  have st0: "state (process_table s ! unat (current_pid s)) = st s (cur s)" by (simp add: st_def cur_def)
  show ?thesis
  proof (cases "?n = current_pid s")
    case True
    then show ?thesis using eq by (simp add: switch_states_def view_def)
  next
    case False
    then obtain t where t: "switch_states s = Some t"
      by (simp add: switch_states_def Let_def)
    have "t = (set_pcb (unat ?n) (\<lambda>p. p\<lparr>state := PROCESS_RUNNING\<rparr>)
        (if st s (cur s) = PROCESS_RUNNING then set_pcb (unat (current_pid s)) (\<lambda>p. p\<lparr>state := PROCESS_READY\<rparr>) s else s))
        \<lparr>current_pid := ?n\<rparr>"
      using t False by (simp add: switch_states_def Let_def st0)
    then have "sched_ok t \<and> view t = abs_switch (view s)"
      using False s n(2) by (simp add: sched_ok_def view_def st_set_pcb eq n(1) [symmetric]) (simp add: cur_def Let_def)
    with t show ?thesis by simp
  qed
qed

lemma sched_ok_simps [simp]:
  "sched_ok (call_context_switch L a b s) = sched_ok s" "sched_ok (set_pcb i f t) = sched_ok t"
  by (simp_all add: sched_ok_def)

lemma view_simps [simp]: "view (call_context_switch L a b s) = view s"
  by (simp add: view_def)

lemma sched_ok_upd [simp]:
  "sched_ok (s\<lparr>ram := m\<rparr>) = sched_ok s"
  by (simp add: sched_ok_def)

lemma sched_ok_upd2 [simp]:
  "sched_ok (s\<lparr>processor := c\<rparr>) = sched_ok s" "sched_ok (s\<lparr>tick_count := t\<rparr>) = sched_ok s"
  "sched_ok (s\<lparr>ports_out := o'\<rparr>) = sched_ok s" "view (s\<lparr>processor := c\<rparr>) = view s"
  "view (s\<lparr>tick_count := t\<rparr>) = view s" "view (s\<lparr>ports_out := o'\<rparr>) = view s"
  for s :: sched
  by (simp_all add: sched_ok_def view_def)

lemma pick_and_switch_view:
  assumes "sched_ok s"
  shows "sched_ok (snd (pick_and_switch L s)) \<and> view (snd (pick_and_switch L s)) = abs_switch (view s)"
  using switch_states_view [OF assms] assms
  by (simp add: pick_and_switch_def split: option.splits)

text \<open>Every call of the kernel acts on the states of the slots as the abstract step says.\<close>

lemma process_create_view:
  assumes "sched_ok s"
  shows "sched_ok (snd (process_create stacks nm entry s))
    \<and> view (snd (process_create stacks nm entry s)) = abs_step (Create nm entry) (view s)"
proof -
  have ff: "for_find (\<lambda>i. st s i = PROCESS_FREE) 1 16 = first_free s" by (simp add: first_free_def st_def)
  show ?thesis
  proof (cases "first_free s")
    case None
    then show ?thesis using assms by (simp only: process_create_none) (simp add: view_def ff [simplified])
  next
    case (Some slot)
    then have "slot < 16" by (simp add: first_free_def loop_simps)
    moreover obtain e m where "process_create stacks nm entry s = (int slot, set_pcb slot
        (\<lambda>p. p\<lparr>pid := of_nat slot, state := PROCESS_READY, esp := e, stack := stacks + of_nat slot * 4096,
           name := proc_strncpy (name p) nm 32\<rparr>) (s\<lparr>ram := m\<rparr>))"
      using process_create_Some [OF Some] assms unfolding sched_ok_def by blast
    ultimately show ?thesis
      using assms by (simp add: view_def ff [simplified] Some sched_ok_def st_set_pcb)
  qed
qed

lemma kexec_view:
  assumes "sched_ok s"
  shows "sched_ok (kexec L k s) \<and> view (kexec L k s) = abs_step k (view s)"
proof (cases k)
  case (Create nm entry)
  with process_create_view [OF assms] show ?thesis by simp
next
  case (Terminate p)
  then show ?thesis
    using assms by (auto simp: process_terminate_def sched_ok_def view_def st_set_pcb word_le_nat_alt)
next
  case Tick
  with assms show ?thesis
    using pick_and_switch_view [of "s\<lparr>tick_count := tick_count s + 1, ports_out := pic_send_eoi 0 (ports_out s)\<rparr>" L]
    by (simp add: scheduler_tick_def Let_def)
next
  case Yield
  with assms show ?thesis
    using pick_and_switch_view [of "s\<lparr>processor := (processor s)\<lparr>intr := False\<rparr>\<rparr>" L]
    by (cases "pick_and_switch L (s\<lparr>processor := (processor s)\<lparr>intr := False\<rparr>\<rparr>)")
      (simp add: scheduler_yield_def Let_def)
next
  case (Unblock p)
  then show ?thesis
    using assms by (auto simp: scheduler_unblock_def sched_ok_def view_def st_set_pcb word_le_nat_alt word_less_nat_alt) (simp_all add: st_def)
next
  case Block
  then show ?thesis
    using assms by (simp add: block_current_def view_def sched_ok_def st_set_pcb cur_def)
qed

section \<open>The invariant of the table\<close>

definition sched_inv :: "(nat \<Rightarrow> process_state) \<times> nat \<Rightarrow> bool" where
  "sched_inv = (\<lambda>(f, c). c < 16 \<and> (\<forall>i < 16. f i = PROCESS_RUNNING \<longrightarrow> i = c)
     \<and> f 0 \<noteq> PROCESS_FREE \<and> f 0 \<noteq> PROCESS_TERMINATED)"

lemma next_of_ready: "next_of f c \<noteq> c \<Longrightarrow> f (next_of f c) = PROCESS_READY"
  by (auto simp: next_of_def loop_simps split: option.splits if_splits)

lemma abs_switch_inv: "sched_inv (f, c) \<Longrightarrow> sched_inv (abs_switch (f, c))"
  using next_of_less [of c f] next_of_ready [of f c]
  by (cases "next_of f c = c") (auto simp: sched_inv_def Let_def)

lemma abs_step_inv:
  assumes "sched_inv (f, c)"
  shows "sched_inv (abs_step k (f, c))"
proof (cases k)
  case (Create nm e)
  with assms show ?thesis
    by (cases "for_find (\<lambda>i. f i = PROCESS_FREE) 1 16") (auto simp: sched_inv_def dest: for_find_SomeD)
next
  case (Terminate p)
  have "unat p = 0 \<longleftrightarrow> p = 0" by (simp add: unat_eq_zero)
  with Terminate assms show ?thesis by (auto simp: sched_inv_def word_le_nat_alt)
next
  case (Unblock p)
  with assms show ?thesis by (auto simp: sched_inv_def)
next
  case Block
  with assms show ?thesis by (auto simp: sched_inv_def)
qed (use assms in \<open>simp_all only: abs_step.simps abs_switch_inv\<close>)

lemma process_init_view: "sched_ok (process_init s)"
  "view (process_init s) = (st (process_init s), 0)"
  "i < 16 \<Longrightarrow> st (process_init s) i = (if i = 0 then PROCESS_RUNNING else PROCESS_FREE)"
  by (simp_all add: process_init_def Let_def sched_ok_def view_def st_def cur_def zero_pcb_def nth_Cons')

lemma kexec_inv: "sched_ok s \<Longrightarrow> sched_inv (view s) \<Longrightarrow> sched_inv (view (kexec L k s))"
  by (cases "view s") (simp add: kexec_view abs_step_inv)

lemma krun_inv: "sched_ok s \<Longrightarrow> sched_inv (view s) \<Longrightarrow> sched_ok (krun L cs s) \<and> sched_inv (view (krun L cs s))"
  by (induction cs arbitrary: s) (simp_all add: conjunct1 [OF kexec_view] kexec_inv)

lemma sched_inv_init: "sched_inv (view (process_init s))"
  by (simp add: process_init_view sched_inv_def)

text \<open>C29. Whatever sequence of creations, terminations, ticks, yields, blocks and wake-ups follows the
  initialisation, the current pid is a slot of the table, only the current process is RUNNING, and
  the kernel's own slot is neither free nor terminated.\<close>

theorem scheduler_invariant:
  "unat (current_pid (krun L cs (process_init s))) < 16
   \<and> (\<forall>i < 16. state (process_table (krun L cs (process_init s)) ! i) = PROCESS_RUNNING
        \<longrightarrow> i = unat (current_pid (krun L cs (process_init s))))
   \<and> state (process_table (krun L cs (process_init s)) ! 0) \<noteq> PROCESS_FREE
   \<and> state (process_table (krun L cs (process_init s)) ! 0) \<noteq> PROCESS_TERMINATED"
  using krun_inv [OF process_init_view(1) sched_inv_init, of L cs]
  by (simp add: sched_inv_def view_def st_def cur_def)

section \<open>Slots are never reused\<close>

definition none_free :: "nat \<Rightarrow> (nat \<Rightarrow> process_state) \<times> nat \<Rightarrow> bool" where
  "none_free n = (\<lambda>(f, c). \<forall>i. 1 \<le> i \<and> i \<le> n \<longrightarrow> f i \<noteq> PROCESS_FREE)"

lemma none_free_step: "none_free n (f, c) \<Longrightarrow> none_free n (abs_step k (f, c))"
  by (cases k) (auto simp: none_free_def Let_def split: option.splits)

lemma created_Cons: "created L (k # cs) s =
    (case k of Create nm entry \<Rightarrow> [fst (process_create (stacks_addr L) nm entry s)] | _ \<Rightarrow> []) @ created L cs (kexec L k s)"
  by simp

text \<open>A successful creation returns a slot above all slots known to be taken, and takes it.\<close>

lemma process_create_above:
  assumes "sched_ok s" "none_free n (view s)"
  shows "case process_create stacks nm entry s of (r, t) \<Rightarrow>
     r = -1 \<and> t = s \<or> (\<exists>m. r = int m \<and> n < m \<and> m < 16 \<and> none_free m (view t))"
proof (cases "first_free s")
  case None
  then show ?thesis by (simp add: process_create_none)
next
  case (Some m)
  have m: "n < m" "m < 16" "\<And>i. 1 \<le> i \<Longrightarrow> i < m \<Longrightarrow> st s i \<noteq> PROCESS_FREE"
    using Some assms(2) by (auto simp: first_free_def loop_simps none_free_def view_def st_def not_le [symmetric])
  obtain t where t: "process_create stacks nm entry s = (int m, t)"
    using process_create_Some [OF Some] assms(1) unfolding sched_ok_def by blast
  have "view t = ((st s)(m := PROCESS_READY), cur s)"
    using process_create_view [OF assms(1), of stacks nm entry] t Some
    by (simp add: view_def first_free_def st_def)
  with m t show ?thesis by (auto simp: none_free_def order_less_le)
qed

lemma created_above:
  assumes "sched_ok s" "none_free n (view s)" "n < 16"
  shows "sorted_wrt (<) (filter (\<lambda>r. 0 \<le> r) (created L cs s))
     \<and> set (filter (\<lambda>r. 0 \<le> r) (created L cs s)) \<subseteq> {int n<..15}"
  using assms
proof (induction cs arbitrary: s n)
  case (Cons k cs)
  note ok = conjunct1 [OF kexec_view [OF Cons.prems(1), of L k]]
  have nf: "none_free n (view (kexec L k s))"
    using kexec_view [OF Cons.prems(1), of L k] Cons.prems(2) by (simp add: none_free_step view_def [of s])
  show ?case
  proof (cases k)
    case (Create nm entry)
    obtain r t where t: "process_create (stacks_addr L) nm entry s = (r, t)" by (metis surj_pair)
    show ?thesis
      using process_create_above [OF Cons.prems(1,2), of "stacks_addr L" nm entry] Cons.IH [OF ok] nf Cons.prems(3)
      by (auto simp: Create t less_le_trans subset_iff)
  qed (use Cons.IH [OF ok nf Cons.prems(3)] in simp_all)
qed simp

text \<open>C36. A terminated slot is never used again: the pids handed out after boot are strictly increasing
  numbers from 1 to 15, so however many processes end, at most fifteen can ever be created.\<close>

theorem process_slots_never_reused:
  "sorted_wrt (<) (filter (\<lambda>r. 0 \<le> r) (created L cs (process_init s)))
   \<and> set (filter (\<lambda>r. 0 \<le> r) (created L cs (process_init s))) \<subseteq> {1..15}
   \<and> length (filter (\<lambda>r. 0 \<le> r) (created L cs (process_init s))) \<le> 15"
proof -
  let ?rs = "filter (\<lambda>r. 0 \<le> r) (created L cs (process_init s))"
  have rs: "sorted_wrt (<) ?rs \<and> set ?rs \<subseteq> {0<..15}"
    using created_above [OF process_init_view(1), of 0 s L cs] by (simp add: none_free_def view_def)
  then have "distinct ?rs" by (simp add: strict_sorted_iff)
  then have "length ?rs = card (set ?rs)" by (simp only: distinct_card)
  also have "\<dots> \<le> card {0::int<..15}" by (rule card_mono) (use rs in simp_all)
  finally have "length ?rs \<le> 15" by simp
  moreover have "{0::int<..15} = {1..15}" by auto
  ultimately show ?thesis using rs by simp
qed

section \<open>Round robin is fair\<close>

text \<open>How far round the table the scan has to go from \<open>c\<close> to reach \<open>p\<close>.\<close>

definition dist :: "nat \<Rightarrow> nat \<Rightarrow> nat" where
  "dist c p = (p + 16 - c) mod 16"

lemma dist_eq: "c < 16 \<Longrightarrow> p < 16 \<Longrightarrow> dist c p = (if c \<le> p then p - c else p + 16 - c)"
  by (simp add: dist_def mod_if)

lemma mod_16_eq: "(n :: nat) < 32 \<Longrightarrow> n mod 16 = (if n < 16 then n else n - 16)"
  by (simp add: mod_if)

lemma dist_reach:
  assumes "c < 16" "p < 16"
  shows "(c + dist c p) mod 16 = p \<and> dist c p < 16 \<and> (c \<noteq> p \<longrightarrow> 1 \<le> dist c p)"
proof -
  note d = dist_eq [OF assms]
  have "c + dist c p < 32" using assms d by (auto split: if_splits)
  note mod_16_eq [OF this]
  with d assms show ?thesis by (auto split: if_splits)
qed

lemma dist_closer:
  assumes "c < 16" "p < 16" "1 \<le> i" "i \<le> dist c p"
  shows "dist ((c + i) mod 16) p < dist c p"
proof -
  note d = dist_eq [OF assms(1,2)]
  have "c + i < 32" using assms d by (auto split: if_splits)
  note m = mod_16_eq [OF this]
  have "(c + i) mod 16 < 16" by simp
  note dist_eq [OF this assms(2)]
  with d m assms show ?thesis by (auto split: if_splits)
qed

lemma next_of_closer:
  assumes "c < 16" "p < 16" "c \<noteq> p" "f p = PROCESS_READY"
  shows "next_of f c \<noteq> c \<and> dist (next_of f c) p < dist c p"
proof -
  note d = dist_reach [OF assms(1,2)]
  obtain i where i: "for_find (\<lambda>i. f ((c + i) mod 16) = PROCESS_READY) 1 16 = Some i"
    using d assms(3,4) by (cases "for_find (\<lambda>i. f ((c + i) mod 16) = PROCESS_READY) 1 16")
      (auto simp: loop_simps)
  have "i \<le> dist c p"
  proof (rule ccontr)
    assume "\<not> i \<le> dist c p"
    with for_find_SomeD(4) [OF i, of "dist c p"] d assms(3,4) show False by simp
  qed
  then have "dist ((c + i) mod 16) p < dist c p"
    using for_find_SomeD(1) [OF i] by (intro dist_closer assms(1,2))
  with i show ?thesis by (auto simp: next_of_def)
qed

definition switches :: "kcall list \<Rightarrow> nat" where
  "switches cs = length (filter (\<lambda>k. k = Tick \<or> k = Yield) cs)"

lemma switches_simps [simp]:
  "switches [] = 0" "switches (k # cs) = (if k = Tick \<or> k = Yield then Suc (switches cs) else switches cs)"
  by (simp_all add: switches_def)

text \<open>A call that is neither a switch nor the termination of \<open>p\<close> leaves a READY \<open>p\<close> that is not
  current READY, and leaves the current process.\<close>

lemma abs_step_ready:
  assumes "f p = PROCESS_READY" "c \<noteq> p" "k \<noteq> Tick" "k \<noteq> Yield" "\<And>w. k = Terminate w \<Longrightarrow> unat w \<noteq> p"
  shows "\<exists>g. abs_step k (f, c) = (g, c) \<and> g p = PROCESS_READY"
  using assms by (cases k) (auto split: option.splits simp: loop_simps)

lemma scheduler_reaches:
  assumes "sched_ok s" "p < 16" "st s p = PROCESS_READY" "\<And>w. Terminate w \<in> set cs \<Longrightarrow> unat w \<noteq> p"
    "dist (cur s) p \<le> switches cs"
  shows "\<exists>k \<le> length cs. cur (krun L (take k cs) s) = p"
  using assms
proof (induction cs arbitrary: s)
  case Nil
  then have "cur s = p" using dist_reach [of "cur s" p] by (auto simp: sched_ok_def)
  then show ?case by simp
next
  case (Cons k cs)
  show ?case
  proof (cases "cur s = p")
    case True
    then show ?thesis by (intro exI [of _ 0]) simp
  next
    case ne: False
    have c: "cur s < 16" using Cons.prems(1) by (simp add: sched_ok_def)
    note ok = kexec_view [OF Cons.prems(1), of L k]
    show ?thesis
    proof (cases "k = Tick \<or> k = Yield")
      case True
      note n = next_of_closer [where f = "st s", OF c Cons.prems(2) ne Cons.prems(3)]
      have v: "cur (kexec L k s) = next_of (st s) (cur s)"
        "next_of (st s) (cur s) \<noteq> p \<Longrightarrow> st (kexec L k s) p = PROCESS_READY"
        using ok True n Cons.prems(3) ne by (auto simp: view_def Let_def)
      show ?thesis
      proof (cases "next_of (st s) (cur s) = p")
        case True
        with v show ?thesis by (intro exI [of _ 1]) simp
      next
        case False
        have "\<exists>j \<le> length cs. cur (krun L (take j cs) (kexec L k s)) = p"
          using Cons.prems ok v False n True by (intro Cons.IH) auto
        then show ?thesis by (metis Suc_le_mono krun.simps(2) length_Cons take_Suc_Cons)
      qed
    next
      case False
      obtain g where "view (kexec L k s) = (g, cur s)" "g p = PROCESS_READY"
        using abs_step_ready [of "st s" p "cur s" k] False ne ok Cons.prems(3,4) by (auto simp: view_def)
      then have "\<exists>j \<le> length cs. cur (krun L (take j cs) (kexec L k s)) = p"
        using Cons.prems ok False by (intro Cons.IH) (auto simp: view_def)
      then show ?thesis by (metis Suc_le_mono krun.simps(2) length_Cons take_Suc_Cons)
    qed
  qed
qed

text \<open>C28. Round robin is fair: a process that is READY is running within the next fifteen ticks or yields,
  whatever else is created, blocked, woken or terminated in between.\<close>

theorem scheduler_fair:
  assumes "length (process_table s) = 16" "unat (current_pid s) < 16"
    and "p < 16" "state (process_table s ! p) = PROCESS_READY"
    and "15 \<le> switches cs" "\<forall>w. Terminate w \<in> set cs \<longrightarrow> unat w \<noteq> p"
  shows "\<exists>k \<le> length cs. unat (current_pid (krun L (take k cs) s)) = p"
proof -
  have "dist (cur s) p < 16" using dist_reach [of "cur s" p] assms(2,3) by (simp add: cur_def)
  then show ?thesis
    using scheduler_reaches [of s p cs L] assms by (simp add: sched_ok_def cur_def st_def)
qed

section \<open>The properties at work\<close>

definition demo_layout :: layout where
  "demo_layout = \<lparr>stacks_addr = 0x20000, table_addr = 0x5000, resume_addr = 0x10077\<rparr>"

definition demo_sched :: sched where
  "demo_sched = \<lparr>process_table = (replicate 16 zero_pcb)
      [0 := zero_pcb\<lparr>state := PROCESS_RUNNING\<rparr>, 3 := zero_pcb\<lparr>state := PROCESS_READY\<rparr>, 5 := zero_pcb\<lparr>state := PROCESS_READY\<rparr>],
    current_pid = 0, ram = \<lambda>_. 0, processor = demo_cpu, tick_count = 0, ports_out = []\<rparr>"

theorem scheduler_invariant_witness:
  "state (process_table (krun demo_layout [Create (bytes ''a'') 0x10234, Tick, Terminate 1, Tick] (process_init demo_sched)) ! 0)
     \<noteq> PROCESS_TERMINATED"
  using scheduler_invariant [of demo_layout "[Create (bytes ''a'') 0x10234, Tick, Terminate 1, Tick]" demo_sched] by blast

theorem scheduler_fair_witness:
  "\<exists>k \<le> 16. unat (current_pid (krun demo_layout (take k (Terminate 3 # replicate 15 Tick)) demo_sched)) = 5"
proof -
  have "15 \<le> switches (Terminate 3 # replicate 15 Tick)" by (simp add: switches_def)
  with scheduler_fair [of demo_sched 5 "Terminate 3 # replicate 15 Tick" demo_layout] show ?thesis
    by (simp add: demo_sched_def)
qed

end
