(* ===== verification/Steps.thy ===== *)
theory Steps
  imports Main
begin

text \<open>
  What the step relations of the kernel share: an invariant that every step keeps holds along every run.
\<close>

locale preserved =
  fixes step :: "'s \<Rightarrow> 's \<Rightarrow> bool" and inv :: "'s \<Rightarrow> bool"
  assumes keep: "inv s \<Longrightarrow> step s s' \<Longrightarrow> inv s'"
begin

lemma run: "rtranclp step s s' \<Longrightarrow> inv s \<Longrightarrow> inv s'"
  by (induction rule: rtranclp_induct) (auto intro: keep)

lemma run_from: "inv s \<Longrightarrow> rtranclp step s s' \<Longrightarrow> (\<And>s. inv s \<Longrightarrow> P s) \<Longrightarrow> P s'"
  using run by blast

end

end
