(* ===== verification/Mutex.thy ===== *)
theory Mutex
  imports Scheduler Vga Steps
begin

text \<open>
  Threads and the mutex (\<^verbatim>\<open>kernel/thread.c\<close>, \<^verbatim>\<open>kernel/mutex.c\<close>), with the threads of
  \<^verbatim>\<open>kernel/kernel.c\<close> that use them. A timer interrupt can come between any two accesses to shared
  memory, so a thread is a program counter over its accesses to shared memory; the section between
  \<^verbatim>\<open>cli\<close> and \<^verbatim>\<open>sti\<close> is one step. The process table, \<^verbatim>\<open>current_pid\<close>, the mutex, the two counters and
  the screen are shared.
\<close>

section \<open>State\<close>

record mutex =
  locked :: int
  owner :: int
  waiters :: "u32 list"
  nwaiters :: int

text \<open>The program counters, in the order of the code: the loop of the thread, \<^verbatim>\<open>mutex_lock\<close>, the
  increment, \<^verbatim>\<open>mutex_unlock\<close> (its \<^verbatim>\<open>--m->nwaiters\<close> is a load and a store), the report and
  \<^verbatim>\<open>thread_exit\<close>.\<close>

datatype tpc = LoopTest
  | Xchg | Enqueue | YieldCall | SetOwner
  | LoadG | StoreG
  | ClearOwner | Release | TestWaiters | PopLoad | PopStore | PopRead | Wake
  | NextI | SetColor | Print | DoneLoad | DoneStore
  | ExitCall | Halt

text \<open>What distinguishes the four thread functions: the text and colour of the report, and whether the
  increment is protected.\<close>

record prog =
  label :: "u8 list"
  color :: vga_color
  use_mutex :: bool

record thread =
  pc :: tpc
  prog :: prog
  idx :: int
  reg :: int
  wake :: u32

record world = procs +
  mtx :: mutex
  myglobal :: int
  race_done :: int
  screen :: vga
  threads :: "nat \<Rightarrow> thread option"

text \<open>An access to \<^verbatim>\<open>waiters\<close> outside its 16 entries, or a report that does not fit its arguments.\<close>

datatype fault = BadWaiterIndex int | BadFormat

section \<open>The mutex\<close>

definition atomic_xchg :: "mutex \<Rightarrow> int \<Rightarrow> int \<times> mutex" where
  "atomic_xchg m val = (locked m, m\<lparr>locked := val\<rparr>)"

definition mutex_init :: "mutex \<Rightarrow> mutex" where
  "mutex_init m = (let m = m\<lparr>locked := 0\<rparr>; m = m\<lparr>owner := -1\<rparr> in m\<lparr>nwaiters := 0\<rparr>)"

text \<open>A switch to another thread, by a tick or by \<^verbatim>\<open>scheduler_yield\<close>: execution goes on where the next
  process's program counter stands.\<close>

definition reschedule :: "'a procs_scheme \<Rightarrow> 'a procs_scheme" where
  "reschedule w = (case switch_states w of None \<Rightarrow> w | Some v \<Rightarrow> v)"

definition mutex_lock_step :: "thread \<Rightarrow> world \<Rightarrow> fault + (thread \<times> world)" where
  "mutex_lock_step t w =
     (case pc t of
        Xchg \<Rightarrow>
          (let (old, m) = atomic_xchg (mtx w) 1
           in Inr (t\<lparr>pc := (if old = 1 then Enqueue else SetOwner)\<rparr>, w\<lparr>mtx := m\<rparr>))
      | Enqueue \<Rightarrow>
          (let m = mtx w; n = nwaiters m in
           if 0 \<le> n \<and> n < 16 then
             (let m = m\<lparr>nwaiters := n + 1\<rparr>;
                  m = m\<lparr>waiters := (waiters m)[nat n := current_pid w]\<rparr>
              in Inr (t\<lparr>pc := YieldCall\<rparr>, block_current (w\<lparr>mtx := m\<rparr>)))
           else Inl (BadWaiterIndex n))
      | YieldCall \<Rightarrow> Inr (t\<lparr>pc := Xchg\<rparr>, reschedule w)
      | SetOwner \<Rightarrow> Inr (t\<lparr>pc := LoadG\<rparr>, w\<lparr>mtx := (mtx w)\<lparr>owner := sint (current_pid w)\<rparr>\<rparr>)
      | _ \<Rightarrow> Inr (t, w))"

definition mutex_unlock_step :: "thread \<Rightarrow> world \<Rightarrow> fault + (thread \<times> world)" where
  "mutex_unlock_step t w =
     (case pc t of
        ClearOwner \<Rightarrow> Inr (t\<lparr>pc := Release\<rparr>, w\<lparr>mtx := (mtx w)\<lparr>owner := -1\<rparr>\<rparr>)
      | Release \<Rightarrow> Inr (t\<lparr>pc := TestWaiters\<rparr>, w\<lparr>mtx := (mtx w)\<lparr>locked := 0\<rparr>\<rparr>)
      | TestWaiters \<Rightarrow> Inr (t\<lparr>pc := (if 0 < nwaiters (mtx w) then PopLoad else NextI)\<rparr>, w)
      | PopLoad \<Rightarrow> Inr (t\<lparr>pc := PopStore, reg := nwaiters (mtx w)\<rparr>, w)
      | PopStore \<Rightarrow> Inr (t\<lparr>pc := PopRead, reg := reg t - 1\<rparr>, w\<lparr>mtx := (mtx w)\<lparr>nwaiters := reg t - 1\<rparr>\<rparr>)
      | PopRead \<Rightarrow>
          (if 0 \<le> reg t \<and> reg t < 16
           then Inr (t\<lparr>pc := Wake, wake := waiters (mtx w) ! nat (reg t)\<rparr>, w)
           else Inl (BadWaiterIndex (reg t)))
      | Wake \<Rightarrow> Inr (t\<lparr>pc := NextI\<rparr>, scheduler_unblock (wake t) w)
      | _ \<Rightarrow> Inr (t, w))"

section \<open>Threads\<close>

definition thread_create :: "u32 \<Rightarrow> cstr \<Rightarrow> u32 \<Rightarrow> 'a procs_scheme \<Rightarrow> int \<times> 'a procs_scheme" where
  "thread_create stacks nm entry s = process_create stacks nm entry s"

text \<open>\<^verbatim>\<open>thread_exit\<close>: terminate the caller, then halt for ever.\<close>

definition thread_exit_step :: "thread \<Rightarrow> world \<Rightarrow> fault + (thread \<times> world)" where
  "thread_exit_step t w =
     (if pc t = ExitCall then Inr (t\<lparr>pc := Halt\<rparr>, process_terminate (current_pid w) w) else Inr (t, w))"

text \<open>The body of \<^verbatim>\<open>race_thread_a\<close>, \<^verbatim>\<open>race_thread_b\<close>, \<^verbatim>\<open>racem_thread_a\<close> and \<^verbatim>\<open>racem_thread_b\<close>, with the
  number of iterations as an argument.\<close>

definition race_step :: "int \<Rightarrow> thread \<Rightarrow> world \<Rightarrow> fault + (thread \<times> world)" where
  "race_step iters t w =
     (case pc t of
        LoopTest \<Rightarrow>
          Inr (t\<lparr>pc := (if idx t < iters then (if use_mutex (prog t) then Xchg else LoadG) else SetColor)\<rparr>, w)
      | LoadG \<Rightarrow> Inr (t\<lparr>pc := StoreG, reg := myglobal w\<rparr>, w)
      | StoreG \<Rightarrow>
          Inr (t\<lparr>pc := (if use_mutex (prog t) then ClearOwner else NextI)\<rparr>, w\<lparr>myglobal := reg t + 1\<rparr>)
      | NextI \<Rightarrow> Inr (t\<lparr>pc := LoopTest, idx := idx t + 1\<rparr>, w)
      | SetColor \<Rightarrow> Inr (t\<lparr>pc := Print\<rparr>, w\<lparr>screen := vga_set_color (color (prog t)) VGA_BLACK (screen w)\<rparr>)
      | Print \<Rightarrow>
          (case vga_printf (label (prog t)) [VInt (of_int (myglobal w))] (screen w) of
             None \<Rightarrow> Inl BadFormat
           | Some v \<Rightarrow> Inr (t\<lparr>pc := DoneLoad\<rparr>, w\<lparr>screen := v\<rparr>))
      | DoneLoad \<Rightarrow> Inr (t\<lparr>pc := DoneStore, reg := race_done w\<rparr>, w)
      | DoneStore \<Rightarrow> Inr (t\<lparr>pc := ExitCall\<rparr>, w\<lparr>race_done := reg t + 1\<rparr>)
      | _ \<Rightarrow> Inr (t, w))"

definition thread_step :: "int \<Rightarrow> thread \<Rightarrow> world \<Rightarrow> fault + (thread \<times> world)" where
  "thread_step iters t w =
     (if pc t \<in> {Xchg, Enqueue, YieldCall, SetOwner} then mutex_lock_step t w
      else if pc t \<in> {ClearOwner, Release, TestWaiters, PopLoad, PopStore, PopRead, Wake} then mutex_unlock_step t w
      else if pc t \<in> {ExitCall, Halt} then thread_exit_step t w
      else race_step iters t w)"

section \<open>Interleaving\<close>

text \<open>The current process takes a step (a process that runs none of the thread functions does not touch
  this state), or a timer interrupt reschedules.\<close>

definition run_current :: "int \<Rightarrow> world \<Rightarrow> fault + world" where
  "run_current iters w =
     (case threads w (cur w) of
        None \<Rightarrow> Inr w
      | Some t \<Rightarrow>
          (case thread_step iters t w of
             Inl e \<Rightarrow> Inl e
           | Inr (t', w') \<Rightarrow> Inr (w'\<lparr>threads := (threads w')(cur w \<mapsto> t')\<rparr>)))"

inductive wstep :: "int \<Rightarrow> world \<Rightarrow> world \<Rightarrow> bool" for iters where
  run: "run_current iters w = Inr w' \<Longrightarrow> wstep iters w w'"
| irq: "wstep iters w (reschedule w)"

inductive reach :: "int \<Rightarrow> world \<Rightarrow> world \<Rightarrow> bool" for iters where
  reach_refl: "reach iters w w"
| step: "reach iters w w' \<Longrightarrow> wstep iters w' w'' \<Longrightarrow> reach iters w w''"

section \<open>The shell's commands that start the threads\<close>

text \<open>Every thread the shell starts: \<^verbatim>\<open>thread_create\<close>, and, when it succeeds, a thread at its first
  statement; a failure is ignored, as in the code.\<close>

definition spawn :: "u32 \<Rightarrow> cstr \<times> u32 \<times> prog \<Rightarrow> 'a world_scheme \<Rightarrow> 'a world_scheme" where
  "spawn stacks = (\<lambda>(nm, entry, pr) w.
     (let (r, w) = thread_create stacks nm entry w in
      if r < 0 then w
      else w\<lparr>threads := (threads w)(nat r \<mapsto> \<lparr>pc = LoopTest, prog = pr, idx = 0, reg = 0, wake = 0\<rparr>)\<rparr>))"

definition race_a :: prog where
  "race_a = \<lparr>label = bytes [CHR 0x0A] @ bytes ''  [race_a] done. myglobal = %d'' @ bytes [CHR 0x0A],
     color = VGA_LIGHT_CYAN, use_mutex = False\<rparr>"

definition race_b :: prog where
  "race_b = \<lparr>label = bytes [CHR 0x0A] @ bytes ''  [race_b] done. myglobal = %d'' @ bytes [CHR 0x0A],
     color = VGA_LIGHT_MAGENTA, use_mutex = False\<rparr>"

definition racem_a :: prog where
  "racem_a = \<lparr>label = bytes [CHR 0x0A] @ bytes ''  [racem_a] done. myglobal = %d'' @ bytes [CHR 0x0A],
     color = VGA_LIGHT_CYAN, use_mutex = True\<rparr>"

definition racem_b :: prog where
  "racem_b = \<lparr>label = bytes [CHR 0x0A] @ bytes ''  [racem_b] done. myglobal = %d'' @ bytes [CHR 0x0A],
     color = VGA_LIGHT_MAGENTA, use_mutex = True\<rparr>"

definition race_command :: "u32 \<Rightarrow> u32 \<Rightarrow> u32 \<Rightarrow> 'a world_scheme \<Rightarrow> 'a world_scheme" where
  "race_command stacks entry_a entry_b w =
     (let w = w\<lparr>myglobal := 0\<rparr>; w = w\<lparr>race_done := 0\<rparr>;
          w = spawn stacks (bytes ''race_a'', entry_a, race_a) w
      in spawn stacks (bytes ''race_b'', entry_b, race_b) w)"

definition racem_command :: "u32 \<Rightarrow> u32 \<Rightarrow> u32 \<Rightarrow> 'a world_scheme \<Rightarrow> 'a world_scheme" where
  "racem_command stacks entry_a entry_b w =
     (let w = w\<lparr>myglobal := 0\<rparr>; w = w\<lparr>race_done := 0\<rparr>;
          w = w\<lparr>mtx := mutex_init (mtx w)\<rparr>;
          w = spawn stacks (bytes ''racem_a'', entry_a, racem_a) w
      in spawn stacks (bytes ''racem_b'', entry_b, racem_b) w)"

definition RACE_ITERS :: int where
  "RACE_ITERS = 100000"

section \<open>What a step leaves alone\<close>

named_theorems world_simps \<open>fields of the world that an operation on the process table keeps\<close>

lemma set_pcb_world [world_simps]:
  "mtx (set_pcb i f w) = mtx w" "threads (set_pcb i f w) = threads w" "myglobal (set_pcb i f w) = myglobal w"
  by (simp_all add: set_pcb_def)

lemma reschedule_world [world_simps]:
  "mtx (reschedule w) = mtx w" "threads (reschedule w) = threads w" "myglobal (reschedule w) = myglobal w"
  by (simp_all add: reschedule_def switch_states_def Let_def world_simps)

lemma table_ops_world [world_simps]:
  "mtx (block_current w) = mtx w" "threads (block_current w) = threads w" "myglobal (block_current w) = myglobal w"
  "mtx (scheduler_unblock p w) = mtx w" "threads (scheduler_unblock p w) = threads w"
  "myglobal (scheduler_unblock p w) = myglobal w"
  "mtx (process_terminate p w) = mtx w" "threads (process_terminate p w) = threads w"
  "myglobal (process_terminate p w) = myglobal w"
  by (simp_all add: block_current_def scheduler_unblock_def process_terminate_def world_simps)

lemmas step_defs = thread_step_def mutex_lock_step_def mutex_unlock_step_def thread_exit_step_def race_step_def
  atomic_xchg_def Let_def

lemma thread_step_keeps:
  "thread_step iters t w = Inr (t', w') \<Longrightarrow> threads w' = threads w \<and> prog t' = prog t"
  by (cases "pc t") (auto simp: step_defs world_simps split: if_splits option.splits)

section \<open>Mutual exclusion\<close>

text \<open>A thread is in its critical section from the exchange that took the lock up to the store that
  releases it.\<close>

definition in_cs :: "thread \<Rightarrow> bool" where
  "in_cs t \<longleftrightarrow> pc t \<in> {SetOwner, LoadG, StoreG, ClearOwner, Release}"

lemma step_xchg:
  assumes "pc t = Xchg" "thread_step iters t w = Inr (t', w')"
  shows "locked (mtx w') = 1 \<and> (in_cs t' \<longleftrightarrow> locked (mtx w) \<noteq> 1) \<and> owner (mtx w') = owner (mtx w)"
  using assms by (auto simp: step_defs in_cs_def)

lemma step_release:
  assumes "pc t = Release" "thread_step iters t w = Inr (t', w')"
  shows "locked (mtx w') = 0 \<and> \<not> in_cs t'"
  using assms by (auto simp: step_defs in_cs_def)

lemma step_other:
  assumes "pc t \<noteq> Xchg" "pc t \<noteq> Release" "use_mutex (prog t)" "thread_step iters t w = Inr (t', w')"
  shows "locked (mtx w') = locked (mtx w) \<and> (in_cs t' \<longleftrightarrow> in_cs t)"
  using assms by (cases "pc t") (auto simp: step_defs in_cs_def world_simps split: if_splits option.splits)

text \<open>The part of the critical section in which the lock names its holder.\<close>

definition owns :: "thread \<Rightarrow> bool" where
  "owns t \<longleftrightarrow> pc t \<in> {LoadG, StoreG, ClearOwner}"

lemma owns_in_cs: "owns t \<Longrightarrow> in_cs t"
  by (auto simp: owns_def in_cs_def)

lemma step_owner:
  assumes "use_mutex (prog t)" "thread_step iters t w = Inr (t', w')"
  shows "(owner (mtx w') = owner (mtx w) \<or> in_cs t)
    \<and> (owns t' \<longrightarrow> owns t \<and> owner (mtx w') = owner (mtx w) \<or> owner (mtx w') = sint (current_pid w))"
  using assms by (cases "pc t") (auto simp: step_defs in_cs_def owns_def world_simps split: if_splits option.splits)

definition lock_inv :: "world \<Rightarrow> bool" where
  "lock_inv w \<longleftrightarrow>
     (\<forall>p t. threads w p = Some t \<longrightarrow> use_mutex (prog t))
   \<and> (\<forall>p t. threads w p = Some t \<and> in_cs t \<longrightarrow> locked (mtx w) = 1)
   \<and> (\<forall>p q t u. threads w p = Some t \<and> threads w q = Some u \<and> in_cs t \<and> in_cs u \<longrightarrow> p = q)
   \<and> (\<forall>p t. threads w p = Some t \<and> owns t \<longrightarrow> owner (mtx w) = sint (of_nat p :: u32))"

lemma lock_inv_cong:
  "mtx w' = mtx w \<Longrightarrow> threads w' = threads w \<Longrightarrow> lock_inv w' = lock_inv w"
  by (simp add: lock_inv_def)

lemma lock_inv_upd:
  assumes inv: "lock_inv w" and t: "threads w c = Some t" and thr: "threads w' = (threads w)(c \<mapsto> t')"
    and prog: "prog t' = prog t"
    and enter: "in_cs t' \<Longrightarrow> locked (mtx w') = 1 \<and> (in_cs t \<or> locked (mtx w) \<noteq> 1)"
    and lock: "locked (mtx w') = 1 \<or> locked (mtx w') = locked (mtx w) \<or> in_cs t \<and> \<not> in_cs t'"
    and owner: "owner (mtx w') = owner (mtx w) \<or> in_cs t"
    and owns: "owns t' \<Longrightarrow> owner (mtx w') = sint (of_nat c :: u32)"
  shows "lock_inv w'"
proof -
  have use: "use_mutex (prog u)" if "threads w p = Some u" for p u
    using inv that by (auto simp: lock_inv_def)
  have L: "locked (mtx w) = 1" if "threads w p = Some u" "in_cs u" for p u
    using inv that by (auto simp: lock_inv_def)
  have X: "p = q" if "threads w p = Some u" "threads w q = Some v" "in_cs u" "in_cs v" for p q u v
    using inv that unfolding lock_inv_def by blast
  have O: "owner (mtx w) = sint (of_nat p :: u32)" if "threads w p = Some u" "owns u" for p u
    using inv that by (auto simp: lock_inv_def)
  have other: "\<not> in_cs u" if "in_cs t' \<or> in_cs t" "p \<noteq> c" "threads w p = Some u" for p u
    using that X [OF that(3) t] enter L [OF that(3)] by auto
  show ?thesis
    unfolding lock_inv_def thr
  proof (intro conjI allI impI)
    fix p u assume "((threads w)(c \<mapsto> t')) p = Some u"
    then show "use_mutex (prog u)" using use t prog by (auto split: if_splits)
  next
    fix p u assume *: "((threads w)(c \<mapsto> t')) p = Some u \<and> in_cs u"
    show "locked (mtx w') = 1"
    proof (cases "p = c")
      case True
      with * enter show ?thesis by auto
    next
      case False
      with * have u: "threads w p = Some u" "in_cs u" by auto
      then show ?thesis using lock L [OF u] other [OF _ False u(1)] by auto
    qed
  next
    fix p q u v
    assume *: "((threads w)(c \<mapsto> t')) p = Some u \<and> ((threads w)(c \<mapsto> t')) q = Some v \<and> in_cs u \<and> in_cs v"
    consider "p = c" "q = c" | "p = c" "q \<noteq> c" | "p \<noteq> c" "q = c" | "p \<noteq> c" "q \<noteq> c" by blast
    then show "p = q"
    proof cases
      case 2
      with * have "in_cs t'" "threads w q = Some v" "in_cs v" by auto
      with other [OF _ 2(2)] show ?thesis by blast
    next
      case 3
      with * have "in_cs t'" "threads w p = Some u" "in_cs u" by auto
      with other [OF _ 3(1)] show ?thesis by blast
    next
      case 4
      with * have "threads w p = Some u" "threads w q = Some v" "in_cs u" "in_cs v" by auto
      then show ?thesis by (rule X)
    qed simp
  next
    fix p u assume *: "((threads w)(c \<mapsto> t')) p = Some u \<and> owns u"
    show "owner (mtx w') = sint (of_nat p :: u32)"
    proof (cases "p = c")
      case True
      with * owns show ?thesis by auto
    next
      case False
      with * have u: "threads w p = Some u" "owns u" by auto
      then show ?thesis using owner O [OF u] other [OF _ False u(1)] owns_in_cs [OF u(2)] by auto
    qed
  qed
qed

lemma lock_inv_step:
  assumes inv: "lock_inv w" and step: "wstep iters w w'"
  shows "lock_inv w'"
  using step
proof cases
  case irq
  then show ?thesis using inv lock_inv_cong [of w' w] by (simp add: world_simps)
next
  case run
  show ?thesis
  proof (cases "threads w (cur w)")
    case None
    with run inv show ?thesis by (simp add: run_current_def)
  next
    case (Some t)
    then obtain t' v where s: "thread_step iters t w = Inr (t', v)"
      and w': "w' = v\<lparr>threads := (threads v)(cur w \<mapsto> t')\<rparr>"
      using run by (auto simp: run_current_def split: sum.splits)
    have keep: "threads v = threads w" "prog t' = prog t" using thread_step_keeps [OF s] by auto
    have use: "use_mutex (prog t)" using inv Some by (auto simp: lock_inv_def)
    have cs: "locked (mtx w) = 1" if "in_cs t" using inv Some that by (auto simp: lock_inv_def)
    have me: "of_nat (cur w) = current_pid w" by (simp add: cur_def)
    have own: "owner (mtx w) = sint (current_pid w)" if "owns t"
      using inv Some that me by (auto simp: lock_inv_def)
    have rel: "in_cs t" if "pc t = Release" using that by (simp add: in_cs_def)
    show ?thesis
    proof (rule lock_inv_upd [OF inv Some])
      show "threads w' = (threads w)(cur w \<mapsto> t')" "prog t' = prog t" by (simp_all add: w' keep)
      show "in_cs t' \<Longrightarrow> locked (mtx w') = 1 \<and> (in_cs t \<or> locked (mtx w) \<noteq> 1)"
        using step_xchg [OF _ s] step_release [OF _ s] step_other [OF _ _ use s] cs
        by (cases "pc t = Xchg"; cases "pc t = Release") (auto simp: w')
      show "locked (mtx w') = 1 \<or> locked (mtx w') = locked (mtx w) \<or> in_cs t \<and> \<not> in_cs t'"
        using step_xchg [OF _ s] step_release [OF _ s] step_other [OF _ _ use s] rel
        by (cases "pc t = Xchg"; cases "pc t = Release") (auto simp: w')
      show "owner (mtx w') = owner (mtx w) \<or> in_cs t" using step_owner [OF use s] by (simp add: w')
      show "owns t' \<Longrightarrow> owner (mtx w') = sint (of_nat (cur w) :: u32)"
        using step_owner [OF use s] own by (auto simp: w' me)
    qed
  qed
qed

lemma reach_rtranclp: "reach iters w w' \<longleftrightarrow> rtranclp (wstep iters) w w'"
proof
  show "reach iters w w' \<Longrightarrow> rtranclp (wstep iters) w w'"
    by (induction rule: reach.induct) auto
  show "rtranclp (wstep iters) w w' \<Longrightarrow> reach iters w w'"
    by (induction rule: rtranclp_induct) (auto intro: reach.intros)
qed

interpretation locks: preserved "wstep iters" lock_inv for iters
  by unfold_locales (rule lock_inv_step)

lemmas lock_inv_reach = locks.run [folded reach_rtranclp]

section \<open>Any number of threads\<close>

lemma spawn_world:
  "mtx (spawn stacks x w) = mtx w" "myglobal (spawn stacks x w) = myglobal w"
  "threads (spawn stacks x w) = threads w \<or>
     (\<exists>r. threads (spawn stacks x w) = (threads w)(r \<mapsto> \<lparr>pc = LoopTest, prog = snd (snd x), idx = 0, reg = 0, wake = 0\<rparr>))"
proof -
  obtain nm entry pr where x: "x = (nm, entry, pr)" by (cases x)
  obtain r v where c: "process_create stacks nm entry w = (r, v)" by (metis surj_pair)
  have "mtx v = mtx w" "threads v = threads w" "myglobal v = myglobal w"
    using c by (auto simp: process_create_def Let_def world_simps split: option.splits prod.splits)
  then show "mtx (spawn stacks x w) = mtx w" "myglobal (spawn stacks x w) = myglobal w"
    "threads (spawn stacks x w) = threads w \<or>
     (\<exists>r. threads (spawn stacks x w) = (threads w)(r \<mapsto> \<lparr>pc = LoopTest, prog = snd (snd x), idx = 0, reg = 0, wake = 0\<rparr>))"
    by (auto simp: x spawn_def thread_create_def c)
qed

lemma lock_inv_spawn:
  assumes "lock_inv w" "use_mutex (snd (snd x))"
  shows "lock_inv (spawn stacks x w)"
proof -
  let ?t = "\<lparr>pc = LoopTest, prog = snd (snd x), idx = 0, reg = 0, wake = 0\<rparr>"
  have n: "\<not> in_cs ?t" "\<not> owns ?t" "use_mutex (prog ?t)" using assms(2) by (simp_all add: in_cs_def owns_def)
  show ?thesis
    using spawn_world(3) [of stacks x w]
  proof (elim disjE exE)
    fix r assume thr: "threads (spawn stacks x w) = (threads w)(r \<mapsto> ?t)"
    show ?thesis
      using assms(1) n unfolding lock_inv_def thr by (simp add: spawn_world) blast
  qed (use assms(1) lock_inv_cong [of "spawn stacks x w" w] in \<open>simp add: spawn_world\<close>)
qed

definition start_threads :: "u32 \<Rightarrow> (cstr \<times> u32 \<times> prog) list \<Rightarrow> world \<Rightarrow> world" where
  "start_threads stacks ts w = foldl (\<lambda>w x. spawn stacks x w) (w\<lparr>mtx := mutex_init (mtx w)\<rparr>) ts"

lemma lock_inv_start:
  assumes "threads w = Map.empty" "\<forall>x \<in> set ts. use_mutex (snd (snd x))"
  shows "lock_inv (start_threads stacks ts w)"
proof -
  have "lock_inv v \<Longrightarrow> lock_inv (foldl (\<lambda>w x. spawn stacks x w) v ts)" for v
    using assms(2) by (induction ts arbitrary: v) (simp_all add: lock_inv_spawn)
  moreover have "lock_inv (w\<lparr>mtx := mutex_init (mtx w)\<rparr>)" using assms(1) by (simp add: lock_inv_def)
  ultimately show ?thesis by (simp add: start_threads_def)
qed

end
