(* ===== verification/Race.thy ===== *)
theory Race
  imports Mutex
begin

text \<open>
  Runs of the race threads of \<^verbatim>\<open>kernel/kernel.c\<close>. A configuration keeps what their interleaving depends
  on and forgets the stacks, the saved registers and the screen; the step functions on worlds
  refine the ones on configurations, so that a concrete or symbolic schedule is computed there.
\<close>

section \<open>Configurations\<close>

record conf =
  sts :: "nat \<Rightarrow> process_state"
  now :: nat
  cmtx :: mutex
  glob :: int
  dn :: int
  thr :: "nat \<Rightarrow> thread option"

definition conf_of :: "world \<Rightarrow> conf" where
  "conf_of w = \<lparr>sts = st w, now = cur w, cmtx = mtx w, glob = myglobal w, dn = race_done w, thr = threads w\<rparr>"

definition c_switch :: "conf \<Rightarrow> conf" where
  "c_switch k = (let (f, c) = abs_switch (sts k, now k) in k\<lparr>sts := f, now := c\<rparr>)"

definition c_thread :: "int \<Rightarrow> thread \<Rightarrow> conf \<Rightarrow> (thread \<times> conf) option" where
  "c_thread iters t k =
     (let m = cmtx k; n = nwaiters m in
      case pc t of
        LoopTest \<Rightarrow> Some (t\<lparr>pc := (if idx t < iters then (if use_mutex (prog t) then Xchg else LoadG) else SetColor)\<rparr>, k)
      | Xchg \<Rightarrow> Some (t\<lparr>pc := (if locked m = 1 then Enqueue else SetOwner)\<rparr>, k\<lparr>cmtx := m\<lparr>locked := 1\<rparr>\<rparr>)
      | Enqueue \<Rightarrow>
          if 0 \<le> n \<and> n < 16 then
            Some (t\<lparr>pc := YieldCall\<rparr>, k\<lparr>cmtx := m\<lparr>nwaiters := n + 1, waiters := (waiters m)[nat n := of_nat (now k)]\<rparr>,
                    sts := (sts k)(now k := PROCESS_BLOCKED)\<rparr>)
          else None
      | YieldCall \<Rightarrow> Some (t\<lparr>pc := Xchg\<rparr>, c_switch k)
      | SetOwner \<Rightarrow> Some (t\<lparr>pc := LoadG\<rparr>, k\<lparr>cmtx := m\<lparr>owner := sint (of_nat (now k) :: u32)\<rparr>\<rparr>)
      | LoadG \<Rightarrow> Some (t\<lparr>pc := StoreG, reg := glob k\<rparr>, k)
      | StoreG \<Rightarrow> Some (t\<lparr>pc := (if use_mutex (prog t) then ClearOwner else NextI)\<rparr>, k\<lparr>glob := reg t + 1\<rparr>)
      | ClearOwner \<Rightarrow> Some (t\<lparr>pc := Release\<rparr>, k\<lparr>cmtx := m\<lparr>owner := -1\<rparr>\<rparr>)
      | Release \<Rightarrow> Some (t\<lparr>pc := TestWaiters\<rparr>, k\<lparr>cmtx := m\<lparr>locked := 0\<rparr>\<rparr>)
      | TestWaiters \<Rightarrow> Some (t\<lparr>pc := (if 0 < n then PopLoad else NextI)\<rparr>, k)
      | PopLoad \<Rightarrow> Some (t\<lparr>pc := PopStore, reg := n\<rparr>, k)
      | PopStore \<Rightarrow> Some (t\<lparr>pc := PopRead, reg := reg t - 1\<rparr>, k\<lparr>cmtx := m\<lparr>nwaiters := reg t - 1\<rparr>\<rparr>)
      | PopRead \<Rightarrow>
          if 0 \<le> reg t \<and> reg t < 16 then Some (t\<lparr>pc := Wake, wake := waiters m ! nat (reg t)\<rparr>, k) else None
      | Wake \<Rightarrow>
          Some (t\<lparr>pc := NextI\<rparr>,
            if wake t < 16 \<and> sts k (unat (wake t)) = PROCESS_BLOCKED
            then k\<lparr>sts := (sts k)(unat (wake t) := PROCESS_READY)\<rparr> else k)
      | NextI \<Rightarrow> Some (t\<lparr>pc := LoopTest, idx := idx t + 1\<rparr>, k)
      | SetColor \<Rightarrow> Some (t\<lparr>pc := Print\<rparr>, k)
      | Print \<Rightarrow> if prog t \<in> {race_a, race_b, racem_a, racem_b} then Some (t\<lparr>pc := DoneLoad\<rparr>, k) else None
      | DoneLoad \<Rightarrow> Some (t\<lparr>pc := DoneStore, reg := dn k\<rparr>, k)
      | DoneStore \<Rightarrow> Some (t\<lparr>pc := ExitCall\<rparr>, k\<lparr>dn := reg t + 1\<rparr>)
      | ExitCall \<Rightarrow> Some (t\<lparr>pc := Halt\<rparr>, if now k = 0 then k else k\<lparr>sts := (sts k)(now k := PROCESS_TERMINATED)\<rparr>)
      | Halt \<Rightarrow> Some (t, k))"

definition c_step :: "int \<Rightarrow> conf \<Rightarrow> conf option" where
  "c_step iters k =
     (case thr k (now k) of
        None \<Rightarrow> Some k
      | Some t \<Rightarrow> map_option (\<lambda>(t', k'). k'\<lparr>thr := (thr k)(now k \<mapsto> t')\<rparr>) (c_thread iters t k))"

primrec c_run :: "int \<Rightarrow> bool list \<Rightarrow> conf \<Rightarrow> conf option" where
  "c_run iters [] k = Some k"
| "c_run iters (b # bs) k =
     (if b then c_run iters bs (c_switch k)
      else (case c_step iters k of None \<Rightarrow> None | Some k' \<Rightarrow> c_run iters bs k'))"

section \<open>Worlds refine configurations\<close>

lemma conf_of_simps [simp]:
  "sts (conf_of w) = st w" "now (conf_of w) = cur w" "cmtx (conf_of w) = mtx w" "glob (conf_of w) = myglobal w"
  "dn (conf_of w) = race_done w" "thr (conf_of w) = threads w"
  by (simp_all add: conf_of_def)

lemma conf_eqI:
  "st w = sts k \<Longrightarrow> cur w = now k \<Longrightarrow> mtx w = cmtx k \<Longrightarrow> myglobal w = glob k \<Longrightarrow> race_done w = dn k \<Longrightarrow>
   threads w = thr k \<Longrightarrow> conf_of w = k"
  by (cases k) (simp add: conf_of_def)

lemma done_world [world_simps]:
  "race_done (set_pcb i f w) = race_done w" "race_done (block_current w) = race_done w"
  "race_done (scheduler_unblock p w) = race_done w" "race_done (process_terminate p w) = race_done w"
  "race_done (reschedule w) = race_done w"
  by (simp_all add: block_current_def scheduler_unblock_def process_terminate_def set_pcb_def
      reschedule_def switch_states_def Let_def)

lemma world_upd [world_simps]:
  "st (w\<lparr>mtx := m\<rparr>) = st w" "st (w\<lparr>myglobal := g\<rparr>) = st w" "st (w\<lparr>race_done := d\<rparr>) = st w"
  "st (w\<lparr>screen := v\<rparr>) = st w" "st (w\<lparr>threads := u\<rparr>) = st w"
  "cur (w\<lparr>mtx := m\<rparr>) = cur w" "cur (w\<lparr>myglobal := g\<rparr>) = cur w" "cur (w\<lparr>race_done := d\<rparr>) = cur w"
  "cur (w\<lparr>screen := v\<rparr>) = cur w" "cur (w\<lparr>threads := u\<rparr>) = cur w"
  "sched_ok (w\<lparr>mtx := m\<rparr>) = sched_ok w" "sched_ok (w\<lparr>myglobal := g\<rparr>) = sched_ok w"
  "sched_ok (w\<lparr>race_done := d\<rparr>) = sched_ok w" "sched_ok (w\<lparr>screen := v\<rparr>) = sched_ok w"
  "sched_ok (w\<lparr>threads := u\<rparr>) = sched_ok w"
  for w :: world
  by (simp_all add: st_def cur_def sched_ok_def fun_eq_iff)

lemma reschedule_view:
  assumes "sched_ok w"
  shows "sched_ok (reschedule w) \<and> (st (reschedule w), cur (reschedule w)) = abs_switch (st w, cur w)"
  using switch_states_view [OF assms] assms
  by (auto simp: reschedule_def view_def simp del: abs_switch.simps split: option.splits)

lemma conf_reschedule: "sched_ok w \<Longrightarrow> conf_of (reschedule w) = c_switch (conf_of w) \<and> sched_ok (reschedule w)"
  using reschedule_view [of w]
  by (cases "abs_switch (st w, cur w)")
    (auto simp: c_switch_def world_simps simp del: abs_switch.simps intro!: conf_eqI)

lemma table_ops_st:
  assumes "sched_ok w"
  shows "st (block_current w) = (st w)(cur w := PROCESS_BLOCKED)"
    "st (process_terminate (current_pid w) w) = (if cur w = 0 then st w else (st w)(cur w := PROCESS_TERMINATED))"
    "st (scheduler_unblock p w) = (if p < 16 \<and> st w (unat p) = PROCESS_BLOCKED then (st w)(unat p := PROCESS_READY) else st w)"
    "sched_ok (block_current w)" "sched_ok (process_terminate p w)" "sched_ok (scheduler_unblock p w)"
    "cur (block_current w) = cur w" "cur (process_terminate p w) = cur w" "cur (scheduler_unblock p w) = cur w"
proof -
  have c: "length (process_table w) = 16" "unat (current_pid w) < 16"
    using assms by (simp_all add: sched_ok_def cur_def)
  show "st (process_terminate (current_pid w) w) = (if cur w = 0 then st w else (st w)(cur w := PROCESS_TERMINATED))"
    using c by (auto simp: process_terminate_def st_set_pcb cur_def word_le_nat_alt unat_eq_zero)
  show "st (block_current w) = (st w)(cur w := PROCESS_BLOCKED)"
    using c by (simp add: block_current_def st_set_pcb cur_def)
  show "st (scheduler_unblock p w) = (if p < 16 \<and> st w (unat p) = PROCESS_BLOCKED then (st w)(unat p := PROCESS_READY) else st w)"
    using c by (auto simp: scheduler_unblock_def st_set_pcb word_le_nat_alt word_less_nat_alt) (simp_all add: st_def)
qed (use assms in \<open>simp_all add: block_current_def process_terminate_def scheduler_unblock_def\<close>)

text \<open>The four report texts are printable: one conversion and one argument.\<close>

lemma label_printable:
  assumes "p \<in> {race_a, race_b, racem_a, racem_b}"
  shows "\<exists>v'. vga_printf (label p) [VInt n] v = Some v'"
  using assms
  by (auto simp: race_a_def race_b_def racem_a_def racem_b_def bytes_def printf_conv_def)

lemma thread_step_conf:
  assumes "sched_ok w" "c_thread iters t (conf_of w) = Some (t', k)"
  shows "\<exists>w'. thread_step iters t w = Inr (t', w') \<and> conf_of w' = k \<and> sched_ok w'"
proof -
  have cp: "current_pid w = of_nat (cur w)" by (simp add: cur_def)
  note defs = c_thread_def step_defs conf_of_def
  show ?thesis
  proof (cases "pc t")
    case Print
    then show ?thesis
      using assms label_printable [of "prog t" "of_int (myglobal w)" "screen w"]
      by (auto simp: defs world_simps split: if_splits)
  next
    case YieldCall
    then show ?thesis
      using assms conf_reschedule [OF assms(1)] by (simp add: c_thread_def step_defs)
  next
    case Enqueue
    then show ?thesis
      using assms by (auto simp: defs world_simps table_ops_st cp split: if_splits)
  next
    case Wake
    then show ?thesis
      using assms by (auto simp: defs world_simps table_ops_st)
  next
    case ExitCall
    then show ?thesis
      using assms by (auto simp: defs world_simps table_ops_st)
  qed (use assms in \<open>auto simp: defs world_simps cp split: if_splits\<close>)
qed

lemma run_current_conf:
  assumes "sched_ok w" "c_step iters (conf_of w) = Some k"
  shows "\<exists>w'. run_current iters w = Inr w' \<and> conf_of w' = k \<and> sched_ok w'"
proof (cases "threads w (cur w)")
  case None
  with assms show ?thesis by (simp add: run_current_def c_step_def)
next
  case (Some t)
  with assms(2) obtain t' k' where c: "c_thread iters t (conf_of w) = Some (t', k')"
    and k: "k = k'\<lparr>thr := (threads w)(cur w \<mapsto> t')\<rparr>"
    by (auto simp: c_step_def)
  from thread_step_conf [OF assms(1) c] obtain w' where
    w': "thread_step iters t w = Inr (t', w')" "conf_of w' = k'" "sched_ok w'" by blast
  have "threads w' = threads w" using thread_step_keeps [OF w'(1)] by simp
  with Some w' k show ?thesis by (simp add: run_current_def) (auto simp: conf_of_def world_simps)
qed

text \<open>Every schedule that runs on a configuration runs on the world it comes from.\<close>

lemma c_run_reach:
  assumes "sched_ok w" "c_run iters bs (conf_of w) = Some k"
  shows "\<exists>w'. reach iters w w' \<and> conf_of w' = k \<and> sched_ok w'"
proof -
  have "\<exists>w'. reach iters v w' \<and> conf_of w' = k \<and> sched_ok w'"
    if "reach iters v w" "sched_ok w" "c_run iters bs (conf_of w) = Some k" for v w
    using that
  proof (induction bs arbitrary: w)
    case (Cons b bs)
    show ?case
    proof (cases b)
      case True
      with Cons.prems conf_reschedule [of w] show ?thesis
        by (intro Cons.IH [of "reschedule w"]) (auto intro: reach.step wstep.irq)
    next
      case False
      with Cons.prems obtain k' where k': "c_step iters (conf_of w) = Some k'" "c_run iters bs k' = Some k"
        by (auto split: option.splits)
      from run_current_conf [OF Cons.prems(2) k'(1)] obtain w' where
        "run_current iters w = Inr w'" "conf_of w' = k'" "sched_ok w'" by blast
      with Cons.prems(1) k'(2) show ?thesis
        by (intro Cons.IH [of w']) (auto intro: reach.step wstep.run)
    qed
  qed auto
  from this [OF reach.reach_refl assms] show ?thesis .
qed

lemma c_run_append: "c_run iters (as @ bs) k = (case c_run iters as k of None \<Rightarrow> None | Some k' \<Rightarrow> c_run iters bs k')"
  by (induction as arbitrary: k) (simp_all split: option.splits)

lemma reach_trans: "reach iters v w \<Longrightarrow> reach iters u v \<Longrightarrow> reach iters u w"
  by (induction rule: reach.induct) (auto intro: reach.step)

section \<open>No increment is lost under the mutex\<close>

text \<open>The increments a thread has completed, and what its program counter says of its loop index.\<close>

definition completed :: "thread \<Rightarrow> int" where
  "completed t = idx t +
     (if pc t \<in> {ClearOwner, Release, TestWaiters, PopLoad, PopStore, PopRead, Wake, NextI} then 1 else 0)"

definition index_ok :: "int \<Rightarrow> thread \<Rightarrow> bool" where
  "index_ok iters t \<longleftrightarrow> idx t \<le> iters
     \<and> (pc t \<in> {SetColor, Print, DoneLoad, DoneStore, ExitCall, Halt} \<longrightarrow> idx t = iters)
     \<and> (pc t \<notin> {LoopTest, SetColor, Print, DoneLoad, DoneStore, ExitCall, Halt} \<longrightarrow> idx t < iters)"

lemma step_completed:
  assumes "thread_step iters t w = Inr (t', w')" "use_mutex (prog t)" "pc t = StoreG \<longrightarrow> reg t = myglobal w"
  shows "completed t' - completed t = myglobal w' - myglobal w"
    "pc t' = StoreG \<longrightarrow> reg t' = myglobal w'" "myglobal w' \<noteq> myglobal w \<longrightarrow> in_cs t"
  using assms
  by (cases "pc t"; auto simp: step_defs completed_def in_cs_def world_simps split: if_splits option.splits)+

lemma step_index:
  assumes "thread_step iters t w = Inr (t', w')" "use_mutex (prog t)" "index_ok iters t"
  shows "index_ok iters t'"
  using assms by (cases "pc t"; auto simp: step_defs index_ok_def split: if_splits option.splits)

definition count_inv :: "int \<Rightarrow> nat set \<Rightarrow> world \<Rightarrow> bool" where
  "count_inv iters D w \<longleftrightarrow> finite D \<and> dom (threads w) = D
     \<and> (\<forall>p t. threads w p = Some t \<longrightarrow> index_ok iters t \<and> (pc t = StoreG \<longrightarrow> reg t = myglobal w))
     \<and> myglobal w = (\<Sum>p\<in>D. completed (the (threads w p)))"

lemma count_inv_cong:
  "threads w' = threads w \<Longrightarrow> myglobal w' = myglobal w \<Longrightarrow> count_inv iters D w' = count_inv iters D w"
  by (simp add: count_inv_def)

lemma sum_upd:
  fixes f :: "nat \<Rightarrow> int"
  assumes "finite D" "c \<in> D" "\<And>p. p \<in> D \<Longrightarrow> p \<noteq> c \<Longrightarrow> g p = f p"
  shows "sum g D = sum f D + (g c - f c)"
proof -
  have "sum g (D - {c}) = sum f (D - {c})" using assms(3) by (intro sum.cong) auto
  then show ?thesis using sum.remove [OF assms(1,2), of g] sum.remove [OF assms(1,2), of f] by simp
qed

lemma count_inv_step:
  assumes lock: "lock_inv w" and inv: "count_inv iters D w" and step: "wstep iters w w'"
  shows "count_inv iters D w'"
  using step
proof cases
  case irq
  then show ?thesis using inv count_inv_cong [of w' w] by (simp add: world_simps)
next
  case run
  show ?thesis
  proof (cases "threads w (cur w)")
    case None
    with run inv show ?thesis by (simp add: run_current_def)
  next
    case (Some t)
    then obtain t' v where s: "thread_step iters t w = Inr (t', v)"
      and w': "w' = v\<lparr>threads := (threads v)(cur w \<mapsto> t')\<rparr>"
      using run by (auto simp: run_current_def split: sum.splits)
    have use: "use_mutex (prog t)" using lock Some by (auto simp: lock_inv_def)
    have D: "finite D" "dom (threads w) = D" "cur w \<in> D" and ok: "index_ok iters t" "pc t = StoreG \<longrightarrow> reg t = myglobal w"
      and total: "myglobal w = (\<Sum>p\<in>D. completed (the (threads w p)))"
      using inv Some by (auto simp: count_inv_def)
    note c = step_completed [OF s use ok(2)]
    have thr: "threads w' = (threads w)(cur w \<mapsto> t')" and g: "myglobal w' = myglobal v"
      using thread_step_keeps [OF s] by (simp_all add: w')
    have other: "reg u = myglobal w'" if u: "threads w p = Some u" "p \<noteq> cur w" "pc u = StoreG" for p u
    proof -
      have "\<not> in_cs t" using lock Some u unfolding lock_inv_def by (fastforce simp: in_cs_def)
      then have "myglobal v = myglobal w" using c(3) by blast
      with u inv show ?thesis by (simp add: g count_inv_def)
    qed
    have "(\<Sum>p\<in>D. completed (the (threads w' p))) = (\<Sum>p\<in>D. completed (the (threads w p))) + (completed t' - completed t)"
      using sum_upd [OF D(1,3), of "\<lambda>p. completed (the (threads w' p))" "\<lambda>p. completed (the (threads w p))"]
      by (simp add: thr Some)
    then have "myglobal w' = (\<Sum>p\<in>D. completed (the (threads w' p)))" using c(1) total by (simp add: g)
    moreover have "index_ok iters u \<and> (pc u = StoreG \<longrightarrow> reg u = myglobal w')" if "threads w' p = Some u" for p u
      using that inv step_index [OF s use ok(1)] c(2) other [of p u] by (auto simp: thr g count_inv_def split: if_splits)
    moreover have "dom (threads w') = D" using D by (auto simp: thr)
    ultimately show ?thesis using D(1) by (simp add: count_inv_def)
  qed
qed

interpretation counts: preserved "wstep iters" "\<lambda>w. lock_inv w \<and> count_inv iters D w" for iters D
  by unfold_locales (blast intro: lock_inv_step count_inv_step)

lemma count_inv_reach:
  "reach iters w w' \<Longrightarrow> lock_inv w \<Longrightarrow> count_inv iters D w \<Longrightarrow> count_inv iters D w'"
  using counts.run [of iters w w' D] by (simp add: reach_rtranclp)

lemma racem_command_start:
  "racem_command stacks ea eb w = start_threads stacks
     [(bytes ''racem_a'', ea, racem_a), (bytes ''racem_b'', eb, racem_b)] (w\<lparr>myglobal := 0, race_done := 0\<rparr>)"
  by (simp add: racem_command_def start_threads_def Let_def)

definition all_fresh :: "nat \<Rightarrow> world \<Rightarrow> bool" where
  "all_fresh n w \<longleftrightarrow> finite (dom (threads w)) \<and> card (dom (threads w)) \<le> n \<and> myglobal w = 0
     \<and> (\<forall>p t. threads w p = Some t \<longrightarrow> pc t = LoopTest \<and> idx t = 0)"

lemma all_fresh_spawn: "all_fresh n w \<Longrightarrow> all_fresh (Suc n) (spawn stacks x w)"
  using spawn_world(3) [of stacks x w]
  by (auto simp: all_fresh_def spawn_world(2) card_insert_if split: if_splits)

lemma all_fresh_racem:
  "threads w = Map.empty \<Longrightarrow> all_fresh 2 (racem_command stacks ea eb w)"
  unfolding racem_command_def Let_def numeral_2_eq_2
  by (intro all_fresh_spawn) (simp add: all_fresh_def)

lemma count_inv_fresh:
  assumes "all_fresh n w" "0 \<le> iters"
  shows "count_inv iters (dom (threads w)) w"
proof -
  have "(\<Sum>p\<in>dom (threads w). completed (the (threads w p))) = 0"
    using assms(1) by (intro sum.neutral) (auto simp: all_fresh_def completed_def)
  with assms show ?thesis by (auto simp: count_inv_def all_fresh_def index_ok_def)
qed

lemma racem_invariants:
  assumes "threads w0 = Map.empty" "0 \<le> iters" "reach iters (racem_command stacks ea eb w0) w"
  shows "\<exists>D. card D \<le> 2 \<and> count_inv iters D w" "lock_inv w"
proof -
  let ?w = "racem_command stacks ea eb w0"
  have lock: "lock_inv ?w"
    unfolding racem_command_start by (rule lock_inv_start) (use assms(1) in \<open>simp_all add: racem_a_def racem_b_def\<close>)
  have fresh: "all_fresh 2 ?w" using assms(1) by (rule all_fresh_racem)
  show "lock_inv w" using lock_inv_reach [OF assms(3) lock] .
  show "\<exists>D. card D \<le> 2 \<and> count_inv iters D w"
    using count_inv_reach [OF assms(3) lock count_inv_fresh [OF fresh assms(2)]] fresh
    by (auto simp: all_fresh_def)
qed

end
