(* ===== verification/RaceRuns.thy ===== *)
theory RaceRuns
  imports Race
begin

text \<open>
  Complete runs of the race threads from the state the kernel boots in: the total under the mutex,
  the lost wake-up, and the waiter list popped twice.
\<close>

section \<open>Building runs\<close>

lemma spawn_conf:
  assumes "sched_ok w" "for_find (\<lambda>i. st w i = PROCESS_FREE) 1 16 = Some i"
  shows "sched_ok (spawn stacks (nm, e, pr) w) \<and> conf_of (spawn stacks (nm, e, pr) w) =
    (conf_of w)\<lparr>sts := (st w)(i := PROCESS_READY),
       thr := (threads w)(i \<mapsto> \<lparr>pc = LoopTest, prog = pr, idx = 0, reg = 0, wake = 0\<rparr>)\<rparr>"
proof -
  have ff: "first_free w = Some i" using assms(2) by (simp add: first_free_def st_def)
  obtain ep m where c: "process_create stacks nm e w = (int i, set_pcb i (\<lambda>p. p\<lparr>pid := of_nat i, state := PROCESS_READY,
      esp := ep, stack := stacks + of_nat i * 4096, name := proc_strncpy (name p) nm 32\<rparr>) (w\<lparr>ram := m\<rparr>))"
    using process_create_Some [OF ff] assms(1) unfolding sched_ok_def by blast
  have i: "i < 16" using assms(2) by (simp add: loop_simps)
  have s: "spawn stacks (nm, e, pr) w = (snd (process_create stacks nm e w))
      \<lparr>threads := (threads w)(i \<mapsto> \<lparr>pc = LoopTest, prog = pr, idx = 0, reg = 0, wake = 0\<rparr>)\<rparr>"
    by (simp add: spawn_def thread_create_def c world_simps)
  show ?thesis
    using i assms(1) by (auto simp: s c st_set_pcb world_simps sched_ok_def intro!: conf_eqI)
qed

lemma c_run_enter:
  assumes "thr k (now k) = Some t" "pc t = LoopTest" "use_mutex (prog t)" "idx t < iters" "locked (cmtx k) = 0"
  shows "c_run iters [False, False, False] k = Some (k\<lparr>cmtx := (cmtx k)\<lparr>locked := 1, owner := sint (of_nat (now k) :: u32)\<rparr>,
     thr := (thr k)(now k \<mapsto> t\<lparr>pc := LoadG\<rparr>)\<rparr>)"
  using assms by (cases k, cases t) (simp add: numeral_eq_Suc c_step_def c_thread_def Let_def)

lemma c_run_leave:
  assumes "thr k (now k) = Some t" "pc t = LoadG" "use_mutex (prog t)" "nwaiters (cmtx k) = 0"
  shows "c_run iters (replicate 6 False) k = Some (k\<lparr>cmtx := (cmtx k)\<lparr>locked := 0, owner := -1\<rparr>, glob := glob k + 1,
     thr := (thr k)(now k \<mapsto> t\<lparr>pc := LoopTest, idx := idx t + 1, reg := glob k\<rparr>)\<rparr>)"
  using assms by (cases k, cases t) (simp add: numeral_eq_Suc c_step_def c_thread_def Let_def)

lemma c_run_end:
  assumes "thr k (now k) = Some t" "pc t = LoopTest" "idx t = iters" "prog t \<in> {race_a, race_b, racem_a, racem_b}" "now k \<noteq> 0"
  shows "c_run iters (replicate 6 False) k = Some (k\<lparr>dn := dn k + 1, sts := (sts k)(now k := PROCESS_TERMINATED),
     thr := (thr k)(now k \<mapsto> t\<lparr>pc := Halt, reg := dn k\<rparr>)\<rparr>)"
  using assms by (cases k, cases t) (auto simp: numeral_eq_Suc c_step_def c_thread_def Let_def)
definition c_reach :: "int \<Rightarrow> conf \<Rightarrow> conf \<Rightarrow> bool" where
  "c_reach iters k k' \<longleftrightarrow> (\<exists>bs. c_run iters bs k = Some k')"

lemma c_reach_refl [simp]: "c_reach iters k k"
  unfolding c_reach_def by (rule exI [of _ "[]"]) simp

lemma c_reach_trans: "c_reach iters k k' \<Longrightarrow> c_reach iters k' k'' \<Longrightarrow> c_reach iters k k''"
  unfolding c_reach_def by (elim exE) (rule_tac x = "bs @ bsa" in exI, simp add: c_run_append)

lemma c_reach_run: "c_run iters bs k = Some k' \<Longrightarrow> c_reach iters k k'"
  by (auto simp: c_reach_def)

lemma c_reach_tick:
  assumes "next_of (sts k) (now k) = n" "n \<noteq> now k"
  shows "c_reach iters k (k\<lparr>sts := (if sts k (now k) = PROCESS_RUNNING then (sts k)(now k := PROCESS_READY) else sts k)
     (n := PROCESS_RUNNING), now := n\<rparr>)"
  by (rule c_reach_run [of _ "[True]"]) (use assms in \<open>simp add: c_switch_def Let_def\<close>)

text \<open>A thread that has the mutex to itself makes any number of iterations. \<open>looping\<close> is the
  configuration in which the current thread is about to test its loop index.\<close>

definition looping :: "(nat \<Rightarrow> process_state) \<Rightarrow> nat \<Rightarrow> u32 list \<Rightarrow> int \<Rightarrow> (nat \<Rightarrow> thread option) \<Rightarrow> prog
    \<Rightarrow> int \<Rightarrow> int \<Rightarrow> int \<Rightarrow> int \<Rightarrow> conf" where
  "looping f c ws d T p ow g i r =
     \<lparr>sts = f, now = c, cmtx = \<lparr>locked = 0, owner = ow, waiters = ws, nwaiters = 0\<rparr>, glob = g, dn = d,
      thr = T(c \<mapsto> \<lparr>pc = LoopTest, prog = p, idx = i, reg = r, wake = 0\<rparr>)\<rparr>"

lemma c_reach_iteration:
  assumes "use_mutex p" "i < iters"
  shows "c_reach iters (looping f c ws d T p ow g i r) (looping f c ws d T p (-1) (g + 1) (i + 1) g)"
  by (rule c_reach_run [of _ "replicate 9 False"])
    (use assms in \<open>simp add: looping_def numeral_eq_Suc c_step_def c_thread_def Let_def\<close>)

lemma c_reach_loop:
  assumes "use_mutex p" "i + int n \<le> iters"
  shows "\<exists>ow' r'. c_reach iters (looping f c ws d T p ow g i r) (looping f c ws d T p ow' (g + int n) (i + int n) r')"
  using assms(2)
proof (induction n)
  case 0
  show ?case by (intro exI [of _ ow] exI [of _ r]) simp
next
  case (Suc n)
  then have "i + int n \<le> iters" "i + int n < iters" by simp_all
  with Suc.IH obtain ow1 r1 where
    "c_reach iters (looping f c ws d T p ow g i r) (looping f c ws d T p ow1 (g + int n) (i + int n) r1)" by blast
  from c_reach_trans [OF this c_reach_iteration [OF assms(1) \<open>i + int n < iters\<close>]]
  show ?case by (auto simp: ac_simps)
qed

section \<open>The machine just after boot\<close>

definition boot_world :: world where
  "boot_world = process_init
     \<lparr>process_table = [], current_pid = 0, ram = \<lambda>_. 0,
      mtx = \<lparr>locked = 0, owner = 0, waiters = replicate 16 0, nwaiters = 0\<rparr>,
      myglobal = 0, race_done = 0, screen = blank_vga, threads = Map.empty\<rparr>"

lemma boot_world_simps [simp]:
  "sched_ok boot_world" "cur boot_world = 0" "threads boot_world = Map.empty" "race_done boot_world = 0"
  "mtx boot_world = \<lparr>locked = 0, owner = 0, waiters = replicate 16 0, nwaiters = 0\<rparr>"
  "i < 16 \<Longrightarrow> st boot_world i = (if i = 0 then PROCESS_RUNNING else PROCESS_FREE)"
  unfolding boot_world_def
  by (simp_all add: process_init_view) (simp_all add: process_init_def set_pcb_def Let_def cur_def)

text \<open>Processes 0 to 3 in given states, the other slots free.\<close>

definition sts4 :: "process_state \<Rightarrow> process_state \<Rightarrow> process_state \<Rightarrow> process_state \<Rightarrow> nat \<Rightarrow> process_state" where
  "sts4 a b c d = (st boot_world)(0 := a, 1 := b, 2 := c, 3 := d)"

lemma sts4_simps [simp]:
  "sts4 a b c d 0 = a" "sts4 a b c d (Suc 0) = b" "sts4 a b c d 2 = c" "sts4 a b c d 3 = d"
  "(sts4 a b c d)(0 := e) = sts4 e b c d" "(sts4 a b c d)(Suc 0 := e) = sts4 a e c d"
  "(sts4 a b c d)(2 := e) = sts4 a b e d" "(sts4 a b c d)(3 := e) = sts4 a b c e"
  "4 \<le> i \<Longrightarrow> i < 16 \<Longrightarrow> sts4 a b c d i = PROCESS_FREE"
  by (auto simp: sts4_def fun_eq_iff)

lemma next_of_sts4 [simp]:
  "next_of (sts4 a b c d) 0 =
     (if b = PROCESS_READY then 1 else if c = PROCESS_READY then 2 else if d = PROCESS_READY then 3 else 0)"
  "next_of (sts4 a b c d) (Suc 0) =
     (if c = PROCESS_READY then 2 else if d = PROCESS_READY then 3 else if a = PROCESS_READY then 0 else 1)"
  "next_of (sts4 a b c d) 2 =
     (if d = PROCESS_READY then 3 else if a = PROCESS_READY then 0 else if b = PROCESS_READY then 1 else 2)"
  "next_of (sts4 a b c d) 3 =
     (if a = PROCESS_READY then 0 else if b = PROCESS_READY then 1 else if c = PROCESS_READY then 2 else 3)"
  by (simp_all add: next_of_def for_find.simps flip: numeral_2_eq_2 numeral_3_eq_3)

abbreviation (input) fresh :: "prog \<Rightarrow> thread" where
  "fresh p \<equiv> \<lparr>pc = LoopTest, prog = p, idx = 0, reg = 0, wake = 0\<rparr>"

lemma racem_boot:
  "sched_ok (racem_command S ea eb boot_world)
   \<and> conf_of (racem_command S ea eb boot_world) =
     \<lparr>sts = sts4 PROCESS_RUNNING PROCESS_READY PROCESS_READY PROCESS_FREE, now = 0,
      cmtx = \<lparr>locked = 0, owner = -1, waiters = replicate 16 0, nwaiters = 0\<rparr>, glob = 0, dn = 0,
      thr = [2 \<mapsto> fresh racem_b, 1 \<mapsto> fresh racem_a]\<rparr>"
proof -
  let ?w = "boot_world\<lparr>myglobal := 0, race_done := 0, mtx := mutex_init (mtx boot_world)\<rparr>"
  obtain v where v: "spawn S (bytes ''racem_a'', ea, racem_a) ?w = v" by blast
  have "for_find (\<lambda>i. st ?w i = PROCESS_FREE) 1 16 = Some 1"
    by (simp add: for_find.simps world_simps)
  from spawn_conf [OF _ this, of S "bytes ''racem_a''" ea racem_a, unfolded v]
  have a: "sched_ok v" "conf_of v = (conf_of ?w)\<lparr>sts := (st ?w)(1 := PROCESS_READY), thr := (threads ?w)(1 \<mapsto> fresh racem_a)\<rparr>"
    by (simp_all add: world_simps)
  have st: "st v = (st boot_world)(1 := PROCESS_READY)" and thr: "threads v = [1 \<mapsto> fresh racem_a]"
    using arg_cong [OF a(2), of sts] arg_cong [OF a(2), of thr] by (simp_all add: world_simps)
  have "for_find (\<lambda>i. st v i = PROCESS_FREE) 1 16 = Some 2"
    by (simp add: st for_find.simps)
  from spawn_conf [OF a(1) this, of S "bytes ''racem_b''" eb racem_b]
  have b: "sched_ok (racem_command S ea eb boot_world)"
    "conf_of (racem_command S ea eb boot_world) = (conf_of v)\<lparr>sts := (st v)(2 := PROCESS_READY), thr := (threads v)(2 \<mapsto> fresh racem_b)\<rparr>"
    unfolding racem_command_def Let_def v [symmetric] by simp_all
  have "(st boot_world)(1 := PROCESS_READY, 2 := PROCESS_READY) = sts4 PROCESS_RUNNING PROCESS_READY PROCESS_READY PROCESS_FREE"
    by (auto simp: sts4_def fun_eq_iff)
  with b show ?thesis
    unfolding a(2) st thr by (auto simp: conf_of_def world_simps mutex_init_def fun_eq_iff)
qed

lemma use_mutex_racem [simp]: "use_mutex racem_a" "use_mutex racem_b"
  by (simp_all add: racem_a_def racem_b_def)

lemma racem_runs_alone:
  assumes "m \<le> (n :: nat)"
  shows "\<exists>ow r. c_reach (int n) (conf_of (racem_command S ea eb boot_world))
     (looping (sts4 PROCESS_READY PROCESS_RUNNING PROCESS_READY PROCESS_FREE) 1 (replicate 16 0) 0 [2 \<mapsto> fresh racem_b]
        racem_a ow (int m) (int m) r)"
proof -
  let ?k = "looping (sts4 PROCESS_READY PROCESS_RUNNING PROCESS_READY PROCESS_FREE) 1 (replicate 16 0) 0 [2 \<mapsto> fresh racem_b]
        racem_a (-1) 0 0 0"
  have s: "c_reach (int n) (conf_of (racem_command S ea eb boot_world)) ?k"
    using conjunct2 [OF racem_boot [of S ea eb]] by (intro c_reach_run [of _ "[True]"]) (simp add: c_switch_def Let_def looping_def)
  have "0 + int m \<le> int n" using assms by simp
  from c_reach_loop [OF use_mutex_racem(1) this] obtain ow r where "c_reach (int n) ?k
     (looping (sts4 PROCESS_READY PROCESS_RUNNING PROCESS_READY PROCESS_FREE) 1 (replicate 16 0) 0 [2 \<mapsto> fresh racem_b]
        racem_a ow (0 + int m) (0 + int m) r)" by blast
  then show ?thesis using c_reach_trans [OF s] by (metis add_0)
qed

lemma lost_run_1:
  assumes "0 < iters"
  shows  "c_run iters [False, False, False, True, False, False, True, True]
    (looping (sts4 PROCESS_READY PROCESS_RUNNING PROCESS_READY PROCESS_FREE) 1 ws 0 [2 \<mapsto> fresh racem_b]
        racem_a ow g (iters - 1) r)
   = Some \<lparr>sts = sts4 PROCESS_READY PROCESS_RUNNING PROCESS_READY PROCESS_FREE, now = 1,
       cmtx = \<lparr>locked = 1, owner = 1, waiters = ws, nwaiters = 0\<rparr>, glob = g, dn = 0,
       thr = [2 \<mapsto> \<lparr>pc = Enqueue, prog = racem_b, idx = 0, reg = 0, wake = 0\<rparr>,
              1 \<mapsto> \<lparr>pc = LoadG, prog = racem_a, idx = iters - 1, reg = r, wake = 0\<rparr>]\<rparr>"
  using assms by (simp add: looping_def c_step_def c_thread_def c_switch_def Let_def fun_upd_twist)
lemma lost_run_2:
  "c_run iters [False, False, False, False, False, False, False, False, False, False, False, False, True, False, False]
    \<lparr>sts = sts4 PROCESS_READY PROCESS_RUNNING PROCESS_READY PROCESS_FREE, now = 1,
       cmtx = \<lparr>locked = 1, owner = 1, waiters = ws, nwaiters = 0\<rparr>, glob = g, dn = 0,
       thr = [2 \<mapsto> \<lparr>pc = Enqueue, prog = racem_b, idx = 0, reg = 0, wake = 0\<rparr>,
              1 \<mapsto> \<lparr>pc = LoadG, prog = racem_a, idx = iters - 1, reg = r, wake = 0\<rparr>]\<rparr>
   = Some \<lparr>sts = sts4 PROCESS_RUNNING PROCESS_TERMINATED PROCESS_BLOCKED PROCESS_FREE, now = 0,
       cmtx = \<lparr>locked = 0, owner = -1, waiters = ws[0 := 2], nwaiters = 1\<rparr>, glob = g + 1, dn = 1,
       thr = [2 \<mapsto> \<lparr>pc = Xchg, prog = racem_b, idx = 0, reg = 0, wake = 0\<rparr>,
              1 \<mapsto> \<lparr>pc = Halt, prog = racem_a, idx = iters, reg = 0, wake = 0\<rparr>]\<rparr>"
  by (simp add: c_step_def c_thread_def c_switch_def Let_def fun_upd_twist)

section \<open>The lost wake-up\<close>

text \<open>Once a blocked thread is not current and every other thread has halted, nothing wakes it.\<close>

definition stuck :: "nat \<Rightarrow> world \<Rightarrow> bool" where
  "stuck p w \<longleftrightarrow> sched_ok w \<and> st w p = PROCESS_BLOCKED \<and> cur w \<noteq> p
     \<and> (\<forall>q t. threads w q = Some t \<and> q \<noteq> p \<longrightarrow> pc t = Halt)"

lemma stuck_step: "wstep iters w w' \<Longrightarrow> stuck p w \<Longrightarrow> stuck p w' \<and> threads w' p = threads w p"
proof (induction rule: wstep.induct)
  case (run w w')
  show ?case
  proof (cases "threads w (cur w)")
    case None
    with run show ?thesis by (simp add: run_current_def)
  next
    case (Some t)
    then have "pc t = Halt" using run.prems by (auto simp: stuck_def)
    with Some run have "w' = w\<lparr>threads := (threads w)(cur w \<mapsto> t)\<rparr>"
      by (simp add: run_current_def step_defs)
    with Some run.prems show ?thesis by (auto simp: stuck_def world_simps)
  qed
next
  case (irq w)
  note r = conf_reschedule [of w] reschedule_view [of w]
  have "sched_ok w" using irq by (simp add: stuck_def)
  moreover have "next_of (st w) (cur w) \<noteq> p \<or> next_of (st w) (cur w) = cur w"
    using next_of_ready [of "st w" "cur w"] irq by (auto simp: stuck_def)
  ultimately show ?case
    using irq r by (auto simp: stuck_def world_simps Let_def split: if_splits)
qed

lemma stuck_reach: "reach iters w w' \<Longrightarrow> stuck p w \<Longrightarrow> stuck p w' \<and> threads w' p = threads w p"
  by (induction rule: reach.induct) (auto dest: stuck_step)

text \<open>C26. A wake-up can be lost: \<^verbatim>\<open>mutex_lock\<close> enqueues its caller some time after the exchange that failed,
  and if the holder releases the lock for the last time in between, the caller blocks on a free lock.
  The command \<^verbatim>\<open>racem\<close> can reach, from boot and with its 100000 iterations, a state in which the lock
  is free, its first thread has ended, its second is BLOCKED, and stays so for ever.\<close>

theorem mutex_lock_loses_wakeup:
  "\<exists>w. reach RACE_ITERS (racem_command S ea eb boot_world) w \<and> locked (mtx w) = 0
     \<and> state (process_table w ! 2) = PROCESS_BLOCKED
     \<and> (\<forall>w'. reach RACE_ITERS w w' \<longrightarrow> state (process_table w' ! 2) = PROCESS_BLOCKED
           \<and> map_option pc (threads w' 2) = Some Xchg)"
proof -
  have N: "RACE_ITERS = int 100000" "0 < RACE_ITERS" by (simp_all add: RACE_ITERS_def)
  from racem_runs_alone [of 99999 100000 S ea eb] obtain ow r where
    "c_reach RACE_ITERS (conf_of (racem_command S ea eb boot_world))
     (looping (sts4 PROCESS_READY PROCESS_RUNNING PROCESS_READY PROCESS_FREE) 1 (replicate 16 0) 0 [2 \<mapsto> fresh racem_b]
        racem_a ow (RACE_ITERS - 1) (RACE_ITERS - 1) r)" unfolding N(1) by auto
  from c_reach_trans [OF c_reach_trans [OF this c_reach_run [OF lost_run_1 [OF N(2)]]] c_reach_run [OF lost_run_2]]
  obtain bs where "c_run RACE_ITERS bs (conf_of (racem_command S ea eb boot_world)) =
     Some \<lparr>sts = sts4 PROCESS_RUNNING PROCESS_TERMINATED PROCESS_BLOCKED PROCESS_FREE, now = 0,
       cmtx = \<lparr>locked = 0, owner = -1, waiters = (replicate 16 0)[0 := 2], nwaiters = 1\<rparr>, glob = RACE_ITERS - 1 + 1, dn = 1,
       thr = [2 \<mapsto> \<lparr>pc = Xchg, prog = racem_b, idx = 0, reg = 0, wake = 0\<rparr>,
              1 \<mapsto> \<lparr>pc = Halt, prog = racem_a, idx = RACE_ITERS, reg = 0, wake = 0\<rparr>]\<rparr>"
    unfolding c_reach_def by blast
  from c_run_reach [OF conjunct1 [OF racem_boot] this] obtain w where
    w: "reach RACE_ITERS (racem_command S ea eb boot_world) w" "sched_ok w" and c: "conf_of w =
     \<lparr>sts = sts4 PROCESS_RUNNING PROCESS_TERMINATED PROCESS_BLOCKED PROCESS_FREE, now = 0,
       cmtx = \<lparr>locked = 0, owner = -1, waiters = (replicate 16 0)[0 := 2], nwaiters = 1\<rparr>, glob = RACE_ITERS - 1 + 1, dn = 1,
       thr = [2 \<mapsto> \<lparr>pc = Xchg, prog = racem_b, idx = 0, reg = 0, wake = 0\<rparr>,
              1 \<mapsto> \<lparr>pc = Halt, prog = racem_a, idx = RACE_ITERS, reg = 0, wake = 0\<rparr>]\<rparr>" by blast
  have f: "st w 2 = PROCESS_BLOCKED" "cur w = 0" "locked (mtx w) = 0"
    "threads w = [2 \<mapsto> \<lparr>pc = Xchg, prog = racem_b, idx = 0, reg = 0, wake = 0\<rparr>,
              1 \<mapsto> \<lparr>pc = Halt, prog = racem_a, idx = RACE_ITERS, reg = 0, wake = 0\<rparr>]"
    using arg_cong [OF c, of sts] arg_cong [OF c, of now] arg_cong [OF c, of cmtx] arg_cong [OF c, of thr]
    by simp_all
  then have "stuck 2 w" using w(2) by (auto simp: stuck_def split: if_splits)
  from stuck_reach [OF _ this, of RACE_ITERS] w(1) f show ?thesis
    by (intro exI [of _ w]) (simp add: stuck_def st_def)
qed

theorem mutex_lock_loses_wakeup_witness:
  "\<exists>w. reach RACE_ITERS (racem_command 0x20000 0x10234 0x10300 boot_world) w \<and> locked (mtx w) = 0
     \<and> state (process_table w ! 2) = PROCESS_BLOCKED"
  using mutex_lock_loses_wakeup [of "0x20000" "0x10234" "0x10300"] by blast

section \<open>The waiter list popped twice\<close>

lemma third_boot:
  "sched_ok (spawn S (nm, ec, racem_a) (racem_command S ea eb boot_world))
   \<and> conf_of (spawn S (nm, ec, racem_a) (racem_command S ea eb boot_world)) =
     \<lparr>sts = sts4 PROCESS_RUNNING PROCESS_READY PROCESS_READY PROCESS_READY, now = 0,
      cmtx = \<lparr>locked = 0, owner = -1, waiters = replicate 16 0, nwaiters = 0\<rparr>, glob = 0, dn = 0,
      thr = [2 \<mapsto> fresh racem_b, 1 \<mapsto> fresh racem_a, 3 \<mapsto> fresh racem_a]\<rparr>"
proof -
  obtain v where v: "racem_command S ea eb boot_world = v" by blast
  note b = racem_boot [of S ea eb, unfolded v]
  have st: "st v = sts4 PROCESS_RUNNING PROCESS_READY PROCESS_READY PROCESS_FREE"
    and thr: "threads v = [2 \<mapsto> fresh racem_b, 1 \<mapsto> fresh racem_a]"
    using arg_cong [OF conjunct2 [OF b], of sts] arg_cong [OF conjunct2 [OF b], of thr] by simp_all
  have "for_find (\<lambda>i. st v i = PROCESS_FREE) 1 16 = Some 3"
    by (simp add: st for_find.simps flip: numeral_2_eq_2 numeral_3_eq_3)
  from spawn_conf [OF conjunct1 [OF b] this, of S nm ec racem_a] b show ?thesis
    by (simp add: v st thr)
qed

lemma pop_run_1:
  "c_run iters [True, False, False, False, True, False, False, False, False, True, True, False, False, False, False, False]
    \<lparr>sts = sts4 PROCESS_RUNNING PROCESS_READY PROCESS_READY PROCESS_READY, now = 0,
      cmtx = \<lparr>locked = 0, owner = -1, waiters = replicate 16 0, nwaiters = 0\<rparr>, glob = 0, dn = 0,
      thr = [2 \<mapsto> fresh racem_b, 1 \<mapsto> fresh racem_a, 3 \<mapsto> fresh racem_a]\<rparr>
   = Some \<lparr>sts = sts4 PROCESS_READY PROCESS_RUNNING PROCESS_BLOCKED PROCESS_READY, now = 1,
      cmtx = \<lparr>locked = 0, owner = -1, waiters = (replicate 16 0)[0 := 2], nwaiters = 1\<rparr>, glob = 1, dn = 0,
      thr = [2 \<mapsto> \<lparr>pc = Xchg, prog = racem_b, idx = 0, reg = 0, wake = 0\<rparr>,
             1 \<mapsto> \<lparr>pc = PopLoad, prog = racem_a, idx = 0, reg = 0, wake = 0\<rparr>, 3 \<mapsto> fresh racem_a]\<rparr>" if "0 < iters"
  using that by (simp add: c_step_def c_thread_def c_switch_def Let_def fun_upd_twist)

lemma pop_run_2:
  "c_run iters [True, False, False, False, False, False, False, False, False, False, False, True, True, False, False]
    \<lparr>sts = sts4 PROCESS_READY PROCESS_RUNNING PROCESS_BLOCKED PROCESS_READY, now = 1,
      cmtx = \<lparr>locked = 0, owner = -1, waiters = ws, nwaiters = 1\<rparr>, glob = 1, dn = 0,
      thr = [2 \<mapsto> \<lparr>pc = Xchg, prog = racem_b, idx = 0, reg = 0, wake = 0\<rparr>,
             1 \<mapsto> \<lparr>pc = PopLoad, prog = racem_a, idx = 0, reg = 0, wake = 0\<rparr>, 3 \<mapsto> fresh racem_a]\<rparr>
   = Some \<lparr>sts = sts4 PROCESS_READY PROCESS_RUNNING PROCESS_BLOCKED PROCESS_READY, now = 1,
      cmtx = \<lparr>locked = 0, owner = -1, waiters = ws, nwaiters = -1\<rparr>, glob = 2, dn = 0,
      thr = [2 \<mapsto> \<lparr>pc = Xchg, prog = racem_b, idx = 0, reg = 0, wake = 0\<rparr>,
             1 \<mapsto> \<lparr>pc = PopRead, prog = racem_a, idx = 0, reg = -1, wake = 0\<rparr>,
             3 \<mapsto> \<lparr>pc = PopRead, prog = racem_a, idx = 0, reg = 0, wake = 0\<rparr>]\<rparr>" if "0 < iters"
  using that by (simp add: c_step_def c_thread_def c_switch_def Let_def fun_upd_twist)

text \<open>C27. The test and the pop in \<^verbatim>\<open>mutex_unlock\<close> are not atomic and run after the release: with three
  threads on one mutex two of them can pop the same waiter, the count becomes -1 and the second
  reads \<^verbatim>\<open>waiters[-1]\<close>.\<close>

theorem mutex_unlock_pops_twice:
  "\<exists>w. reach RACE_ITERS (spawn S (nm, ec, racem_a) (racem_command S ea eb boot_world)) w
     \<and> nwaiters (mtx w) = -1 \<and> run_current RACE_ITERS w = Inl (BadWaiterIndex (-1))"
proof -
  have N: "0 < RACE_ITERS" by (simp add: RACE_ITERS_def)
  from c_reach_trans [OF c_reach_run [OF pop_run_1 [OF N]] c_reach_run [OF pop_run_2 [OF N]]]
  obtain bs where bs: "c_run RACE_ITERS bs (conf_of (spawn S (nm, ec, racem_a) (racem_command S ea eb boot_world)))
    = Some \<lparr>sts = sts4 PROCESS_READY PROCESS_RUNNING PROCESS_BLOCKED PROCESS_READY, now = 1,
      cmtx = \<lparr>locked = 0, owner = -1, waiters = (replicate 16 0)[0 := 2], nwaiters = -1\<rparr>, glob = 2, dn = 0,
      thr = [2 \<mapsto> \<lparr>pc = Xchg, prog = racem_b, idx = 0, reg = 0, wake = 0\<rparr>,
             1 \<mapsto> \<lparr>pc = PopRead, prog = racem_a, idx = 0, reg = -1, wake = 0\<rparr>,
             3 \<mapsto> \<lparr>pc = PopRead, prog = racem_a, idx = 0, reg = 0, wake = 0\<rparr>]\<rparr>"
    unfolding c_reach_def conjunct2 [OF third_boot] by blast
  from c_run_reach [OF conjunct1 [OF third_boot] bs] obtain w where
    w: "reach RACE_ITERS (spawn S (nm, ec, racem_a) (racem_command S ea eb boot_world)) w" and c: "conf_of w =
     \<lparr>sts = sts4 PROCESS_READY PROCESS_RUNNING PROCESS_BLOCKED PROCESS_READY, now = 1,
      cmtx = \<lparr>locked = 0, owner = -1, waiters = (replicate 16 0)[0 := 2], nwaiters = -1\<rparr>, glob = 2, dn = 0,
      thr = [2 \<mapsto> \<lparr>pc = Xchg, prog = racem_b, idx = 0, reg = 0, wake = 0\<rparr>,
             1 \<mapsto> \<lparr>pc = PopRead, prog = racem_a, idx = 0, reg = -1, wake = 0\<rparr>,
             3 \<mapsto> \<lparr>pc = PopRead, prog = racem_a, idx = 0, reg = 0, wake = 0\<rparr>]\<rparr>" by blast
  have "cur w = 1" "nwaiters (mtx w) = -1"
    "threads w 1 = Some \<lparr>pc = PopRead, prog = racem_a, idx = 0, reg = -1, wake = 0\<rparr>"
    using arg_cong [OF c, of now] arg_cong [OF c, of cmtx] arg_cong [OF c, of "\<lambda>k. thr k 1"] by simp_all
  with w show ?thesis by (intro exI [of _ w]) (simp add: run_current_def step_defs)
qed

section \<open>A run to the end\<close>

lemma ends_run_1:
  "c_run iters [False, False, False, False, False, False, True]
    (looping (sts4 PROCESS_READY PROCESS_RUNNING PROCESS_READY PROCESS_FREE) 1 ws 0 [2 \<mapsto> fresh racem_b]
        racem_a ow g iters r)
   = Some (looping (sts4 PROCESS_READY PROCESS_TERMINATED PROCESS_RUNNING PROCESS_FREE) 2 ws 1
        [1 \<mapsto> \<lparr>pc = Halt, prog = racem_a, idx = iters, reg = 0, wake = 0\<rparr>] racem_b ow g 0 0)"
  by (simp add: looping_def c_step_def c_thread_def c_switch_def Let_def fun_upd_twist)

lemma ends_run_2:
  "c_run iters [False, False, False, False, False, False]
    (looping (sts4 PROCESS_READY PROCESS_TERMINATED PROCESS_RUNNING PROCESS_FREE) 2 ws 1
        [1 \<mapsto> \<lparr>pc = Halt, prog = racem_a, idx = iters, reg = 0, wake = 0\<rparr>] racem_b ow g iters r)
   = Some \<lparr>sts = sts4 PROCESS_READY PROCESS_TERMINATED PROCESS_TERMINATED PROCESS_FREE, now = 2,
       cmtx = \<lparr>locked = 0, owner = ow, waiters = ws, nwaiters = 0\<rparr>, glob = g, dn = 2,
       thr = [1 \<mapsto> \<lparr>pc = Halt, prog = racem_a, idx = iters, reg = 0, wake = 0\<rparr>,
              2 \<mapsto> \<lparr>pc = Halt, prog = racem_b, idx = iters, reg = 1, wake = 0\<rparr>]\<rparr>"
  by (simp add: looping_def c_step_def c_thread_def Let_def fun_upd_twist)

lemma racem_can_end:
  "\<exists>w t u. reach (int n) (racem_command S ea eb boot_world) w \<and> threads w 1 = Some t \<and> threads w 2 = Some u
     \<and> pc t = Halt \<and> pc u = Halt"
proof -
  let ?h = "[1 \<mapsto> \<lparr>pc = Halt, prog = racem_a, idx = int n, reg = 0, wake = 0\<rparr>]"
  let ?f = "sts4 PROCESS_READY PROCESS_TERMINATED PROCESS_RUNNING PROCESS_FREE"
  obtain ow r where "c_reach (int n) (conf_of (racem_command S ea eb boot_world))
     (looping (sts4 PROCESS_READY PROCESS_RUNNING PROCESS_READY PROCESS_FREE) 1 (replicate 16 0) 0 [2 \<mapsto> fresh racem_b]
        racem_a ow (int n) (int n) r)"
    using racem_runs_alone [of n n S ea eb] by auto
  from c_reach_trans [OF this c_reach_run [OF ends_run_1]]
  have 1: "c_reach (int n) (conf_of (racem_command S ea eb boot_world)) (looping ?f 2 (replicate 16 0) 1 ?h racem_b ow (int n) 0 0)" .
  have "0 + int n \<le> int n" by simp
  from c_reach_loop [OF use_mutex_racem(2) this] obtain ow' r' where
    "c_reach (int n) (looping ?f 2 (replicate 16 0) 1 ?h racem_b ow (int n) 0 0)
       (looping ?f 2 (replicate 16 0) 1 ?h racem_b ow' (int n + int n) (0 + int n) r')" by blast
  then have "c_reach (int n) (looping ?f 2 (replicate 16 0) 1 ?h racem_b ow (int n) 0 0)
       (looping ?f 2 (replicate 16 0) 1 ?h racem_b ow' (int n + int n) (int n) r')" by simp
  from c_reach_trans [OF c_reach_trans [OF 1 this] c_reach_run [OF ends_run_2]]
  obtain bs k where bs: "c_run (int n) bs (conf_of (racem_command S ea eb boot_world)) = Some k"
    and k: "thr k = [1 \<mapsto> \<lparr>pc = Halt, prog = racem_a, idx = int n, reg = 0, wake = 0\<rparr>,
              2 \<mapsto> \<lparr>pc = Halt, prog = racem_b, idx = int n, reg = 1, wake = 0\<rparr>]"
    unfolding c_reach_def by (elim exE) (rule that, assumption, simp)
  from c_run_reach [OF conjunct1 [OF racem_boot] bs] obtain w where
    w: "reach (int n) (racem_command S ea eb boot_world) w" and c: "conf_of w = k" by blast
  have "threads w = thr k" using arg_cong [OF c, of thr] by simp
  with w k show ?thesis by fastforce
qed

section \<open>The total\<close>

text \<open>C21. With the mutex no increment is lost: when both threads of the command \<^verbatim>\<open>racem\<close> have ended, in
  whatever order their accesses were interleaved, \<^verbatim>\<open>myglobal\<close> is twice the number of iterations.\<close>

theorem racem_total:
  assumes "threads w0 = Map.empty" "0 \<le> iters" "reach iters (racem_command stacks ea eb w0) w"
    and "threads w p = Some t" "threads w q = Some u" "p \<noteq> q" "pc t = Halt" "pc u = Halt"
  shows "myglobal w = 2 * iters"
proof -
  obtain D where D: "card D \<le> 2" "count_inv iters D w"
    using racem_invariants(1) [OF assms(1-3)] by blast
  have fin: "finite D" and dom: "{p, q} \<subseteq> D" using D(2) assms(4,5) by (auto simp: count_inv_def)
  have "card {p, q} = 2" using assms(6) by simp
  with D(1) have "{p, q} = D" using fin dom by (intro card_subset_eq) (use card_mono [OF fin dom] in simp_all)
  then have "myglobal w = completed t + completed u"
    using D(2) assms(4-6) by (auto simp: count_inv_def)
  moreover have "completed t = iters" "completed u = iters"
    using D(2) assms(4,5,7,8) by (auto simp: count_inv_def index_ok_def completed_def)
  ultimately show ?thesis by simp
qed

theorem racem_total_witness:
  "\<exists>w. reach RACE_ITERS (racem_command 0x20000 0x10234 0x10300 boot_world) w \<and> myglobal w = 200000"
proof -
  have N: "RACE_ITERS = int 100000" "0 \<le> RACE_ITERS" by (simp_all add: RACE_ITERS_def)
  from racem_can_end [of 100000 "0x20000" "0x10234" "0x10300"] obtain w t u where
    w: "reach RACE_ITERS (racem_command 0x20000 0x10234 0x10300 boot_world) w"
    and t: "threads w 1 = Some t" "threads w 2 = Some u" "pc t = Halt" "pc u = Halt" unfolding N(1) by blast
  have "myglobal w = 2 * RACE_ITERS"
    by (rule racem_total [OF _ N(2) w t(1,2) _ t(3,4)]) simp_all
  with w show ?thesis by (auto simp: RACE_ITERS_def)
qed

section \<open>Mutual exclusion\<close>

text \<open>C20. The mutex excludes: however many threads use it and however ticks interleave their accesses, at
  most one is between the exchange that takes the lock and the store that releases it; the lock is
  then marked held, and while the protected counter is updated it names its holder.\<close>

theorem mutex_excludes:
  assumes "threads w0 = Map.empty" "\<forall>x \<in> set ts. use_mutex (snd (snd x))"
    and "reach iters (start_threads stacks ts w0) w"
    and "threads w p = Some t" "in_cs t"
  shows "locked (mtx w) = 1 \<and> (\<forall>q u. threads w q = Some u \<and> in_cs u \<longrightarrow> q = p)
     \<and> (owns t \<longrightarrow> owner (mtx w) = sint (of_nat p :: u32))"
  using lock_inv_reach [OF assms(3) lock_inv_start [OF assms(1,2)]] assms(4,5)
  unfolding lock_inv_def by blast

theorem mutex_excludes_witness:
  "\<exists>w t. reach 1 (start_threads 0x20000 [(bytes ''racem_a'', 0x10234, racem_a), (bytes ''racem_b'', 0x10300, racem_b)]
        (boot_world\<lparr>myglobal := 0, race_done := 0\<rparr>)) w
     \<and> threads w 1 = Some t \<and> in_cs t \<and> locked (mtx w) = 1 \<and> \<not> (\<exists>u. threads w 2 = Some u \<and> in_cs u)"
proof -
  let ?w = "racem_command 0x20000 0x10234 0x10300 boot_world"
  have "c_run 1 [True, False, False] (conf_of ?w) = Some
     \<lparr>sts = sts4 PROCESS_READY PROCESS_RUNNING PROCESS_READY PROCESS_FREE, now = 1,
      cmtx = \<lparr>locked = 1, owner = -1, waiters = replicate 16 0, nwaiters = 0\<rparr>, glob = 0, dn = 0,
      thr = [2 \<mapsto> fresh racem_b, 1 \<mapsto> \<lparr>pc = SetOwner, prog = racem_a, idx = 0, reg = 0, wake = 0\<rparr>]\<rparr>"
    unfolding conjunct2 [OF racem_boot]
    by (simp add: c_step_def c_thread_def c_switch_def Let_def fun_upd_twist)
  from c_run_reach [OF conjunct1 [OF racem_boot] this] obtain w where w: "reach 1 ?w w" and c: "conf_of w =
     \<lparr>sts = sts4 PROCESS_READY PROCESS_RUNNING PROCESS_READY PROCESS_FREE, now = 1,
      cmtx = \<lparr>locked = 1, owner = -1, waiters = replicate 16 0, nwaiters = 0\<rparr>, glob = 0, dn = 0,
      thr = [2 \<mapsto> fresh racem_b, 1 \<mapsto> \<lparr>pc = SetOwner, prog = racem_a, idx = 0, reg = 0, wake = 0\<rparr>]\<rparr>" by blast
  let ?t = "\<lparr>pc = SetOwner, prog = racem_a, idx = 0, reg = 0, wake = 0\<rparr>"
  have t: "threads w 1 = Some ?t" "in_cs ?t"
    using arg_cong [OF c, of "\<lambda>k. thr k 1"] by (simp_all add: in_cs_def)
  note w' = w [unfolded racem_command_start]
  have "locked (mtx w) = 1 \<and> (\<forall>q u. threads w q = Some u \<and> in_cs u \<longrightarrow> q = 1)
     \<and> (owns ?t \<longrightarrow> owner (mtx w) = sint (of_nat 1 :: u32))"
    by (rule mutex_excludes [OF _ _ w' t]) (simp_all add: racem_a_def racem_b_def)
  with w' t show ?thesis by fastforce
qed

end
