(* ===== verification/Pmm.thy ===== *)
theory Pmm
  imports Memory Bitmap
begin

text \<open>
  The physical frame allocator (\<^verbatim>\<open>kernel/pmm.c\<close>, \<^verbatim>\<open>kernel/pmm.h\<close>): one bit per 4 KiB frame of
  32 MiB, set for a used frame. The state holds the bytes of the static \<^verbatim>\<open>bitmap\<close> array and the
  two counters. \<^verbatim>\<open>pmm_init\<close> reads the memory map that the boot code is expected to leave at
  physical address 0x8000, so the physical memory is an argument, and so is the linker symbol
  \<^verbatim>\<open>_kernel_end\<close>, whose value depends on the build.
\<close>

section \<open>State and bitmap operations\<close>

record e820_entry =
  e_base :: u64
  e_length :: u64
  e_type :: u32
  e_acpi_ext :: u32

record pmm =
  pmm_bitmap :: memory
  total_frames :: u32
  free_frames :: u32

definition pmm_bitmap_set :: "memory \<Rightarrow> nat \<Rightarrow> memory" where
  "pmm_bitmap_set m f = wr32 m (4 * (f div 32)) (rd32 m (4 * (f div 32)) OR push_bit (f mod 32) 1)"

definition pmm_bitmap_clear :: "memory \<Rightarrow> nat \<Rightarrow> memory" where
  "pmm_bitmap_clear m f =
     wr32 m (4 * (f div 32)) (rd32 m (4 * (f div 32)) AND NOT (push_bit (f mod 32) 1))"

definition pmm_bitmap_test :: "memory \<Rightarrow> nat \<Rightarrow> bool" where
  "pmm_bitmap_test m f \<longleftrightarrow> drop_bit (f mod 32) (rd32 m (4 * (f div 32))) AND 1 \<noteq> 0"

definition pmm_k_memset :: "memory \<Rightarrow> nat \<Rightarrow> u8 \<Rightarrow> nat \<Rightarrow> memory" where
  "pmm_k_memset m dst val len = for_do (\<lambda>i m. wr8 m (dst + i) val) 0 len m"

definition e820_count :: "memory \<Rightarrow> nat" where
  "e820_count phys = unat (rd16 phys 0x8000)"

definition e820_map :: "memory \<Rightarrow> nat \<Rightarrow> e820_entry" where
  "e820_map phys i = (let p = 0x8004 + 24 * i in
     \<lparr>e_base = rd64 phys p, e_length = rd64 phys (p + 8),
      e_type = rd32 phys (p + 16), e_acpi_ext = rd32 phys (p + 20)\<rparr>)"

section \<open>Initialisation\<close>

text \<open>\<^verbatim>\<open>if (bitmap_test(frame)) { bitmap_clear(frame); free_frames++; }\<close>, which the source
  has three times.\<close>

definition free_if_used :: "nat \<Rightarrow> pmm \<Rightarrow> pmm" where
  "free_if_used frame s =
     (if pmm_bitmap_test (pmm_bitmap s) frame
      then s\<lparr>pmm_bitmap := pmm_bitmap_clear (pmm_bitmap s) frame, free_frames := free_frames s + 1\<rparr>
      else s)"

lemma unat_add_frame: "unat (a :: u32) div 4096 < 8192 \<Longrightarrow> unat (a + 4096) = unat a + 4096"
  by (subst unat_add_lem [THEN iffD1]) auto

text \<open>The inner loop of \<^verbatim>\<open>pmm_init\<close> over one usable region, in 32-bit arithmetic; the break for
  frames beyond the bitmap is what makes it terminate for every \<^verbatim>\<open>end\<close>.\<close>

function e820_frames :: "u32 \<Rightarrow> u32 \<Rightarrow> pmm \<Rightarrow> pmm" where
  "e820_frames a end s =
     (if a + 4096 \<le> end then
        (let frame = unat a div 4096 in
         if 8192 \<le> frame then s
         else if 0x200000 \<le> a \<and> a < 0x300000 then e820_frames (a + 4096) end s
         else e820_frames (a + 4096) end (free_if_used frame s))
      else s)"
  by pat_completeness auto

termination
  by (relation "measure (\<lambda>(a, e, s). 8192 - unat a div 4096)") (auto simp: unat_add_frame)

declare e820_frames.simps [simp del]

definition e820_region :: "memory \<Rightarrow> u32 \<Rightarrow> nat \<Rightarrow> pmm \<Rightarrow> pmm" where
  "e820_region phys kernel_end i s =
     (if e_type (e820_map phys i) \<noteq> 1 then s
      else let start = ucast (e_base (e820_map phys i));
               len = ucast (e_length (e820_map phys i));
               end = start + len;
               first = (if start < kernel_end then kernel_end else start)
           in e820_frames first end s)"

text \<open>The loop used when the map is missing: addresses from 1 MiB to the end of RAM. The
  counter starts at a constant and never leaves [1 MiB, 32 MiB], so it is a natural number.\<close>

function fallback_frames :: "nat \<Rightarrow> pmm \<Rightarrow> pmm" where
  "fallback_frames a s =
     (if a + 4096 \<le> 32 * 1024 * 1024 then
        (if 0x200000 \<le> a \<and> a < 0x300000 then fallback_frames (a + 4096) s
         else fallback_frames (a + 4096) (free_if_used (a div 4096) s))
      else s)"
  by pat_completeness auto
termination
  by (relation "measure (\<lambda>(a, s). 32 * 1024 * 1024 - a)") auto

declare fallback_frames.simps [simp del]

definition pmm_init :: "memory \<Rightarrow> u32 \<Rightarrow> pmm \<Rightarrow> pmm" where
  "pmm_init phys kernel_end s =
     (let s = s\<lparr>pmm_bitmap := pmm_k_memset (pmm_bitmap s) 0 0xFF 1024, free_frames := 0\<rparr>;
          count = e820_count phys;
          s = for_do (e820_region phys kernel_end) 0 count s;
          s = (if count = 0 \<or> 64 < count then fallback_frames 0x100000 s else s)
      in s\<lparr>total_frames := 32 * 1024 * 1024 div 4096\<rparr>)"

section \<open>Allocation\<close>

definition pmm_alloc_frame :: "pmm \<Rightarrow> u32 \<times> pmm" where
  "pmm_alloc_frame s =
     (case for_find (\<lambda>i. \<not> pmm_bitmap_test (pmm_bitmap s) i) 0 (unat (total_frames s)) of
        Some i \<Rightarrow> (of_nat i * 4096,
          s\<lparr>pmm_bitmap := pmm_bitmap_set (pmm_bitmap s) i, free_frames := free_frames s - 1\<rparr>)
      | None \<Rightarrow> (0, s))"

definition pmm_free_frame :: "u32 \<Rightarrow> pmm \<Rightarrow> pmm" where
  "pmm_free_frame phys_addr s =
     (let frame = unat (phys_addr div 4096) in
      if unat (total_frames s) \<le> frame then s else free_if_used frame s)"

definition pmm_free_frames :: "pmm \<Rightarrow> u32" where
  "pmm_free_frames s = free_frames s"

definition pmm_total_frames :: "pmm \<Rightarrow> u32" where
  "pmm_total_frames s = total_frames s"

section \<open>The bitmap of the allocator is a bitmap\<close>

lemma pmm_test_bit: "pmm_bitmap_test m f = bit (rd32 m (4 * (f div 32))) (f mod 32)"
  by (simp add: pmm_bitmap_test_def and_1_neq_0_iff_bit)

lemma rd32_wr32_slot: "rd32 (wr32 m (4 * i) v) (4 * j) = (if i = j then v else rd32 m (4 * j))"
proof (cases "i = j")
  case False
  then have "4 * i + 4 \<le> 4 * j \<or> 4 * j + 4 \<le> 4 * i" by linarith
  with False show ?thesis by (simp add: rd32_wr32_other)
qed (simp add: rd32_wr32)

lemma pmm_test_set: "pmm_bitmap_test (pmm_bitmap_set m n) k \<longleftrightarrow> k = n \<or> pmm_bitmap_test m k"
  by (auto simp: pmm_test_bit pmm_bitmap_set_def rd32_wr32_slot bit_or_2p dest: div_mod_neq)

lemma pmm_test_clear: "pmm_bitmap_test (pmm_bitmap_clear m n) k \<longleftrightarrow> k \<noteq> n \<and> pmm_bitmap_test m k"
  by (auto simp: pmm_test_bit pmm_bitmap_clear_def rd32_wr32_slot bit_and_not_2p dest: div_mod_neq)

lemma pmm_clear_set: "\<not> pmm_bitmap_test m n \<Longrightarrow> pmm_bitmap_clear (pmm_bitmap_set m n) n = m"
  by (simp add: pmm_test_bit pmm_bitmap_set_def pmm_bitmap_clear_def rd32_wr32 wr32_wr32
      or_2p_and_not_2p wr32_rd32)

interpretation frames: first_fit pmm_bitmap_test pmm_bitmap_set pmm_bitmap_clear 0 8192
  by unfold_locales (simp_all add: pmm_test_set pmm_test_clear pmm_clear_set)

section \<open>The loops of the initialisation\<close>

lemma pmm_k_memset_fill: "pmm_k_memset m dst val len = fill m dst val len"
proof -
  have "for_do (\<lambda>i m. wr8 m (dst + i) val) 0 len m = fill m dst val len"
    by (rule for_do_invariant [where P = "\<lambda>i t. t = fill m dst val i"])
      (auto simp: fill_Suc_end)
  then show ?thesis by (simp add: pmm_k_memset_def)
qed

lemma pmm_bitmap_all_set:
  assumes "f < 8192"
  shows "pmm_bitmap_test (pmm_k_memset m 0 0xFF 1024) f"
proof -
  have "f div 32 < 256" using assms by (simp add: less_mult_imp_div_less)
  then have "4 * (f div 32) + 3 < 1024" by linarith
  then have "rd32 (fill m 0 0xFF 1024) (4 * (f div 32)) = 0xFFFFFFFF"
    by (simp add: rd32_def fill_at)
  then have "pmm_bitmap_test (pmm_k_memset m 0 0xFF 1024) f = bit (mask 32 :: u32) (f mod 32)"
    by (simp add: pmm_test_bit pmm_k_memset_fill mask_eq_exp_minus_1)
  then show ?thesis
    by (simp add: bit_mask_iff)
qed

text \<open>Every frame that a region's loop frees is in range, outside the RAM disk and not below the
  loop's start, so a predicate kept by freeing such frames holds after the loop.\<close>

lemma e820_frames_rule:
  assumes "P s"
    and "\<And>b t. P t \<Longrightarrow> a \<le> b \<Longrightarrow> unat b div 4096 < 8192 \<Longrightarrow> \<not> (0x200000 \<le> b \<and> b < 0x300000)
      \<Longrightarrow> P (free_if_used (unat b div 4096) t)"
  shows "P (e820_frames a end s)"
  using assms
proof (induction a "end" s rule: e820_frames.induct)
  case (1 a e s)
  show ?case
  proof (cases "a + 4096 \<le> e \<and> unat a div 4096 < 8192")
    case True
    then have "a \<le> a + 4096"
      by (simp add: word_le_nat_alt unat_add_frame)
    then have up: "a \<le> b" if "a + 4096 \<le> b" for b
      using that by simp
    let ?t = "if 0x200000 \<le> a \<and> a < 0x300000 then s else free_if_used (unat a div 4096) s"
    have P: "P ?t" using "1.prems" True by auto
    have "P (e820_frames (a + 4096) e ?t)"
      using True "1.IH" P "1.prems"(2) up by (cases "0x200000 \<le> a \<and> a < 0x300000") auto
    with True show ?thesis
      by (subst e820_frames.simps) (auto split: if_splits)
  next
    case False
    with "1.prems" show ?thesis by (subst e820_frames.simps) auto
  qed
qed

lemma e820_region_rule:
  assumes "P s"
    and "\<And>b t. P t \<Longrightarrow> kernel_end \<le> b \<Longrightarrow> unat b div 4096 < 8192 \<Longrightarrow> \<not> (0x200000 \<le> b \<and> b < 0x300000)
      \<Longrightarrow> P (free_if_used (unat b div 4096) t)"
  shows "P (e820_region phys kernel_end i s)"
proof -
  have "P (e820_frames a e s)" if "kernel_end \<le> a" for a e
  proof (rule e820_frames_rule [where P = P])
    fix b t
    assume "P t" "a \<le> b" "unat b div 4096 < 8192" "\<not> (0x200000 \<le> b \<and> b < 0x300000)"
    with that show "P (free_if_used (unat b div 4096) t)"
      by (intro assms(2)) (auto intro: order_trans)
  qed (rule assms(1))
  then show ?thesis
    using assms(1) by (simp add: e820_region_def Let_def)
qed

lemma fallback_frames_rule:
  assumes "P s" "0x100000 \<le> a" "a mod 4096 = 0"
    and "\<And>f t. P t \<Longrightarrow> 256 \<le> f \<Longrightarrow> f < 8192 \<Longrightarrow> \<not> (512 \<le> f \<and> f < 768) \<Longrightarrow> P (free_if_used f t)"
  shows "P (fallback_frames a s)"
  using assms
proof (induction a s rule: fallback_frames.induct)
  case (1 a s)
  show ?case
  proof (cases "a + 4096 \<le> 32 * 1024 * 1024")
    case True
    have m: "(a + 4096) mod 4096 = 0" using "1.prems"(3) by simp
    have "P (if 0x200000 \<le> a \<and> a < 0x300000 then s else free_if_used (a div 4096) s)"
      using "1.prems" True by (auto intro!: "1.prems"(4))
    then show ?thesis
      using True "1.IH" "1.prems" m by (subst fallback_frames.simps) (auto split: if_splits)
  next
    case False
    with "1.prems" show ?thesis by (subst fallback_frames.simps) auto
  qed
qed

text \<open>The rule for the whole initialisation.\<close>

lemma pmm_init_rule:
  assumes init: "P (s\<lparr>pmm_bitmap := fill (pmm_bitmap s) 0 0xFF 1024, free_frames := 0\<rparr>)"
    and region: "\<And>b t. P t \<Longrightarrow> kernel_end \<le> b \<Longrightarrow> unat b div 4096 < 8192
      \<Longrightarrow> \<not> (0x200000 \<le> b \<and> b < 0x300000) \<Longrightarrow> P (free_if_used (unat b div 4096) t)"
    and fallback: "\<And>f t. P t \<Longrightarrow> e820_count phys = 0 \<or> 64 < e820_count phys \<Longrightarrow> 256 \<le> f \<Longrightarrow> f < 8192
      \<Longrightarrow> \<not> (512 \<le> f \<and> f < 768) \<Longrightarrow> P (free_if_used f t)"
    and total: "\<And>t. P t \<Longrightarrow> Q (t\<lparr>total_frames := 8192\<rparr>)"
  shows "Q (pmm_init phys kernel_end s)"
proof -
  let ?s0 = "s\<lparr>pmm_bitmap := fill (pmm_bitmap s) 0 0xFF 1024, free_frames := 0\<rparr>"
  let ?s1 = "for_do (e820_region phys kernel_end) 0 (e820_count phys) ?s0"
  have "P ?s1"
  proof (rule for_do_invariant [where P = "\<lambda>_. P"])
    fix i t assume "P t"
    then show "P (e820_region phys kernel_end i t)"
      by (rule e820_region_rule) (rule region)
  qed (use init in simp_all)
  moreover have "P (fallback_frames 0x100000 ?s1)" if "e820_count phys = 0 \<or> 64 < e820_count phys"
    by (rule fallback_frames_rule [where P = P]) (use \<open>P ?s1\<close> that fallback in simp_all)
  ultimately have "P (if e820_count phys = 0 \<or> 64 < e820_count phys then fallback_frames 0x100000 ?s1 else ?s1)"
    by simp
  then show ?thesis
    unfolding pmm_init_def Let_def pmm_k_memset_fill using total by simp
qed

section \<open>The free counter\<close>

definition pmm_free :: "pmm \<Rightarrow> nat \<Rightarrow> bool" where
  "pmm_free s f \<longleftrightarrow> f < 8192 \<and> \<not> pmm_bitmap_test (pmm_bitmap s) f"

definition count_ok :: "pmm \<Rightarrow> bool" where
  "count_ok s \<longleftrightarrow> unat (free_frames s) = clear_bits pmm_bitmap_test 0 8192 (pmm_bitmap s)"

definition pmm_inv :: "pmm \<Rightarrow> bool" where
  "pmm_inv s \<longleftrightarrow> total_frames s = 8192 \<and> count_ok s"

lemma unat_Suc: "unat (x :: u32) < 0xFFFFFFFF \<Longrightarrow> unat (x + 1) = Suc (unat x)"
  by (subst unat_add_lem [THEN iffD1]) auto

lemma free_if_used_test:
  "pmm_bitmap_test (pmm_bitmap (free_if_used f s)) k \<longleftrightarrow> k \<noteq> f \<and> pmm_bitmap_test (pmm_bitmap s) k"
  by (auto simp: free_if_used_def pmm_test_clear)

lemma free_if_used_free: "f < 8192 \<Longrightarrow> pmm_free (free_if_used f s) k \<longleftrightarrow> k = f \<or> pmm_free s k"
  by (auto simp: pmm_free_def free_if_used_test)

lemma pmm_free_total [simp]: "pmm_free (t\<lparr>total_frames := n\<rparr>) f = pmm_free t f"
  by (simp add: pmm_free_def)

lemma free_if_used_count:
  assumes "f < 8192" "count_ok s"
  shows "count_ok (free_if_used f s)"
proof -
  have "unat (free_frames s) \<le> 8192"
    using assms(2) clear_bits_le [of pmm_bitmap_test 0 8192 "pmm_bitmap s"] by (simp add: count_ok_def)
  then show ?thesis
    using assms by (simp add: free_if_used_def count_ok_def frames.clear_bits_clear unat_Suc)
qed

lemma free_if_used_total [simp]: "total_frames (free_if_used f s) = total_frames s"
  by (simp add: free_if_used_def)

lemma all_set_count_ok:
  "count_ok (s\<lparr>pmm_bitmap := fill (pmm_bitmap s) 0 0xFF 1024, free_frames := 0\<rparr>)"
  using pmm_bitmap_all_set [of _ "pmm_bitmap s"]
  by (simp add: count_ok_def clear_bits_0_iff pmm_k_memset_fill)

lemma all_set_not_free:
  "\<not> pmm_free (s\<lparr>pmm_bitmap := fill (pmm_bitmap s) 0 0xFF 1024, free_frames := 0\<rparr>) f"
  using pmm_bitmap_all_set [of f "pmm_bitmap s"] by (simp add: pmm_free_def pmm_k_memset_fill)

section \<open>Correctness of the initialisation\<close>

lemma pmm_init_inv: "pmm_inv (pmm_init phys kernel_end s)"
proof (rule pmm_init_rule [where P = count_ok])
  show "count_ok (s\<lparr>pmm_bitmap := fill (pmm_bitmap s) 0 0xFF 1024, free_frames := 0\<rparr>)"
    by (rule all_set_count_ok)
  show "pmm_inv (t\<lparr>total_frames := 8192\<rparr>)" if "count_ok t" for t
    using that by (simp add: pmm_inv_def count_ok_def)
qed (auto intro: free_if_used_count)

lemma ramdisk_frame_iff:
  "512 \<le> unat (b :: u32) div 4096 \<and> unat b div 4096 < 768 \<longleftrightarrow> 0x200000 \<le> b \<and> b < 0x300000"
  by (simp add: word_le_nat_alt word_less_nat_alt) linarith


lemma fallback_frames_free:
  "a mod 4096 = 0 \<Longrightarrow> pmm_free (fallback_frames a s) f \<longleftrightarrow>
     pmm_free s f \<or> a div 4096 \<le> f \<and> f < 8192 \<and> \<not> (512 \<le> f \<and> f < 768)"
proof (induction a s rule: fallback_frames.induct)
  case (1 a s)
  show ?case
  proof (cases "a + 4096 \<le> 32 * 1024 * 1024")
    case True
    let ?t = "if 0x200000 \<le> a \<and> a < 0x300000 then s else free_if_used (a div 4096) s"
    have m: "(a + 4096) mod 4096 = 0" using "1.prems" by simp
    have r: "0x200000 \<le> a \<and> a < 0x300000 \<longleftrightarrow> 512 \<le> a div 4096 \<and> a div 4096 < 768"
      using "1.prems" by linarith
    have lt: "a div 4096 < 8192" using True by linarith
    have "fallback_frames a s = fallback_frames (a + 4096) ?t"
      using True by (subst fallback_frames.simps) simp
    moreover have "pmm_free (fallback_frames (a + 4096) ?t) f \<longleftrightarrow>
       pmm_free ?t f \<or> (a + 4096) div 4096 \<le> f \<and> f < 8192 \<and> \<not> (512 \<le> f \<and> f < 768)"
      using True "1.IH" m by (cases "0x200000 \<le> a \<and> a < 0x300000") auto
    moreover have "pmm_free ?t f \<longleftrightarrow> pmm_free s f \<or> (f = a div 4096 \<and> \<not> (512 \<le> f \<and> f < 768))"
      using r lt by (auto simp: free_if_used_free)
    ultimately show ?thesis using lt by auto
  next
    case False
    then have "33554432 < a + 4096" by simp
    moreover obtain k where "a = 4096 * k" using "1.prems" by auto
    ultimately have "\<not> (a div 4096 < 8192)" by simp
    with False show ?thesis by (subst fallback_frames.simps) auto
  qed
qed

lemma pmm_init_free_fallback:
  assumes "e820_count phys = 0"
  shows "pmm_free (pmm_init phys kernel_end s) f \<longleftrightarrow> 256 \<le> f \<and> f < 8192 \<and> \<not> (512 \<le> f \<and> f < 768)"
proof -
  let ?s0 = "s\<lparr>pmm_bitmap := fill (pmm_bitmap s) 0 0xFF 1024, free_frames := 0\<rparr>"
  have "pmm_free (pmm_init phys kernel_end s) f \<longleftrightarrow> pmm_free (fallback_frames 0x100000 ?s0) f"
    using assms by (simp add: pmm_init_def pmm_k_memset_fill pmm_free_def)
  then show ?thesis
    by (simp add: fallback_frames_free all_set_not_free)
qed

text \<open>When the boot code left no memory map (a count of zero), the free frames are exactly
  those from 1 MiB to 32 MiB outside the RAM disk, 7680 of them (30720 KiB).\<close>

theorem pmm_init_without_map:
  assumes "e820_count phys = 0"
  shows "(\<forall>f. pmm_free (pmm_init phys kernel_end s) f \<longleftrightarrow> 256 \<le> f \<and> f < 8192 \<and> \<not> (512 \<le> f \<and> f < 768))
     \<and> pmm_free_frames (pmm_init phys kernel_end s) = 7680"
proof -
  note free = pmm_init_free_fallback [OF assms]
  have "{i. 0 \<le> i \<and> i < 8192 \<and> \<not> pmm_bitmap_test (pmm_bitmap (pmm_init phys kernel_end s)) i}
      = {i. pmm_free (pmm_init phys kernel_end s) i}"
    by (simp add: pmm_free_def)
  also have "\<dots> = {256..<512} \<union> {768..<8192}"
    by (auto simp: free)
  finally have bits: "{i. 0 \<le> i \<and> i < 8192 \<and> \<not> pmm_bitmap_test (pmm_bitmap (pmm_init phys kernel_end s)) i}
      = {256..<512} \<union> {768..<8192}" .
  have "card ({256..<512} \<union> {768..<8192::nat}) = 7680"
    by (subst card_Un_disjoint) auto
  with bits have "clear_bits pmm_bitmap_test 0 8192 (pmm_bitmap (pmm_init phys kernel_end s)) = 7680"
    by (simp only: clear_bits_def)
  with pmm_init_inv have "unat (free_frames (pmm_init phys kernel_end s)) = unat (7680 :: u32)"
    by (simp add: pmm_inv_def count_ok_def)
  then have "pmm_free_frames (pmm_init phys kernel_end s) = 7680"
    by (simp only: pmm_free_frames_def word_unat_eq_iff)
  with free show ?thesis by simp
qed

theorem pmm_init_without_map_witness:
  "pmm_free_frames (pmm_init (\<lambda>_. 0) 0x1C000 \<lparr>pmm_bitmap = \<lambda>_. 0, total_frames = 0, free_frames = 0\<rparr>) = 7680"
  using pmm_init_without_map [of "\<lambda>_. 0" "0x1C000" "\<lparr>pmm_bitmap = \<lambda>_. 0, total_frames = 0, free_frames = 0\<rparr>"]
  by (simp add: e820_count_def rd16_def)

lemma free_stays: "pmm_free t f \<Longrightarrow> g < 8192 \<Longrightarrow> pmm_free (free_if_used g t) f"
  by (simp add: free_if_used_free)

lemma e820_region_keeps_free: "pmm_free s f \<Longrightarrow> pmm_free (e820_region phys kernel_end i s) f"
  by (rule e820_region_rule [where P = "\<lambda>t. pmm_free t f"]) (auto intro: free_stays)

lemma e820_region_frees_first:
  assumes "e_type (e820_map phys i) = 1"
    and "ucast (e_base (e820_map phys i)) < kernel_end"
    and "kernel_end + 4096 \<le> ucast (e_base (e820_map phys i)) + ucast (e_length (e820_map phys i))"
    and "unat kernel_end div 4096 < 8192"
    and "\<not> (0x200000 \<le> kernel_end \<and> kernel_end < 0x300000)"
  shows "pmm_free (e820_region phys kernel_end i s) (unat kernel_end div 4096)"
proof -
  let ?e = "ucast (e_base (e820_map phys i)) + ucast (e_length (e820_map phys i)) :: u32"
  let ?t = "free_if_used (unat kernel_end div 4096) s"
  have "e820_region phys kernel_end i s = e820_frames kernel_end ?e s"
    using assms by (simp add: e820_region_def Let_def)
  also have "\<dots> = e820_frames (kernel_end + 4096) ?e ?t"
    using assms by (subst e820_frames.simps) auto
  finally have "e820_region phys kernel_end i s = e820_frames (kernel_end + 4096) ?e ?t" .
  moreover have "pmm_free (e820_frames (kernel_end + 4096) ?e ?t) (unat kernel_end div 4096)"
    by (rule e820_frames_rule) (use assms(4) in \<open>simp_all add: free_if_used_free free_stays\<close>)
  ultimately show ?thesis by simp
qed

text \<open>A usable region that reaches past an unaligned kernel end makes the frame that holds
  the kernel's last bytes free: the frame number is rounded down from the kernel's end.\<close>

theorem pmm_init_frees_kernel_tail:
  assumes "i < e820_count phys" "e_type (e820_map phys i) = 1"
    and "ucast (e_base (e820_map phys i)) < kernel_end"
    and "kernel_end + 4096 \<le> ucast (e_base (e820_map phys i)) + ucast (e_length (e820_map phys i))"
    and "unat kernel_end < 0x200000" "unat kernel_end mod 4096 \<noteq> 0"
  shows "\<exists>f. pmm_free (pmm_init phys kernel_end s) f \<and> 4096 * f < unat kernel_end"
proof (intro exI conjI)
  let ?f = "unat kernel_end div 4096"
  let ?s0 = "s\<lparr>pmm_bitmap := fill (pmm_bitmap s) 0 0xFF 1024, free_frames := 0\<rparr>"
  let ?s1 = "for_do (e820_region phys kernel_end) 0 (e820_count phys) ?s0"
  have "?f < 8192" using assms(5) by linarith
  then have "pmm_free ?s1 ?f"
    using assms by (intro for_do_establish [where i = i and P = "\<lambda>t. pmm_free t ?f"]
        e820_region_frees_first e820_region_keeps_free) (auto simp: word_le_nat_alt)
  moreover have "pmm_free (fallback_frames 0x100000 ?s1) ?f" if "pmm_free ?s1 ?f"
    using that by (simp add: fallback_frames_free)
  ultimately show "pmm_free (pmm_init phys kernel_end s) ?f"
    by (simp add: pmm_init_def pmm_k_memset_fill Let_def)
  show "4096 * ?f < unat kernel_end"
    using assms(6) by (metis add.right_neutral less_add_eq_less linorder_neqE_nat mult.commute
        div_mult_mod_eq less_add_same_cancel1 not_less_zero)
qed

definition sample_map :: memory where
  "sample_map = wr32 (wr32 (wr16 (\<lambda>_. 0) 0x8000 1) (0x8004 + 8) 0x9FC00) (0x8004 + 16) 1"

lemma sample_map_entry:
  "e820_count sample_map = 1"
  "e820_map sample_map 0 = \<lparr>e_base = 0, e_length = 0x9FC00, e_type = 1, e_acpi_ext = 0\<rparr>"
  by (simp_all add: e820_count_def e820_map_def sample_map_def mem_simps rd64_def)

theorem pmm_init_frees_kernel_tail_witness:
  "\<exists>f. pmm_free (pmm_init sample_map 0x1C234 \<lparr>pmm_bitmap = \<lambda>_. 0, total_frames = 0, free_frames = 0\<rparr>) f
     \<and> 4096 * f < unat (0x1C234 :: u32)"
  by (rule pmm_init_frees_kernel_tail [of 0]) (simp_all add: sample_map_entry)

section \<open>Correctness of allocation\<close>

lemma pmm_alloc_cases:
  assumes "pmm_inv s"
  obtains (oom) "pmm_alloc_frame s = (0, s)" "\<And>f. \<not> pmm_free s f"
  | (frame) f where "find_clear pmm_bitmap_test 0 8192 (pmm_bitmap s) = Some f"
      "pmm_alloc_frame s = (of_nat f * 4096,
         s\<lparr>pmm_bitmap := pmm_bitmap_set (pmm_bitmap s) f, free_frames := free_frames s - 1\<rparr>)"
      "pmm_free s f" "\<And>g. pmm_free s g \<Longrightarrow> f \<le> g"
proof (cases "find_clear pmm_bitmap_test 0 8192 (pmm_bitmap s)")
  case None
  then have "pmm_alloc_frame s = (0, s)"
    using assms by (simp add: pmm_alloc_frame_def pmm_inv_def find_clear_def)
  moreover from None have "\<And>f. \<not> pmm_free s f"
    by (simp add: frames.find_clear_None clear_bits_0_iff pmm_free_def)
  ultimately show ?thesis by (rule oom)
next
  case (Some f)
  then have "pmm_free s f" "\<And>g. pmm_free s g \<Longrightarrow> f \<le> g"
    by (auto simp: pmm_free_def dest: frames.find_clear_range)
      (metis frames.find_clear_lowest not_le_imp_less zero_le)
  moreover have "pmm_alloc_frame s = (of_nat f * 4096,
      s\<lparr>pmm_bitmap := pmm_bitmap_set (pmm_bitmap s) f, free_frames := free_frames s - 1\<rparr>)"
    using assms Some by (simp add: pmm_alloc_frame_def pmm_inv_def find_clear_def)
  ultimately show ?thesis using Some by (intro frame)
qed

lemma unat_frame_address: "f < 8192 \<Longrightarrow> unat (of_nat f * 4096 :: u32) = 4096 * f"
  by (simp add: unat_word_ariths unat_of_nat)

lemma unat_pred: "unat (x :: u32) \<noteq> 0 \<Longrightarrow> unat (x - 1) = unat x - 1"
  by (metis unat_eq_zero unat_minus_one)

lemma pmm_take_inv:
  assumes "pmm_inv s" "find_clear pmm_bitmap_test 0 8192 (pmm_bitmap s) = Some f"
  shows "pmm_inv (s\<lparr>pmm_bitmap := pmm_bitmap_set (pmm_bitmap s) f, free_frames := free_frames s - 1\<rparr>)"
proof -
  have "Suc (clear_bits pmm_bitmap_test 0 8192 (pmm_bitmap_set (pmm_bitmap s) f)) = unat (free_frames s)"
    using assms frames.take_count by (simp add: pmm_inv_def count_ok_def)
  then show ?thesis
    using assms(1) unat_pred [of "free_frames s"] by (simp add: pmm_inv_def count_ok_def)
qed

text \<open>Allocation returns the lowest free frame's address, makes exactly that frame used and
  keeps the counter exact; it returns 0 and changes nothing exactly when no frame is free.\<close>

theorem pmm_alloc_frame_correct:
  assumes "pmm_inv s"
  shows "(\<forall>f. \<not> pmm_free s f) \<and> pmm_alloc_frame s = (0, s) \<or>
     (\<exists>f s'. pmm_alloc_frame s = (of_nat f * 4096, s') \<and> unat (of_nat f * 4096 :: u32) = 4096 * f
        \<and> pmm_free s f \<and> (\<forall>g. pmm_free s g \<longrightarrow> f \<le> g)
        \<and> (\<forall>g. pmm_free s' g \<longleftrightarrow> pmm_free s g \<and> g \<noteq> f)
        \<and> pmm_inv s' \<and> pmm_free_frames s' = pmm_free_frames s - 1)"
  using assms
proof (cases rule: pmm_alloc_cases)
  case oom
  then show ?thesis by blast
next
  case (frame f)
  then show ?thesis
    using pmm_take_inv [OF assms frame(1)] unat_frame_address [of f]
    by (intro disjI2 exI [of _ f] exI) (auto simp: pmm_free_def pmm_test_set pmm_free_frames_def)
qed

definition small_pmm :: pmm where
  "small_pmm = pmm_init (\<lambda>_. 0) 0x1C234 \<lparr>pmm_bitmap = \<lambda>_. 0, total_frames = 0, free_frames = 0\<rparr>"

lemma small_pmm_inv: "pmm_inv small_pmm"
  unfolding small_pmm_def by (rule pmm_init_inv)

lemma small_pmm_free: "pmm_free small_pmm f \<longleftrightarrow> 256 \<le> f \<and> f < 8192 \<and> \<not> (512 \<le> f \<and> f < 768)"
  unfolding small_pmm_def
  by (rule pmm_init_free_fallback) (simp add: e820_count_def rd16_def)

lemma small_pmm_first: "fst (pmm_alloc_frame small_pmm) = 0x100000"
  using small_pmm_inv
proof (cases rule: pmm_alloc_cases)
  case oom
  then show ?thesis using small_pmm_free [of 256] by simp
next
  case (frame f)
  have "f \<le> 256" by (rule frame(4)) (simp add: small_pmm_free)
  with frame(3) have "f = 256" by (simp add: small_pmm_free)
  with frame(2) show ?thesis by simp
qed

theorem pmm_alloc_frame_correct_witness: "fst (pmm_alloc_frame small_pmm) = 0x100000"
proof -
  have "\<exists>f. pmm_free small_pmm f" using small_pmm_free [of 256] by auto
  then obtain f where f: "fst (pmm_alloc_frame small_pmm) = of_nat f * 4096"
      "pmm_free small_pmm f" "\<And>g. pmm_free small_pmm g \<Longrightarrow> f \<le> g"
    using pmm_alloc_frame_correct [OF small_pmm_inv] by auto
  have "f \<le> 256" by (rule f(3)) (simp add: small_pmm_free)
  with f(2) have "f = 256" by (simp add: small_pmm_free)
  with f(1) show ?thesis by simp
qed

text \<open>Freeing the frame that was just allocated restores the allocator's whole state.\<close>

theorem pmm_free_alloc_roundtrip:
  assumes "pmm_inv s" "pmm_alloc_frame s = (addr, s')" "addr \<noteq> 0"
  shows "pmm_free_frame addr s' = s"
  using assms(1)
proof (cases rule: pmm_alloc_cases)
  case oom
  with assms show ?thesis by simp
next
  case (frame f)
  then have "f < 8192" by (simp add: pmm_free_def)
  have addr: "addr = of_nat f * 4096"
    and s': "s' = s\<lparr>pmm_bitmap := pmm_bitmap_set (pmm_bitmap s) f, free_frames := free_frames s - 1\<rparr>"
    using frame(2) assms(2) by simp_all
  have "unat (addr div 4096) = f"
    using unat_frame_address [OF \<open>f < 8192\<close>] by (simp add: addr unat_div)
  moreover have "unat (total_frames s) = 8192"
    using assms(1) by (simp add: pmm_inv_def)
  ultimately show ?thesis
    using \<open>f < 8192\<close> frames.take_give_back [OF frame(1)]
    by (simp add: s' pmm_free_frame_def free_if_used_def pmm_test_set)
qed

theorem pmm_free_alloc_roundtrip_witness:
  "pmm_free_frame (fst (pmm_alloc_frame small_pmm)) (snd (pmm_alloc_frame small_pmm)) = small_pmm"
  by (rule pmm_free_alloc_roundtrip [OF small_pmm_inv prod.collapse [symmetric]])
    (simp add: small_pmm_first)


section \<open>A client that frees only what it holds\<close>










section \<open>Exactly which frames are free at the start\<close>

text \<open>The frames the loop over one usable region frees: the loop's addresses keep the offset of the first
  one, and the region's end is computed in 32 bits.\<close>

definition region_frees :: "memory \<Rightarrow> u32 \<Rightarrow> nat \<Rightarrow> nat \<Rightarrow> bool" where
  "region_frees phys kernel_end i f \<longleftrightarrow>
     (let start = ucast (e_base (e820_map phys i)); first = unat (max start kernel_end)
      in e_type (e820_map phys i) = 1 \<and> first div 4096 \<le> f
       \<and> 4096 * (f + 1) + first mod 4096 \<le> unat (start + ucast (e_length (e820_map phys i))))"

lemma not_covered: "(e :: nat) < 4096 * d + r + 4096 \<Longrightarrow> d \<le> f \<Longrightarrow> \<not> 4096 * (f + 1) + r \<le> e"
  by simp

lemma e820_frames_free:
  "pmm_free (e820_frames a e s) f \<longleftrightarrow>
     pmm_free s f \<or> unat a div 4096 \<le> f \<and> f < 8192 \<and> 4096 * (f + 1) + unat a mod 4096 \<le> unat e \<and> \<not> (512 \<le> f \<and> f < 768)"
proof (induction a e s rule: e820_frames.induct)
  case (1 a e s)
  have dm: "4096 * (unat a div 4096) + unat a mod 4096 = unat a" by simp
  show ?case
  proof (cases "unat a div 4096 < 8192")
    case lt: True
    then have a': "unat (a + 4096) = unat a + 4096" by (rule unat_add_frame)
    show ?thesis
    proof (cases "a + 4096 \<le> e")
      case True
      let ?t = "if 0x200000 \<le> a \<and> a < 0x300000 then s else free_if_used (unat a div 4096) s"
      have "e820_frames a e s = e820_frames (a + 4096) e ?t"
        using True lt by (subst e820_frames.simps) simp
      moreover have "pmm_free (e820_frames (a + 4096) e ?t) f \<longleftrightarrow> pmm_free ?t f \<or> unat a div 4096 + 1 \<le> f \<and> f < 8192
          \<and> 4096 * (f + 1) + unat a mod 4096 \<le> unat e \<and> \<not> (512 \<le> f \<and> f < 768)"
        using True lt "1.IH" by (cases "0x200000 \<le> a \<and> a < 0x300000") (auto simp: a')
      moreover have "pmm_free ?t f \<longleftrightarrow> pmm_free s f \<or> (f = unat a div 4096 \<and> \<not> (512 \<le> f \<and> f < 768))"
        using ramdisk_frame_iff [of a] lt by (auto simp: free_if_used_free)
      moreover have "4096 * (unat a div 4096 + 1) + unat a mod 4096 \<le> unat e"
        using True dm by (simp add: word_le_nat_alt a')
      ultimately show ?thesis using lt by (auto simp: le_less Suc_le_eq)
    next
      case False
      then have "unat e < 4096 * (unat a div 4096) + unat a mod 4096 + 4096"
        by (simp add: word_le_nat_alt a')
      then have "\<not> 4096 * (f + 1) + unat a mod 4096 \<le> unat e" if "unat a div 4096 \<le> f"
        using not_covered [OF _ that] by simp
      with False show ?thesis by (subst e820_frames.simps) auto
    qed
  next
    case False
    then show ?thesis by (subst e820_frames.simps) auto
  qed
qed

lemma e820_region_free:
  "pmm_free (e820_region phys kernel_end i s) f \<longleftrightarrow>
     pmm_free s f \<or> region_frees phys kernel_end i f \<and> f < 8192 \<and> \<not> (512 \<le> f \<and> f < 768)"
  by (auto simp: e820_region_def region_frees_def Let_def e820_frames_free max_def)

lemma e820_regions_free:
  "pmm_free (for_do (e820_region phys kernel_end) 0 n s) f \<longleftrightarrow>
     pmm_free s f \<or> (\<exists>i < n. region_frees phys kernel_end i f) \<and> f < 8192 \<and> \<not> (512 \<le> f \<and> f < 768)"
  by (rule for_do_invariant [where P = "\<lambda>i t. pmm_free t f \<longleftrightarrow>
      pmm_free s f \<or> (\<exists>j < i. region_frees phys kernel_end j f) \<and> f < 8192 \<and> \<not> (512 \<le> f \<and> f < 768)"])
    (auto simp: e820_region_free less_Suc_eq)

text \<open>C15. After initialisation a frame is free exactly when it lies in the 32 MiB, not in the RAM disk, and is
  either stepped over inside some usable region from the end of the kernel on (as the memory map's 32-bit
  addresses give it), or, when the map's count is 0 or above 64, lies above the first megabyte; and the
  counter of free frames is their number.\<close>

theorem pmm_init_exact:
  "(\<forall>f. pmm_free (pmm_init phys kernel_end s) f \<longleftrightarrow> f < 8192 \<and> \<not> (512 \<le> f \<and> f < 768)
       \<and> ((\<exists>i < e820_count phys. region_frees phys kernel_end i f)
         \<or> (e820_count phys = 0 \<or> 64 < e820_count phys) \<and> 256 \<le> f))
   \<and> unat (pmm_free_frames (pmm_init phys kernel_end s)) = card {f. pmm_free (pmm_init phys kernel_end s) f}"
proof -
  let ?s0 = "s\<lparr>pmm_bitmap := fill (pmm_bitmap s) 0 0xFF 1024, free_frames := 0\<rparr>"
  let ?s1 = "for_do (e820_region phys kernel_end) 0 (e820_count phys) ?s0"
  have "pmm_free (pmm_init phys kernel_end s) f \<longleftrightarrow>
      pmm_free (if e820_count phys = 0 \<or> 64 < e820_count phys then fallback_frames 0x100000 ?s1 else ?s1) f" for f
    unfolding pmm_init_def Let_def pmm_k_memset_fill by simp
  then have "pmm_free (pmm_init phys kernel_end s) f \<longleftrightarrow> f < 8192 \<and> \<not> (512 \<le> f \<and> f < 768)
       \<and> ((\<exists>i < e820_count phys. region_frees phys kernel_end i f)
         \<or> (e820_count phys = 0 \<or> 64 < e820_count phys) \<and> 256 \<le> f)" for f
    by (auto simp: fallback_frames_free e820_regions_free all_set_not_free)
  moreover have "unat (pmm_free_frames (pmm_init phys kernel_end s)) = card {f. pmm_free (pmm_init phys kernel_end s) f}"
    using pmm_init_inv [of phys kernel_end s]
    by (simp add: pmm_inv_def count_ok_def pmm_free_frames_def clear_bits_def pmm_free_def)
  ultimately show ?thesis by blast
qed

text \<open>The boot stack ends at \<^verbatim>\<open>0x90000\<close>; with the usual map its frames are free.\<close>

theorem pmm_init_exact_witness:
  "pmm_free (pmm_init sample_map 0x1C234 \<lparr>pmm_bitmap = \<lambda>_. 0, total_frames = 0, free_frames = 0\<rparr>) 0x8F"
proof -
  have "region_frees sample_map 0x1C234 0 0x8F"
    by (simp add: region_frees_def sample_map_entry Let_def max_def)
  with pmm_init_exact [of sample_map "0x1C234" "\<lparr>pmm_bitmap = \<lambda>_. 0, total_frames = 0, free_frames = 0\<rparr>"]
  show ?thesis by (auto simp: sample_map_entry)
qed

end
