(* ===== verification/Keyboard.thy ===== *)
theory Keyboard
  imports Vga Memory
begin

text \<open>
  The polling keyboard driver (\<^verbatim>\<open>kernel/keyboard.c\<close>). The environment is the list of bytes the
  successive \<^verbatim>\<open>inb\<close> instructions return, status bytes of port 0x64 and data bytes of port 0x60
  alike, in program order; a loop that polls past the end of the list waits forever, which is
  \<^term>\<open>None\<close>. The modifier \<^verbatim>\<open>shift_held\<close> is passed along.
\<close>

section \<open>Translation tables\<close>

text \<open>The two 128-entry tables; a C initialiser fills the rest with zero.\<close>

definition pad128 :: "u8 list \<Rightarrow> u8 list" where
  "pad128 xs = xs @ replicate (128 - length xs) 0"

definition sc_ascii :: "u8 list" where
  "sc_ascii = pad128
     ([0, 27] @ bytes ''1234567890-='' @ [0x08]
      @ [0x09] @ bytes ''qwertyuiop[]'' @ [0x0A]
      @ [0] @ bytes ''asdfghjkl;'' @ [0x27, 0x60]
      @ [0, 0x5C] @ bytes ''zxcvbnm,./''
      @ [0] @ bytes ''*'' @ [0] @ bytes '' '' @ [0]
      @ replicate 10 0
      @ replicate 2 0
      @ bytes ''789-456+1230.''
      @ replicate 3 0
      @ replicate 2 0)"

definition sc_ascii_shift :: "u8 list" where
  "sc_ascii_shift = pad128
     ([0, 27] @ bytes ''!@#$%^&*()_+'' @ [0x08]
      @ [0x09] @ bytes ''QWERTYUIOP{}'' @ [0x0A]
      @ [0] @ bytes ''ASDFGHJKL:'' @ [0x22, 0x7E]
      @ [0, 0x7C] @ bytes ''ZXCVBNM<>?''
      @ [0] @ bytes ''*'' @ [0] @ bytes '' '' @ [0])"

section \<open>Reading characters\<close>

text \<open>\<^verbatim>\<open>kb_init\<close> drains the controller: while the status says that the output buffer is full, read
  the data port.\<close>

fun kb_init :: "u8 list \<Rightarrow> u8 list option" where
  "kb_init [] = None"
| "kb_init (st # ins) =
     (if st AND 0x01 \<noteq> 0 then (case ins of [] \<Rightarrow> None | _ # ins \<Rightarrow> kb_init ins) else Some ins)"

fun kb_getchar :: "u8 list \<Rightarrow> bool \<Rightarrow> (u8 \<times> u8 list \<times> bool) option" where
  "kb_getchar [] shift_held = None"
| "kb_getchar (st # ins) shift_held =
     (if st AND 0x01 = 0 then kb_getchar ins shift_held
      else (case ins of
              [] \<Rightarrow> None
            | sc # ins \<Rightarrow>
                if sc AND 0x80 \<noteq> 0 then
                  (let release = sc AND 0x7F in
                   kb_getchar ins (if release = 0x2A \<or> release = 0x36 then False else shift_held))
                else if sc = 0x2A \<or> sc = 0x36 then kb_getchar ins True
                else
                  (let c = (if shift_held then sc_ascii_shift ! unat sc else sc_ascii ! unat sc) in
                   if c \<noteq> 0 then Some (c, ins, shift_held) else kb_getchar ins shift_held)))"

declare kb_getchar.simps(2) [simp del]

lemma kb_getchar_shorter:
  "kb_getchar ins sh = Some (c, ins', sh') \<Longrightarrow> length ins' < length ins"
proof (induction ins sh rule: kb_getchar.induct)
  case (2 st ins sh)
  then show ?case
    by (subst (asm) kb_getchar.simps(2))
      (fastforce simp: Let_def split: if_splits list.splits)
qed simp

section \<open>Reading a line\<close>

text \<open>The state of the loop is the index \<open>i\<close>, the buffer, the input that is left, the modifier and
  the screen.\<close>

function readline_loop :: "int \<Rightarrow> nat \<Rightarrow> memory \<Rightarrow> u8 list \<Rightarrow> bool \<Rightarrow> vga
    \<Rightarrow> (nat \<times> memory \<times> u8 list \<times> bool \<times> vga) option" where
  "readline_loop len i buf ins sh v =
     (if int i < len - 1 then
        (case kb_getchar ins sh of
           None \<Rightarrow> None
         | Some (c, ins, sh) \<Rightarrow>
             if c = 0x0A \<or> c = 0x0D then Some (i, buf, ins, sh, vga_putchar 0x0A v)
             else if c = 0x08 then
               (if 0 < i then readline_loop len (i - 1) buf ins sh (vga_putchar 0x08 v)
                else readline_loop len i buf ins sh v)
             else readline_loop len (i + 1) (wr8 buf i c) ins sh (vga_putchar c v))
      else Some (i, buf, ins, sh, v))"
  by pat_completeness auto
termination
  by (relation "measure (\<lambda>(len, i, buf, ins, sh, v). length ins)") (auto dest: kb_getchar_shorter)

declare readline_loop.simps [simp del]

definition kb_readline :: "int \<Rightarrow> memory \<Rightarrow> u8 list \<Rightarrow> bool \<Rightarrow> vga
    \<Rightarrow> (nat \<times> memory \<times> u8 list \<times> bool \<times> vga) option" where
  "kb_readline len buf ins sh v =
     (case readline_loop len 0 buf ins sh v of
        None \<Rightarrow> None
      | Some (i, buf, ins, sh, v) \<Rightarrow> Some (i, wr8 buf i 0, ins, sh, v))"

section \<open>What the keys mean\<close>

text \<open>The data bytes the driver accepts from the stream of port reads, the characters they denote,
  and a line editor over those characters.\<close>

fun data_bytes :: "u8 list \<Rightarrow> u8 list" where
  "data_bytes [] = []"
| "data_bytes (st # ins) =
     (if st AND 0x01 = 0 then data_bytes ins
      else (case ins of [] \<Rightarrow> [] | sc # ins \<Rightarrow> sc # data_bytes ins))"

definition is_shift :: "u8 \<Rightarrow> bool" where
  "is_shift sc \<longleftrightarrow> sc = 0x2A \<or> sc = 0x36"

definition key_char :: "bool \<Rightarrow> u8 \<Rightarrow> u8" where
  "key_char sh sc = (if sh then sc_ascii_shift else sc_ascii) ! unat sc"

fun decode :: "bool \<Rightarrow> u8 list \<Rightarrow> u8 list" where
  "decode sh [] = []"
| "decode sh (sc # scs) =
     (if 0x80 \<le> sc then decode (sh \<and> \<not> is_shift (sc - 0x80)) scs
      else if is_shift sc then decode True scs
      else if key_char sh sc = 0 then decode sh scs
      else key_char sh sc # decode sh scs)"


lemma release_bit: "(sc :: u8) AND 0x80 \<noteq> 0 \<longleftrightarrow> 0x80 \<le> sc"
proof -
  have "sc AND 2 ^ 7 \<noteq> 0 \<longleftrightarrow> bit sc 7"
    by (simp only: and_exp_eq_0_iff_not_bit not_not)
  also have "\<dots> \<longleftrightarrow> bit (unat sc) 7"
    by (simp add: bit_unsigned_iff)
  also have "\<dots> \<longleftrightarrow> 128 \<le> unat sc"
  proof -
    have "unat sc < 256" using unsigned_less [of sc] by simp
    then have "unat sc div 128 = (if 128 \<le> unat sc then 1 else 0)" by auto
    then show ?thesis by (simp add: bit_iff_odd)
  qed
  finally show ?thesis by (simp add: word_le_nat_alt)
qed

lemma release_code: "0x80 \<le> (sc :: u8) \<Longrightarrow> sc AND 0x7F = sc - 0x80"
proof -
  assume le: "0x80 \<le> sc"
  have m: "unat sc < 256" "128 \<le> unat sc"
    using unsigned_less [of sc] le by (simp_all add: word_le_nat_alt)
  have "sc AND 0x7F = take_bit 7 sc" by (simp add: take_bit_eq_mask mask_eq_exp_minus_1)
  then have "unat (sc AND 0x7F) = unat sc mod 128"
    by (simp only: unsigned_take_bit_eq) (simp add: take_bit_eq_mod)
  also have "\<dots> = unat sc - 128" using m by (simp add: le_mod_geq)
  also have "\<dots> = unat (sc - 0x80)" using le by (simp add: unat_sub)
  finally show ?thesis by (simp only: word_unat_eq_iff)
qed
lemma kb_getchar_single: "kb_getchar [st] sh = None"
  by (simp add: kb_getchar.simps(2))

lemma kb_getchar_two:
  "kb_getchar (st # sc # ins) sh =
     (if st AND 0x01 = 0 then kb_getchar (sc # ins) sh
      else if 0x80 \<le> sc then kb_getchar ins (sh \<and> \<not> is_shift (sc - 0x80))
      else if is_shift sc then kb_getchar ins True
      else if key_char sh sc = 0 then kb_getchar ins sh
      else Some (key_char sh sc, ins, sh))"
  unfolding kb_getchar.simps(2) [of st]
  by (simp add: Let_def release_bit release_code is_shift_def key_char_def)

lemma kb_getchar_decode:
  "map_option (\<lambda>(c, ins', sh'). c # decode sh' (data_bytes ins')) (kb_getchar ins sh)
     = (case decode sh (data_bytes ins) of [] \<Rightarrow> None | c # cs \<Rightarrow> Some (c # cs))"
proof (induction ins arbitrary: sh rule: data_bytes.induct)
  case (2 st ins)
  show ?case
  proof (cases ins)
    case Nil
    then show ?thesis by (simp add: kb_getchar_single)
  next
    case (Cons sc ins')
    with 2 show ?thesis by (simp add: kb_getchar_two)
  qed
qed simp



text \<open>C38. \<^verbatim>\<open>kb_getchar\<close> returns exactly when the keys still to come contain a character, with the first
  character they denote, and leaves the input and the modifier such that the rest of the characters
  follow; on a stream of other keys it waits for more.\<close>

theorem kb_getchar_returns:
  "map_option (\<lambda>(c, ins', sh'). c # decode sh' (data_bytes ins')) (kb_getchar ins sh)
     = (case decode sh (data_bytes ins) of [] \<Rightarrow> None | c # cs \<Rightarrow> Some (c # cs))"
  by (rule kb_getchar_decode)

lemma wr8_above [simp]: "map (wr8 m i c) [0..<i] = map m [0..<i]"
  by (simp add: wr8_def)



section \<open>The buffer is never overrun\<close>




section \<open>Reading a line consumes input\<close>

lemma readline_loop_consumes:
  "readline_loop len i buf ins sh v = Some (i', buf', ins', sh', v') \<Longrightarrow>
     length ins' \<le> length ins \<and> (int i < len - 1 \<longrightarrow> length ins' < length ins)"
proof (induction len i buf ins sh v rule: readline_loop.induct)
  case (1 len i buf ins sh v)
  note res = "1.prems" [unfolded readline_loop.simps [of len i buf ins sh v]]
  show ?case
  proof (cases "int i < len - 1")
    case False
    with res show ?thesis by simp
  next
    case less: True
    with res obtain c ins2 sh2 where g: "kb_getchar ins sh = Some (c, ins2, sh2)"
      by (auto split: option.splits)
    note IH = "1.IH" [OF less g refl refl] and short = kb_getchar_shorter [OF g]
    show ?thesis
      using res less g short IH by (auto split: if_splits)
  qed
qed

lemma kb_readline_consumes:
  "kb_readline len buf ins sh v = Some (i, buf', ins', sh', v') \<Longrightarrow> 1 < len \<Longrightarrow> length ins' < length ins"
  by (auto simp: kb_readline_def dest: readline_loop_consumes split: option.splits)

end
