(* ===== verification/ShellText.thy ===== *)
theory ShellText
  imports Vga
begin

text \<open>
  The string functions of \<^verbatim>\<open>kernel/kernel.c\<close> and its commands that only print. The source is UTF-8,
  and the compiler stores the bytes of its two non-ASCII characters as they are.
\<close>

section \<open>Strings\<close>

fun sh_strcmp :: "cstr \<Rightarrow> cstr \<Rightarrow> int" where
  "sh_strcmp [] b = 0 - uint (c_at b 0)"
| "sh_strcmp (x # a) b =
     (if x \<noteq> 0 \<and> x = c_at b 0 then sh_strcmp a (tl b) else uint x - uint (c_at b 0))"

text \<open>\<^verbatim>\<open>n--\<close> is evaluated before the other tests and wraps below zero, which the result tests for.\<close>

function sh_strncmp :: "cstr \<Rightarrow> cstr \<Rightarrow> u32 \<Rightarrow> int" where
  "sh_strncmp a b n =
     (let n' = n - 1 in
      if n \<noteq> 0 \<and> c_at a 0 \<noteq> 0 \<and> c_at a 0 = c_at b 0 then sh_strncmp (tl a) (tl b) n'
      else if n' = -1 then 0 else uint (c_at a 0) - uint (c_at b 0))"
  by pat_completeness auto
termination
  by (relation "measure (\<lambda>(a, b, n). length a)") (auto simp: c_at_def split: if_splits)

declare sh_strncmp.simps [simp del]

fun sh_strlen :: "cstr \<Rightarrow> u32" where
  "sh_strlen [] = 0"
| "sh_strlen (c # s) = (if c \<noteq> 0 then sh_strlen s + 1 else 0)"

fun sh_ltrim :: "cstr \<Rightarrow> cstr" where
  "sh_ltrim [] = []"
| "sh_ltrim (c # s) = (if c = 0x20 then sh_ltrim s else c # s)"

section \<open>Commands that print\<close>

definition EN_DASH :: "u8 list" where "EN_DASH = [0xE2, 0x80, 0x93]"
definition BOX_LINE :: "u8 list" where "BOX_LINE = [0xE2, 0x94, 0x80]"

definition print_splash :: "vga \<Rightarrow> vga" where
  "print_splash v =
     (let v = vga_clear VGA_BLACK v;
          v = vga_draw_box 0 0 7 80 VGA_LIGHT_MAGENTA v;
          v = vga_set_cursor 1 2 v;
          v = vga_puts_color (Some (bytes ''  SENG21213-OS  |  Computer Architecture & Operating Systems'')) VGA_YELLOW VGA_BLACK v;
          v = vga_set_cursor 2 2 v;
          v = vga_puts_color (Some (bytes ''  Stage 0: Kernel Foundations'')) VGA_LIGHT_CYAN VGA_BLACK v;
          v = vga_set_cursor 3 2 v;
          v = vga_puts_color (Some (bytes ''  Faculty of Engineering '' @ EN_DASH @ bytes '' Department of Software Engineering'')) VGA_LIGHT_GREY VGA_BLACK v;
          v = vga_set_cursor 4 2 v;
          v = vga_puts_color (Some (bytes ''  Built by students, for students.  Type '' @ [0x27] @ bytes ''help'' @ [0x27] @ bytes '' to begin.'')) VGA_LIGHT_GREEN VGA_BLACK v;
          v = vga_set_cursor 5 2 v;
          v = vga_puts_color (Some (bytes ''  CPU: i686 (32-bit Protected Mode)  |  Display: VGA 80x25'')) VGA_DARK_GREY VGA_BLACK v;
          v = vga_set_cursor 8 0 v;
          v = vga_set_color VGA_LIGHT_GREY VGA_BLACK v;
          v = vga_puts (Some (bytes ''  Welcome! This kernel was compiled from source and booted entirely'' @ [0x0A])) v;
          v = vga_puts (Some (bytes ''  from bare metal. There is no Linux or Windows underneath '' @ EN_DASH @ bytes '' only'' @ [0x0A])) v;
          v = vga_puts (Some (bytes ''  the code you and your team write.'' @ [0x0A])) v;
          v = vga_puts (Some ([0x0A])) v;
          v = vga_puts (Some (bytes ''  Assignment milestones to implement:'' @ [0x0A])) v;
          v = vga_puts_color (Some (bytes ''    [L09] '')) VGA_YELLOW VGA_BLACK v;
          v = vga_puts (Some (bytes ''Process Management  '' @ EN_DASH @ bytes '' PCB, ready queue, round-robin scheduler'' @ [0x0A])) v;
          v = vga_puts_color (Some (bytes ''    [L10] '')) VGA_YELLOW VGA_BLACK v;
          v = vga_puts (Some (bytes ''Threads & Sync      '' @ EN_DASH @ bytes '' kernel threads, mutex, semaphore'' @ [0x0A])) v;
          v = vga_puts_color (Some (bytes ''    [L11] '')) VGA_YELLOW VGA_BLACK v;
          v = vga_puts (Some (bytes ''Memory Management   '' @ EN_DASH @ bytes '' physical page allocator, virtual memory'' @ [0x0A])) v;
          v = vga_puts_color (Some (bytes ''    [L12] '')) VGA_YELLOW VGA_BLACK v;
          v = vga_puts (Some (bytes ''File System         '' @ EN_DASH @ bytes '' RAM disk, FAT-like directory structure'' @ [0x0A])) v
      in vga_puts (Some ([0x0A])) v)"

definition cmd_help :: "vga \<Rightarrow> vga" where
  "cmd_help v =
     (let v = vga_puts_color (Some ([0x0A] @ bytes ''  SENG21213-OS Shell Commands'' @ [0x0A])) VGA_YELLOW VGA_BLACK v;
          v = vga_puts (Some (bytes ''  '' @ concat (replicate 45 BOX_LINE) @ [0x0A])) v;
          v = vga_puts (Some (bytes ''  help    '' @ EN_DASH @ bytes '' Show this help message'' @ [0x0A])) v;
          v = vga_puts (Some (bytes ''  clear   '' @ EN_DASH @ bytes '' Clear the screen'' @ [0x0A])) v;
          v = vga_puts (Some (bytes ''  about   '' @ EN_DASH @ bytes '' About this OS and course'' @ [0x0A])) v;
          v = vga_puts (Some (bytes ''  echo    '' @ EN_DASH @ bytes '' Echo text to screen'' @ [0x0A])) v;
          v = vga_puts (Some (bytes ''  mem     '' @ EN_DASH @ bytes '' Memory map (stub)'' @ [0x0A])) v;
          v = vga_puts_color (Some ([0x0A] @ bytes ''  Milestones (to implement):'' @ [0x0A])) VGA_LIGHT_CYAN VGA_BLACK v;
          v = vga_puts (Some (bytes ''  ps      '' @ EN_DASH @ bytes '' [L09] List processes'' @ [0x0A])) v;
          v = vga_puts (Some (bytes ''  kill    '' @ EN_DASH @ bytes '' [L09] Terminate a process'' @ [0x0A])) v;
          v = vga_puts (Some (bytes ''  race    '' @ EN_DASH @ bytes '' [L10] Unsynchronised myglobal++ race demo'' @ [0x0A])) v;
          v = vga_puts (Some (bytes ''  racem   '' @ EN_DASH @ bytes '' [L10] Same race, protected by a mutex'' @ [0x0A])) v;
          v = vga_puts (Some (bytes ''  meminfo '' @ EN_DASH @ bytes '' [L11] Show free/used physical memory'' @ [0x0A])) v;
          v = vga_puts (Some (bytes ''  ls      '' @ EN_DASH @ bytes '' [L12] List files'' @ [0x0A])) v;
          v = vga_puts (Some (bytes ''  cat     '' @ EN_DASH @ bytes '' [L12] Print file contents'' @ [0x0A, 0x0A])) v;
          v = vga_puts (Some (bytes ''  write   '' @ EN_DASH @ bytes '' [L12] Write text to a file'' @ [0x0A])) v
      in vga_puts (Some (bytes ''  rm      '' @ EN_DASH @ bytes '' [L12] Remove a file'' @ [0x0A])) v)"

definition cmd_clear :: "vga \<Rightarrow> vga" where
  "cmd_clear v =
     vga_clear VGA_BLACK v"

definition cmd_about :: "vga \<Rightarrow> vga" where
  "cmd_about v =
     (let v = vga_puts_color (Some ([0x0A] @ bytes ''  About SENG21213-OS'' @ [0x0A])) VGA_LIGHT_CYAN VGA_BLACK v;
          v = vga_puts (Some (bytes ''  '' @ concat (replicate 45 BOX_LINE) @ [0x0A])) v;
          v = vga_puts (Some (bytes ''  Architecture : x86 (i686), 32-bit Protected Mode'' @ [0x0A])) v;
          v = vga_puts (Some (bytes ''  Bootloader   : Custom MBR (NASM)'' @ [0x0A])) v;
          v = vga_puts (Some (bytes ''  Kernel       : Freestanding C (GCC, no libc)'' @ [0x0A])) v;
          v = vga_puts (Some (bytes ''  VM Target    : QEMU (qemu-system-i386)'' @ [0x0A])) v;
          v = vga_puts (Some (bytes ''  Course       : SENG 21213 '' @ EN_DASH @ bytes '' Sem 2'' @ [0x0A])) v
      in vga_puts (Some (bytes ''  Reference    : Stallings, OS: Internals & Design Principles'' @ [0x0A, 0x0A])) v)"

definition cmd_echo :: "cstr \<Rightarrow> vga \<Rightarrow> vga" where
  "cmd_echo args v =
     (let v = vga_puts (Some (bytes ''  '')) v;
          v = vga_puts (Some (args)) v
      in vga_puts (Some ([0x0A])) v)"

definition cmd_mem :: "vga \<Rightarrow> vga" where
  "cmd_mem v =
     (let v = vga_puts_color (Some ([0x0A] @ bytes ''  Memory Map (stub '' @ EN_DASH @ bytes '' implement PMM in Lecture 11)'' @ [0x0A])) VGA_LIGHT_CYAN VGA_BLACK v;
          v = vga_puts (Some (bytes ''  '' @ concat (replicate 45 BOX_LINE) @ [0x0A])) v;
          v = vga_puts (Some (bytes ''  0x00000000 '' @ EN_DASH @ bytes '' 0x000FFFFF  :  First 1 MB (reserved/BIOS)'' @ [0x0A])) v;
          v = vga_puts (Some (bytes ''  0x00100000 '' @ EN_DASH @ bytes '' 0x00EFFFFF  :  Extended memory (usable ~14 MB)'' @ [0x0A])) v;
          v = vga_puts (Some (bytes ''  0x00F00000 '' @ EN_DASH @ bytes '' 0x00FFFFFF  :  BIOS / ROM area'' @ [0x0A])) v;
          v = vga_puts (Some (bytes ''  0xB8000    '' @ EN_DASH @ bytes '' 0xBFFFF     :  VGA frame buffer'' @ [0x0A])) v
      in vga_puts_color (Some ([0x0A] @ bytes ''  TODO: Use BIOS int 0x15, EAX=0xE820 to get real memory map'' @ [0x0A, 0x0A])) VGA_YELLOW VGA_BLACK v)"

section \<open>What the string functions decide\<close>

lemma sh_strcmp_eq: "cstr_ok a \<Longrightarrow> cstr_ok b \<Longrightarrow> sh_strcmp a b = 0 \<longleftrightarrow> a = b"
proof (induction a b rule: sh_strcmp.induct)
  case (1 b)
  then show ?case by (cases b) (auto simp: c_at_def cstr_ok_def uint_0_iff)
next
  case (2 x a b)
  then show ?case by (cases b) (auto simp: c_at_def cstr_ok_def word_uint_eq_iff)
qed

lemma sh_strncmp_prefix:
  "cstr_ok a \<Longrightarrow> cstr_ok b \<Longrightarrow> unat n = length b \<Longrightarrow> sh_strncmp a b n = 0 \<longleftrightarrow> take (length b) a = b"
proof (induction a b n rule: sh_strncmp.induct)
  case (1 a b n)
  show ?case
  proof (cases b)
    case Nil
    with "1.prems" have "n = 0" by (simp add: unat_eq_zero)
    with Nil show ?thesis by (subst sh_strncmp.simps) simp
  next
    case (Cons y b')
    have n: "n \<noteq> 0" "n - 1 \<noteq> -1" "unat (n - 1) = length b'"
      using "1.prems"(3) Cons by (auto simp: unat_minus_small)
    have y: "y \<noteq> 0" "cstr_ok b'" using "1.prems"(2) Cons by (auto simp: cstr_ok_def)
    show ?thesis
    proof (cases a)
      case Nil
      then show ?thesis using n y Cons by (subst sh_strncmp.simps) (simp add: c_at_def uint_0_iff)
    next
      case (Cons x a')
      with "1.prems"(1) have x: "x \<noteq> 0" "cstr_ok a'" by (auto simp: cstr_ok_def)
      have "x = y \<longleftrightarrow> uint x = uint y" by (rule word_uint_eq_iff)
      then show ?thesis
        using "1.IH" [OF refl] n x y Cons \<open>b = y # b'\<close>
        by (subst sh_strncmp.simps) (cases "x = y"; simp add: c_at_def Let_def)
    qed
  qed
qed

lemma sh_strlen_length: "cstr_ok s \<Longrightarrow> sh_strlen s = of_nat (length s)"
  by (induction s) (auto simp: cstr_ok_def)

lemma sh_ltrim_dropWhile: "sh_ltrim s = dropWhile (\<lambda>c. c = 0x20) s"
  by (induction s) auto

lemma cstr_ok_ltrim: "cstr_ok s \<Longrightarrow> cstr_ok (sh_ltrim s)"
  by (auto simp: cstr_ok_def sh_ltrim_dropWhile dest: set_dropWhileD)

lemma cstr_ok_drop: "cstr_ok s \<Longrightarrow> cstr_ok (drop n s)"
  by (auto simp: cstr_ok_def dest: in_set_dropD)

end
