(* ===== verification/Shell.thy ===== *)
theory Shell
  imports RaceRuns FsMount Pmm Keyboard ShellText
begin

text \<open>
  The shell and \<^verbatim>\<open>kernel_main\<close> (\<^verbatim>\<open>kernel/kernel.c\<close>): the parts of the kernel in one state. A command
  returns \<^term>\<open>None\<close> where \<^verbatim>\<open>vga_printf\<close> would read an argument of the wrong kind or a loop would not
  end. Link-time addresses are the fields of an argument. A command is one function of the state: what timer
  interrupts do between its statements is in \<open>Mutex\<close>, \<open>Race\<close> and \<open>Scheduler\<close>.
\<close>

section \<open>State\<close>

record shell = world +
  fsys :: fs
  frames :: pmm

record links =
  l_stacks :: u32
  l_race_a :: u32
  l_race_b :: u32
  l_racem_a :: u32
  l_racem_b :: u32
  l_task_a :: u32
  l_task_b :: u32
  l_kernel_end :: u32
  l_idt :: u32
  l_irq0 :: u32
  l_irq1 :: u32

section \<open>Printing\<close>

definition sh_put :: "u8 list \<Rightarrow> 'a shell_scheme \<Rightarrow> 'a shell_scheme" where
  "sh_put str s = s\<lparr>screen := vga_puts (Some str) (screen s)\<rparr>"

definition sh_put_color :: "u8 list \<Rightarrow> vga_color \<Rightarrow> 'a shell_scheme \<Rightarrow> 'a shell_scheme" where
  "sh_put_color str fg s = s\<lparr>screen := vga_puts_color (Some str) fg VGA_BLACK (screen s)\<rparr>"

definition sh_pen :: "vga_color \<Rightarrow> 'a shell_scheme \<Rightarrow> 'a shell_scheme" where
  "sh_pen fg s = s\<lparr>screen := vga_set_color fg VGA_BLACK (screen s)\<rparr>"

definition sh_printf :: "u8 list \<Rightarrow> va_arg list \<Rightarrow> 'a shell_scheme \<Rightarrow> 'a shell_scheme option" where
  "sh_printf fmt args s = map_option (\<lambda>v. s\<lparr>screen := v\<rparr>) (vga_printf fmt args (screen s))"

definition on_screen :: "(vga \<Rightarrow> vga) \<Rightarrow> 'a shell_scheme \<Rightarrow> 'a shell_scheme" where
  "on_screen f s = s\<lparr>screen := f (screen s)\<rparr>"

section \<open>Processes and memory\<close>

fun state_name :: "process_state \<Rightarrow> cstr" where
  "state_name PROCESS_FREE = bytes ''FREE''"
| "state_name PROCESS_READY = bytes ''READY''"
| "state_name PROCESS_RUNNING = bytes ''RUNNING''"
| "state_name PROCESS_BLOCKED = bytes ''BLOCKED''"
| "state_name PROCESS_TERMINATED = bytes ''TERMINATED''"

text \<open>The C string in a buffer of \<open>n\<close> bytes.\<close>

definition str_in :: "memory \<Rightarrow> nat \<Rightarrow> cstr" where
  "str_in m n = takeWhile (\<lambda>c. c \<noteq> 0) (map m [0..<n])"

definition ps_line :: "nat \<Rightarrow> 'a shell_scheme \<Rightarrow> 'a shell_scheme option" where
  "ps_line i s =
     (let p = process_table s ! i in
      if state p \<noteq> PROCESS_FREE then
        sh_printf (bytes ''  %d    %-10s  %s'' @ [0x0A])
          [VInt (pid p), VStr None (state_name (state p)), VStr None (str_in (name p) 32)] s
      else Some s)"

definition cmd_ps :: "'a shell_scheme \<Rightarrow> 'a shell_scheme option" where
  "cmd_ps s =
     (let s = sh_pen VGA_LIGHT_CYAN s;
          s = sh_put (bytes ''  PID  STATE       NAME'' @ [0x0A]) s;
          s = sh_put (bytes ''  ---  ----------  --------'' @ [0x0A]) s;
          s = sh_pen VGA_WHITE s
      in for_do (\<lambda>i r. Option.bind r (ps_line i)) 0 16 (Some s))"

fun kill_pid :: "cstr \<Rightarrow> u32 \<Rightarrow> u32" where
  "kill_pid [] n = n"
| "kill_pid (c # arg) n =
     (if ch CHR ''0'' \<le> c \<and> c \<le> ch CHR ''9'' then kill_pid arg (n * 10 + ucast (c - ch CHR ''0'')) else n)"

definition cmd_kill :: "cstr \<Rightarrow> 'a shell_scheme \<Rightarrow> 'a shell_scheme option" where
  "cmd_kill arg s =
     (let pid = kill_pid arg 0 in
      map_option (sh_pen VGA_LIGHT_GREY)
        (if pid = 0 then
           Some (sh_put (bytes ''  Cannot kill kernel process (PID 0)'' @ [0x0A]) (sh_pen VGA_LIGHT_RED s))
         else if 16 \<le> pid \<or> state (process_table s ! unat pid) = PROCESS_FREE then
           Some (sh_put (bytes ''  No such process'' @ [0x0A]) (sh_pen VGA_LIGHT_RED s))
         else
           (let s = process_terminate pid s; s = sh_pen VGA_LIGHT_GREEN s
            in sh_printf (bytes ''  Process %d terminated'' @ [0x0A]) [VInt pid] s)))"

definition cmd_race :: "links \<Rightarrow> 'a shell_scheme \<Rightarrow> 'a shell_scheme" where
  "cmd_race L s =
     (let s = race_command (l_stacks L) (l_race_a L) (l_race_b L) s;
          s = sh_pen VGA_YELLOW s;
          s = sh_put (bytes ''  Started race_a/race_b '' @ [0xE2, 0x80, 0x94] @ bytes '' no mutex yet.'' @ [0x0A]) s;
          s = sh_put (bytes ''  Expected final myglobal = 200000. Run '' @ [0x27] @ bytes ''ps'' @ [0x27] @ bytes '' to watch,'' @ [0x0A]) s;
          s = sh_put (bytes ''  or wait for both '' @ [0x27] @ bytes ''... done'' @ [0x27] @ bytes '' lines to print.'' @ [0x0A]) s
      in sh_pen VGA_LIGHT_GREY s)"

definition cmd_racem :: "links \<Rightarrow> 'a shell_scheme \<Rightarrow> 'a shell_scheme" where
  "cmd_racem L s =
     (let s = racem_command (l_stacks L) (l_racem_a L) (l_racem_b L) s;
          s = sh_pen VGA_YELLOW s;
          s = sh_put (bytes ''  Started racem_a/racem_b '' @ [0xE2, 0x80, 0x94] @ bytes '' protected by a mutex.'' @ [0x0A]) s;
          s = sh_put (bytes ''  Expect exactly myglobal = 200000, every single run.'' @ [0x0A]) s
      in sh_pen VGA_LIGHT_GREY s)"

definition cmd_meminfo :: "'a shell_scheme \<Rightarrow> 'a shell_scheme option" where
  "cmd_meminfo s =
     (let total = pmm_total_frames (frames s); freef = pmm_free_frames (frames s); used = total - freef;
          s = sh_pen VGA_LIGHT_CYAN s
      in Option.bind (sh_printf (bytes ''  Free:  %u KB'' @ [0x0A]) [VInt (freef * 4)] s)
           (\<lambda>s. Option.bind (sh_printf (bytes ''  Used:  %u KB'' @ [0x0A]) [VInt (used * 4)] s)
           (\<lambda>s. map_option (sh_pen VGA_LIGHT_GREY) (sh_printf (bytes ''  Total: %u KB'' @ [0x0A]) [VInt (total * 4)] s))))"

section \<open>Files\<close>

definition cmd_fs_ls :: "'a shell_scheme \<Rightarrow> 'a shell_scheme option" where
  "cmd_fs_ls s = map_option (\<lambda>v. s\<lparr>screen := v\<rparr>) (fs_list (fsys s) (screen s))"

text \<open>\<^verbatim>\<open>!name || !name[0]\<close>\<close>

definition no_name :: "cstr option \<Rightarrow> bool" where
  "no_name nm = (case nm of None \<Rightarrow> True | Some n \<Rightarrow> c_at n 0 = 0)"

definition cmd_fs_touch :: "cstr option \<Rightarrow> 'a shell_scheme \<Rightarrow> 'a shell_scheme" where
  "cmd_fs_touch nm s =
     (if no_name nm then sh_put (bytes ''  Usage: touch <name>'' @ [0x0A]) s
      else
        (let (r, f) = fs_create nm (fsys s); s = s\<lparr>fsys := f\<rparr> in
         if r = -2 then sh_put_color (bytes ''  File already exists.'' @ [0x0A]) VGA_YELLOW s
         else if r < 0 then sh_put_color (bytes ''  Could not create file.'' @ [0x0A]) VGA_LIGHT_RED s
         else sh_put_color (bytes ''  File created.'' @ [0x0A]) VGA_LIGHT_GREEN s))"

text \<open>The loop of \<^verbatim>\<open>cat\<close> over the local buffer.\<close>

partial_function (option) cat_loop :: "int \<Rightarrow> memory \<Rightarrow> 'a shell_scheme \<Rightarrow> 'a shell_scheme option" where
  "cat_loop fd buf s =
     (let r = fs_read fd (Some buf) 255 (fsys s); n = fst r; out = fst (snd r); s = s\<lparr>fsys := snd (snd r)\<rparr> in
      if 0 < n then
        (let buf = wr8 (the out) (nat n) 0 in cat_loop fd buf (sh_put (map buf [0..<256]) s))
      else Some s)"

definition cmd_fs_cat :: "cstr option \<Rightarrow> memory \<Rightarrow> 'a shell_scheme \<Rightarrow> 'a shell_scheme option" where
  "cmd_fs_cat nm buf s =
     (if no_name nm then Some (sh_put (bytes ''  Usage: cat <name>'' @ [0x0A]) s)
      else
        (let (fd, f) = fs_open (the nm) (fsys s); s = s\<lparr>fsys := f\<rparr> in
         if fd < 0 then Some (sh_put_color (bytes ''  File not found.'' @ [0x0A]) VGA_LIGHT_RED s)
         else
           (case cat_loop fd buf (sh_put (bytes ''  '') s) of
              None \<Rightarrow> None
            | Some s \<Rightarrow>
                (let s = sh_put [0x0A] s
                 in Some (s\<lparr>fsys := snd (fs_close fd (fsys s))\<rparr>)))))"

text \<open>The file name: up to the next space, at most 23 characters.\<close>

fun take_name :: "cstr \<Rightarrow> cstr \<Rightarrow> cstr \<times> cstr" where
  "take_name [] nm = (nm, [])"
| "take_name (c # p) nm =
     (if c \<noteq> 0 \<and> c \<noteq> 0x20 \<and> length nm + 1 < 24 then take_name p (nm @ [c]) else (nm, c # p))"

definition cmd_fs_write :: "cstr option \<Rightarrow> 'a shell_scheme \<Rightarrow> 'a shell_scheme option" where
  "cmd_fs_write args s =
     (if no_name args then Some (sh_put (bytes ''  Usage: write <name> <text>'' @ [0x0A]) s)
      else
        (let p = sh_ltrim (the args);
             (name, p) = take_name p [];
             p = sh_ltrim p
         in if c_at name 0 = 0 \<or> c_at p 0 = 0 then Some (sh_put (bytes ''  Usage: write <name> <text>'' @ [0x0A]) s)
            else
              (let (testfd, f) = fs_open name (fsys s); s = s\<lparr>fsys := f\<rparr>;
                   s = (if 0 \<le> testfd
                        then (let s = s\<lparr>fsys := snd (fs_close testfd (fsys s))\<rparr>
                              in s\<lparr>fsys := snd (fs_unlink name (fsys s))\<rparr>)
                        else s);
                   (r, f) = fs_create (Some name) (fsys s); s = s\<lparr>fsys := f\<rparr>
               in if r < 0 then Some (sh_put_color (bytes ''  Could not create file.'' @ [0x0A]) VGA_LIGHT_RED s)
                  else
                    (let (fd, f) = fs_open name (fsys s); s = s\<lparr>fsys := f\<rparr> in
                     if fd < 0 then Some (sh_put_color (bytes ''  Could not open file.'' @ [0x0A]) VGA_LIGHT_RED s)
                     else
                       (let (written, f) = fs_write fd (Some (c_at p)) (sh_strlen p) (fsys s); s = s\<lparr>fsys := f\<rparr>;
                            s = s\<lparr>fsys := snd (fs_close fd (fsys s))\<rparr>
                        in if written < 0 then Some (sh_put_color (bytes ''  Write failed.'' @ [0x0A]) VGA_LIGHT_RED s)
                           else sh_printf (bytes ''  Wrote %d bytes.'' @ [0x0A]) [VInt (of_int written)] s)))))"

definition cmd_fs_rm :: "cstr option \<Rightarrow> 'a shell_scheme \<Rightarrow> 'a shell_scheme" where
  "cmd_fs_rm nm s =
     (if no_name nm then sh_put (bytes ''  Usage: rm <name>'' @ [0x0A]) s
      else
        (let (r, f) = fs_unlink (the nm) (fsys s); s = s\<lparr>fsys := f\<rparr> in
         if r = 0 then sh_put_color (bytes ''  File removed.'' @ [0x0A]) VGA_LIGHT_GREEN s
         else sh_put_color (bytes ''  File not found or still open.'' @ [0x0A]) VGA_LIGHT_RED s))"

section \<open>The command loop\<close>

text \<open>The commands on files, and the answer to what is none.\<close>

definition shell_files :: "memory \<Rightarrow> cstr \<Rightarrow> 'a shell_scheme \<Rightarrow> 'a shell_scheme option" where
  "shell_files buf cmd s =
     (if sh_strcmp cmd (bytes ''ls'') = 0 then cmd_fs_ls s
      else if sh_strncmp cmd (bytes ''touch '') 6 = 0 then Some (cmd_fs_touch (Some (sh_ltrim (drop 6 cmd))) s)
      else if sh_strncmp cmd (bytes ''cat '') 4 = 0 then cmd_fs_cat (Some (sh_ltrim (drop 4 cmd))) buf s
      else if sh_strncmp cmd (bytes ''write '') 6 = 0 then cmd_fs_write (Some (sh_ltrim (drop 6 cmd))) s
      else if sh_strncmp cmd (bytes ''rm '') 3 = 0 then Some (cmd_fs_rm (Some (sh_ltrim (drop 3 cmd))) s)
      else if sh_strncmp cmd (bytes ''unlink '') 7 = 0 then Some (cmd_fs_rm (Some (sh_ltrim (drop 7 cmd))) s)
      else
        (let s = sh_put_color (bytes ''  Unknown command: '') VGA_LIGHT_RED s;
             s = sh_put cmd s
         in Some (sh_put ([0x0A] @ bytes ''  Type '' @ [0x27] @ bytes ''help'' @ [0x27] @ bytes '' for a list of commands.'' @ [0x0A]) s)))"

text \<open>One pass of the loop after the line was read. \<open>buf\<close> is what \<^verbatim>\<open>cat\<close>'s stack buffer holds.\<close>

definition shell_dispatch :: "links \<Rightarrow> memory \<Rightarrow> cstr \<Rightarrow> 'a shell_scheme \<Rightarrow> 'a shell_scheme option" where
  "shell_dispatch L buf line s =
     (let cmd = sh_ltrim line in
      if sh_strlen cmd = 0 then Some s
      else if sh_strcmp cmd (bytes ''help'') = 0 then Some (on_screen cmd_help s)
      else if sh_strcmp cmd (bytes ''clear'') = 0 then Some (on_screen cmd_clear s)
      else if sh_strcmp cmd (bytes ''about'') = 0 then Some (on_screen cmd_about s)
      else if sh_strcmp cmd (bytes ''mem'') = 0 then Some (on_screen cmd_mem s)
      else if sh_strncmp cmd (bytes ''echo '') 5 = 0 then Some (on_screen (cmd_echo (sh_ltrim (drop 5 cmd))) s)
      else if sh_strcmp cmd (bytes ''ps'') = 0 then cmd_ps s
      else if sh_strncmp cmd (bytes ''kill '') 5 = 0 then cmd_kill (drop 5 cmd) s
      else if sh_strcmp cmd (bytes ''race'') = 0 then Some (cmd_race L s)
      else if sh_strcmp cmd (bytes ''racem'') = 0 then Some (cmd_racem L s)
      else if sh_strcmp cmd (bytes ''meminfo'') = 0 then cmd_meminfo s
      else shell_files buf cmd s)"

text \<open>The loop never ends; the model ends where it waits for a key that never comes.\<close>

function shell_loop :: "links \<Rightarrow> memory \<Rightarrow> u8 list \<Rightarrow> bool \<Rightarrow> memory \<Rightarrow> 'a shell_scheme \<Rightarrow> 'a shell_scheme option" where
  "shell_loop L buf ins sh shell_buf s =
     (let s = sh_put_color ([0x0A] @ bytes ''  ksh> '') VGA_LIGHT_GREEN s in
      case kb_readline 256 shell_buf ins sh (screen s) of
        None \<Rightarrow> Some s
      | Some (i, shell_buf, ins, sh, v) \<Rightarrow>
          (case shell_dispatch L buf (str_in shell_buf 256) (s\<lparr>screen := v\<rparr>) of
             None \<Rightarrow> None
           | Some s \<Rightarrow> shell_loop L buf ins sh shell_buf s))"
  by pat_completeness auto
termination
  by (relation "measure (\<lambda>(L, buf, ins, sh, shell_buf, s). length ins)") (auto dest: kb_readline_consumes)

declare shell_loop.simps [simp del]

definition shell_run :: "links \<Rightarrow> memory \<Rightarrow> u8 list \<Rightarrow> bool \<Rightarrow> memory \<Rightarrow> 'a shell_scheme \<Rightarrow> 'a shell_scheme option" where
  "shell_run L buf ins sh shell_buf s =
     shell_loop L buf ins sh shell_buf
       (sh_put_color ([0x0A] @ bytes ''  Kernel Shell ready. Type '' @ [0x27] @ bytes ''help'' @ [0x27] @ bytes '' for commands.'' @ [0x0A]) VGA_LIGHT_GREEN s)"

section \<open>The kernel\<close>

record kernel = shell +
  idtab :: idt
  port_log :: ports
  irqs_on :: bool

text \<open>\<^verbatim>\<open>kernel_main\<close> up to the call of the shell; \<^term>\<open>None\<close> while the keyboard controller is not
  drained. \<^verbatim>\<open>scheduler_init\<close> has an empty body.\<close>

definition kernel_boot :: "links \<Rightarrow> u8 list \<Rightarrow> kernel \<Rightarrow> (u8 list \<times> kernel) option" where
  "kernel_boot L ins s =
     (let s = s\<lparr>screen := vga_init (screen s)\<rparr> in
      case kb_init ins of
        None \<Rightarrow> None
      | Some ins \<Rightarrow>
          (let s = s\<lparr>idtab := idt_init (l_idt L) (l_irq0 L) (l_irq1 L) (idtab s)\<rparr>;
               s = s\<lparr>port_log := pic_init (port_log s)\<rparr>;
               s = s\<lparr>port_log := pit_init (port_log s)\<rparr>;
               s = s\<lparr>idtab := idt_set_gate 32 (l_irq0 L) 0x08 0x8E (idtab s)\<rparr>;
               s = s\<lparr>frames := pmm_init (ram s) (l_kernel_end L) (frames s)\<rparr>;
               (f, v) = fs_init (fsys s) (screen s); s = s\<lparr>fsys := f, screen := v\<rparr>;
               s = process_init s;
               s = snd (process_create (l_stacks L) (bytes ''task_a'') (l_task_a L) s);
               s = snd (process_create (l_stacks L) (bytes ''task_b'') (l_task_b L) s);
               s = s\<lparr>screen := print_splash (screen s)\<rparr>
           in Some (ins, s\<lparr>irqs_on := True\<rparr>)))"

definition kernel_main :: "links \<Rightarrow> memory \<Rightarrow> u8 list \<Rightarrow> memory \<Rightarrow> kernel \<Rightarrow> kernel option" where
  "kernel_main L buf ins shell_buf s =
     (case kernel_boot L ins s of
        None \<Rightarrow> Some s
      | Some (ins, s) \<Rightarrow> shell_run L buf ins False shell_buf s)"

text \<open>The two demonstration tasks, run without interruption up to their halt; the delay loops only pass
  time.\<close>

definition task_a :: "'a shell_scheme \<Rightarrow> 'a shell_scheme" where
  "task_a s = process_terminate 1 (for_do (\<lambda>i s. sh_put (bytes ''[A] '') (sh_pen VGA_LIGHT_CYAN s)) 0 5 s)"

definition task_b :: "'a shell_scheme \<Rightarrow> 'a shell_scheme" where
  "task_b s = process_terminate 2 (for_do (\<lambda>i s. sh_put (bytes ''[B] '') (sh_pen VGA_LIGHT_MAGENTA s)) 0 5 s)"

end
