(* ===== verification/ShellFiles.thy ===== *)
theory ShellFiles
  imports Shell
begin

text \<open>
  The file commands of the shell, stated on the abstract file system
  (\<open>FsSpec\<close>): \<open>idle\<close> is a consistent file system without open descriptors, which is
  the state between two commands.
\<close>

section \<open>The file system between two commands\<close>

definition idle :: "fs \<Rightarrow> bool" where
  "idle f \<longleftrightarrow> fs_ok f \<and> a_open (abs_fs f) = Map.empty"

definition file_of :: "fs \<Rightarrow> cstr \<Rightarrow> u8 list option" where
  "file_of f n = Option.bind (a_names (abs_fs f) n) (a_files (abs_fs f))"

lemma afs_injective:
  assumes "fs_ok f" "a_names (abs_fs f) n = Some i" "a_names (abs_fs f) k = Some i"
  shows "n = k"
proof -
  have D: "inv_dir (view (disk f))" using assms(1) by (simp add: fs_ok_def Let_def)
  then show ?thesis using assms(2,3) by (auto simp: abs_names_Some inv_dir_def)
qed

lemma afs_bound:
  assumes "fs_ok f" "a_names (abs_fs f) n = Some i"
  shows "\<exists>c. a_files (abs_fs f) i = Some c \<and> length c \<le> 32768"
proof -
  let ?V = "view (disk f)"
  have "is_file ?V i" using assms by (auto simp: fs_ok_def Let_def abs_names_Some inv_dir_def)
  moreover from this have "fsize ?V i \<le> 32768" using assms(1) by (intro inv_blkD(1)) (simp_all add: fs_ok_def Let_def)
  ultimately show ?thesis by (simp add: abs_files_def content_def)
qed

lemmas [simp del] = abs_fs_simps

lemma file_of_Some: "file_of f n = Some c \<longleftrightarrow> (\<exists>i. a_names (abs_fs f) n = Some i \<and> a_files (abs_fs f) i = Some c)"
  by (auto simp: file_of_def bind_eq_Some_conv)

lemma file_of_None: "fs_ok f \<Longrightarrow> file_of f n = None \<longleftrightarrow> a_names (abs_fs f) n = None"
  using afs_bound [of f n] by (cases "a_names (abs_fs f) n") (auto simp: file_of_def)

text \<open>The one descriptor a command has open: number 0, on file \<open>i\<close>; \<open>A\<close> is the file system without it.\<close>

definition opened :: "afs \<Rightarrow> nat \<Rightarrow> nat \<Rightarrow> fs \<Rightarrow> bool" where
  "opened A i off f \<longleftrightarrow> a_open A = Map.empty \<and> fs_ok f \<and> abs_fs f = A\<lparr>a_open := [0 \<mapsto> (i, off)]\<rparr>"

lemma afs_close_all: "a_open A = Map.empty \<Longrightarrow> A\<lparr>a_open := Map.empty\<rparr> = (A :: afs)"
  by (cases A) simp

lemma a_open_keep:
  "a_open (snd (a_create n A)) = a_open A" "a_open (snd (a_unlink k A)) = a_open A"
  by (auto simp: a_create_def a_unlink_def split: option.splits)

lemma idle_create:
  assumes "idle f" "cstr_ok n"
  shows "idle (snd (fs_create (Some n) f))"
    and "a_create (Some n) (abs_fs f) = (fst (fs_create (Some n) f), abs_fs (snd (fs_create (Some n) f)))"
  using assms fs_create_sim [of f "Some n"] a_open_keep(1) [of "Some n" "abs_fs f"] by (simp_all add: idle_def)

lemma idle_unlink:
  assumes "idle f" "cstr_ok n"
  shows "idle (snd (fs_unlink n f))"
    and "a_unlink n (abs_fs f) = (fst (fs_unlink n f), abs_fs (snd (fs_unlink n f)))"
  using assms fs_unlink_sim [of f n] a_open_keep(2) [of n "abs_fs f"] by (simp_all add: idle_def)

lemma idle_open:
  assumes f: "idle f" and n: "cstr_ok n"
  shows "a_names (abs_fs f) n = None \<Longrightarrow>
      fst (fs_open n f) = -1 \<and> idle (snd (fs_open n f)) \<and> abs_fs (snd (fs_open n f)) = abs_fs f"
    and "a_names (abs_fs f) n = Some i \<Longrightarrow> fst (fs_open n f) = 0 \<and> opened (abs_fs f) i 0 (snd (fs_open n f))"
proof -
  have sim: "fs_ok (snd (fs_open n f))" "a_open_file n (abs_fs f) = (fst (fs_open n f), abs_fs (snd (fs_open n f)))"
    using fs_open_sim [of f n] f n by (simp_all add: idle_def)
  with f show "a_names (abs_fs f) n = None \<Longrightarrow>
      fst (fs_open n f) = -1 \<and> idle (snd (fs_open n f)) \<and> abs_fs (snd (fs_open n f)) = abs_fs f"
    by (auto simp: a_open_file_def idle_def)
  have "for_find (\<lambda>fd. a_open (abs_fs f) fd = None) 0 32 = Some 0"
    using f by (simp add: idle_def for_find_hit)
  with sim f show "a_names (abs_fs f) n = Some i \<Longrightarrow> fst (fs_open n f) = 0 \<and> opened (abs_fs f) i 0 (snd (fs_open n f))"
    by (simp add: a_open_file_def opened_def idle_def)
qed

lemma opened_close:
  assumes "opened A i off f"
  shows "idle (snd (fs_close 0 f))" "abs_fs (snd (fs_close 0 f)) = A"
proof -
  have ok: "fs_ok (snd (fs_close 0 f))" and abs: "abs_fs (snd (fs_close 0 f)) = snd (a_close 0 (abs_fs f))"
    using fs_close_sim [of f 0] assms by (simp_all add: opened_def)
  have "snd (a_close 0 (abs_fs f)) = A"
    using assms by (simp add: a_close_def a_fd_def opened_def afs_close_all)
  with ok abs assms show "idle (snd (fs_close 0 f))" "abs_fs (snd (fs_close 0 f)) = A"
    by (simp_all add: idle_def opened_def)
qed

lemma opened_read:
  assumes o: "opened A i off f" and c: "a_files A i = Some c"
  defines "got \<equiv> \<lambda>k. take (unat k) (drop off c)"
  shows "fst (fs_read 0 (Some buf) k f) = int (length (got k))"
    and "fst (snd (fs_read 0 (Some buf) k f)) = Some (put_bytes buf (got k))"
    and "opened A i (off + length (got k)) (snd (snd (fs_read 0 (Some buf) k f)))"
  using fs_read_sim [of f 0 "Some buf" k] o c
  by (auto simp: opened_def a_read_def a_fd_def Let_def got_def)

lemma opened_write:
  assumes o: "opened A i 0 f" and c: "a_files A i = Some []"
    and w: "w = min (unat k) (min 32768 (a_free A * 4096))"
  shows "fst (fs_write 0 (Some src) k f) = int w"
    and "opened (A\<lparr>a_files := (a_files A)(i \<mapsto> map src [0..<w]), a_free := a_free A - nblocks w\<rparr>) i w
           (snd (fs_write 0 (Some src) k f))"
proof -
  have ok: "fs_ok (snd (fs_write 0 (Some src) k f))"
    and eq: "a_write 0 (Some src) (unat k) (abs_fs f)
      = (fst (fs_write 0 (Some src) k f), abs_fs (snd (fs_write 0 (Some src) k f)))"
    using fs_write_sim [of f 0 "Some src" k] o by (simp_all add: opened_def)
  have "a_write 0 (Some src) (unat k) (abs_fs f) = (int w,
      (A\<lparr>a_files := (a_files A)(i \<mapsto> map src [0..<w]), a_free := a_free A - nblocks w\<rparr>)\<lparr>a_open := [0 \<mapsto> (i, w)]\<rparr>)"
    using o c by (cases A) (simp add: a_write_def a_fd_def opened_def w Let_def nblocks_def)
  with ok eq o show "fst (fs_write 0 (Some src) k f) = int w"
    "opened (A\<lparr>a_files := (a_files A)(i \<mapsto> map src [0..<w]), a_free := a_free A - nblocks w\<rparr>) i w
       (snd (fs_write 0 (Some src) k f))"
    by (simp_all add: opened_def)
qed

section \<open>cat\<close>

text \<open>What \<^verbatim>\<open>cat\<close> shows: the contents in pieces of at most 255 bytes, each as a C string.\<close>

function cat_show :: "u8 list \<Rightarrow> vga \<Rightarrow> vga" where
  "cat_show c v = (if c = [] then v else cat_show (drop 255 c) (puts_loop (take 255 c) v))"
  by pat_completeness auto
termination by (relation "measure (\<lambda>(c, v). length c)") auto

declare cat_show.simps [simp del]

lemma puts_loop_NUL: "puts_loop (xs @ 0 # ys) v = puts_loop xs v"
  by (induction xs arbitrary: v) auto

lemma puts_loop_app: "cstr_ok xs \<Longrightarrow> puts_loop (xs @ ys) v = puts_loop ys (puts_loop xs v)"
  by (induction xs arbitrary: v) (auto simp: cstr_ok_def)

lemma cat_show_text: "cstr_ok c \<Longrightarrow> cat_show c v = puts_loop c v"
proof (induction c v rule: cat_show.induct)
  case (1 c v)
  have "cstr_ok (take 255 c)" "cstr_ok (drop 255 c)"
    using "1.prems" by (auto simp: cstr_ok_def dest: in_set_takeD in_set_dropD)
  then show ?case
    using "1.IH" puts_loop_app [of "take 255 c" "drop 255 c" v] by (subst cat_show.simps) auto
qed

lemma cat_show_safe: "vga_safe (cat_show c)"
proof -
  have "vga_ok v \<Longrightarrow> vga_ok (cat_show c v) \<and> off_screen_same v (cat_show c v)" for v
  proof (induction c v rule: cat_show.induct)
    case (1 c v)
    then show ?case
      using puts_loop_safe [of "take 255 c"]
      by (subst (1 2) cat_show.simps) (auto simp: vga_safe_def intro: off_screen_same_trans)
  qed
  then show ?thesis by (simp add: vga_safe_def)
qed

lemma cat_chunk:
  assumes "length got \<le> 255"
  shows "vga_puts (Some (map (wr8 (put_bytes b got) (length got) 0) [0..<256])) = puts_loop got"
proof -
  let ?m = "wr8 (put_bytes b got) (length got) 0"
  have "[0..<256] = [0..<length got] @ length got # [length got + 1..<256]"
    using assms upt_add_eq_append [of 0 "length got" "256 - length got"] by (simp add: upt_conv_Cons)
  moreover have "map ?m [0..<length got] = got"
    by (intro nth_equalityI) (auto simp: put_bytes_def)
  ultimately have "map ?m [0..<256] = got @ 0 # map ?m [length got + 1..<256]"
    by (simp add: wr8_def)
  then show ?thesis by (simp add: vga_puts_def puts_loop_NUL fun_eq_iff)
qed

lemma cat_loop_run:
  assumes "opened A i off (fsys s)" "a_files A i = Some c"
  shows "\<exists>f' off'. cat_loop 0 buf s = Some (s\<lparr>fsys := f', screen := cat_show (drop off c) (screen s)\<rparr>)
           \<and> opened A i off' f'"
  using assms
proof (induction "length c - off" arbitrary: off buf s rule: less_induct)
  case less
  let ?got = "take 255 (drop off c)"
  let ?r = "fs_read 0 (Some buf) 255 (fsys s)"
  note R = opened_read [OF less.prems, where buf = buf and k = 255, simplified]
  show ?case
  proof (cases "drop off c = []")
    case True
    then have "cat_loop 0 buf s = Some (s\<lparr>fsys := snd (snd ?r)\<rparr>)"
      using R(1) by (subst cat_loop.simps) (simp add: Let_def)
    with True R(3) show ?thesis by (auto simp: cat_show.simps)
  next
    case False
    let ?buf = "wr8 (put_bytes buf ?got) (length ?got) 0"
    let ?s = "s\<lparr>fsys := snd (snd ?r), screen := puts_loop ?got (screen s)\<rparr>"
    have pos: "0 < length ?got" "length ?got \<le> 255" using False by auto
    then have "cat_loop 0 buf s = cat_loop 0 ?buf (sh_put (map ?buf [0..<256]) (s\<lparr>fsys := snd (snd ?r)\<rparr>))"
      using R(1,2) by (subst cat_loop.simps) (simp add: Let_def)
    also have "sh_put (map ?buf [0..<256]) (s\<lparr>fsys := snd (snd ?r)\<rparr>) = ?s"
      using cat_chunk [OF pos(2)] by (simp add: sh_put_def)
    finally have step: "cat_loop 0 buf s = cat_loop 0 ?buf ?s" .
    have "length c - (off + length ?got) < length c - off" using pos False by simp
    moreover have "opened A i (off + length ?got) (fsys ?s)" using R(3) by simp
    ultimately obtain f' off' where "opened A i off' f'"
      "cat_loop 0 ?buf ?s = Some (?s\<lparr>fsys := f', screen := cat_show (drop (off + length ?got) c) (screen ?s)\<rparr>)"
      using less.hyps less.prems(2) by blast
    moreover have "cat_show (drop off c) (screen s) = cat_show (drop (off + length ?got) c) (puts_loop ?got (screen s))"
      using False by (subst cat_show.simps) (simp add: min_def add.commute)
    ultimately show ?thesis using step by auto
  qed
qed

lemma cmd_cat_run:
  assumes "idle (fsys s)" "cstr_ok n" "n \<noteq> []"
  shows "file_of (fsys s) n = Some c \<Longrightarrow>
      \<exists>f'. cmd_fs_cat (Some n) buf s
             = Some (s\<lparr>fsys := f', screen := vga_putchar 0x0A (cat_show c (puts_loop (bytes ''  '') (screen s)))\<rparr>)
         \<and> idle f' \<and> abs_fs f' = abs_fs (fsys s)"
    and "file_of (fsys s) n = None \<Longrightarrow>
      \<exists>f'. cmd_fs_cat (Some n) buf s
             = Some (s\<lparr>fsys := f', screen := vga_puts_color (Some (bytes ''  File not found.'' @ [0x0A])) VGA_LIGHT_RED VGA_BLACK (screen s)\<rparr>)
         \<and> idle f' \<and> abs_fs f' = abs_fs (fsys s)"
proof -
  have nn: "\<not> no_name (Some n)" using assms(2,3) by (simp add: no_name_def c_at_0_iff)
  show "\<exists>f'. cmd_fs_cat (Some n) buf s
             = Some (s\<lparr>fsys := f', screen := vga_puts_color (Some (bytes ''  File not found.'' @ [0x0A])) VGA_LIGHT_RED VGA_BLACK (screen s)\<rparr>)
         \<and> idle f' \<and> abs_fs f' = abs_fs (fsys s)" if "file_of (fsys s) n = None"
  proof -
    have none: "a_names (abs_fs (fsys s)) n = None" using that file_of_None assms(1) by (simp add: idle_def)
    show ?thesis
      using idle_open(1) [OF assms(1,2) none] nn
      by (auto simp: cmd_fs_cat_def sh_put_color_def Let_def split_beta)
  qed
  show "\<exists>f'. cmd_fs_cat (Some n) buf s
             = Some (s\<lparr>fsys := f', screen := vga_putchar 0x0A (cat_show c (puts_loop (bytes ''  '') (screen s)))\<rparr>)
         \<and> idle f' \<and> abs_fs f' = abs_fs (fsys s)" if "file_of (fsys s) n = Some c"
  proof -
    obtain i where i: "a_names (abs_fs (fsys s)) n = Some i" "a_files (abs_fs (fsys s)) i = Some c"
      using \<open>file_of (fsys s) n = Some c\<close> by (auto simp: file_of_Some)
    let ?f = "snd (fs_open n (fsys s))"
    let ?s = "sh_put (bytes ''  '') (s\<lparr>fsys := ?f\<rparr>)"
    have o: "fst (fs_open n (fsys s)) = 0" "opened (abs_fs (fsys s)) i 0 (fsys ?s)"
      using idle_open(2) [OF assms(1,2) i(1)] by (simp_all add: sh_put_def)
    obtain f' off' where l: "cat_loop 0 buf ?s = Some (?s\<lparr>fsys := f', screen := cat_show (drop 0 c) (screen ?s)\<rparr>)"
      "opened (abs_fs (fsys s)) i off' f'"
      using cat_loop_run [OF o(2) i(2)] by blast
    show ?thesis
      using l(1) o(1) nn opened_close [OF l(2)]
      by (intro exI [of _ "snd (fs_close 0 f')"])
        (simp add: cmd_fs_cat_def Let_def split_beta sh_put_def vga_puts_def)
  qed
qed

section \<open>write\<close>

lemma take_name_props:
  "cstr_ok p \<Longrightarrow> cstr_ok nm \<Longrightarrow> length nm \<le> 23 \<Longrightarrow>
     cstr_ok (fst (take_name p nm)) \<and> length (fst (take_name p nm)) \<le> 23 \<and> cstr_ok (snd (take_name p nm))"
  by (induction p nm rule: take_name.induct) (auto simp: cstr_ok_def)

lemma cstr_ok_Nil [simp]: "cstr_ok []"
  by (simp add: cstr_ok_def)

lemma take_name_length: "length (snd (take_name p nm)) \<le> length p"
  by (induction p nm rule: take_name.induct) auto

text \<open>The first half of \<^verbatim>\<open>write\<close>: a file of the name is removed.\<close>

definition cleared :: "cstr \<Rightarrow> fs \<Rightarrow> fs" where
  "cleared nm f = (if 0 \<le> fst (fs_open nm f)
     then snd (fs_unlink nm (snd (fs_close (fst (fs_open nm f)) (snd (fs_open nm f))))) else snd (fs_open nm f))"

definition a_cleared :: "cstr \<Rightarrow> afs \<Rightarrow> afs" where
  "a_cleared nm A = (case a_names A nm of None \<Rightarrow> A
     | Some i \<Rightarrow> A\<lparr>a_names := (a_names A)(nm := None), a_files := (a_files A)(i := None),
                   a_free := a_free A + nblocks (length (the (a_files A i)))\<rparr>)"

lemma cleared_sim:
  assumes f: "idle f" and nm: "cstr_ok nm"
  shows "idle (cleared nm f)" "abs_fs (cleared nm f) = a_cleared nm (abs_fs f)"
proof -
  have "idle (cleared nm f) \<and> abs_fs (cleared nm f) = a_cleared nm (abs_fs f)"
  proof (cases "a_names (abs_fs f) nm")
    case None
    then show ?thesis using idle_open(1) [OF f nm] by (simp add: cleared_def a_cleared_def)
  next
    case (Some i)
    let ?c = "snd (fs_close 0 (snd (fs_open nm f)))"
    have o: "fst (fs_open nm f) = 0" "opened (abs_fs f) i 0 (snd (fs_open nm f))"
      using idle_open(2) [OF f nm Some] by simp_all
    note C = opened_close [OF o(2)]
    have "a_open (abs_fs f) = Map.empty" using f by (simp add: idle_def)
    then have "snd (a_unlink nm (abs_fs ?c)) = a_cleared nm (abs_fs f)"
      using C(2) Some by (simp add: a_unlink_def a_cleared_def)
    then show ?thesis using idle_unlink [OF C(1) nm] o(1) by (simp add: cleared_def)
  qed
  then show "idle (cleared nm f)" "abs_fs (cleared nm f) = a_cleared nm (abs_fs f)" by simp_all
qed

text \<open>The second half: a new file with the text, as far as there are blocks for it.\<close>

definition a_stored :: "cstr \<Rightarrow> u8 list \<Rightarrow> afs \<Rightarrow> afs" where
  "a_stored nm txt A = (case for_find (\<lambda>i. a_files A i = None) 1 64 of None \<Rightarrow> A
     | Some j \<Rightarrow>
         (let w = min (length txt) (min 32768 (a_free A * 4096)) in
          A\<lparr>a_names := (a_names A)(nm \<mapsto> j), a_files := (a_files A)(j \<mapsto> take w txt), a_free := a_free A - nblocks w\<rparr>))"

lemma a_cleared_name: "a_names (a_cleared nm A) nm = None"
  by (simp add: a_cleared_def split: option.splits)

lemma map_c_at: "w \<le> length s \<Longrightarrow> map (c_at s) [0..<w] = take w s"
  by (rule nth_equalityI) (auto simp: c_at_def)

lemma wrote_line: "vga_printf (bytes ''  Wrote %d bytes.'' @ [0x0A]) [VInt n] v \<noteq> None"
  by (simp add: bytes_def printf_conv_def)

text \<open>Creating, opening, writing and closing on a consistent file system that has no file of the name.\<close>

lemma store_sim:
  assumes f: "idle f" and nm: "cstr_ok nm" "nm \<noteq> []" "length nm \<le> 23" "a_names (abs_fs f) nm = None"
    and len: "length txt < 2 ^ 32"
  defines "f1 \<equiv> snd (fs_create (Some nm) f)"
  defines "f2 \<equiv> snd (fs_open nm f1)"
  defines "f3 \<equiv> snd (fs_write 0 (Some (c_at txt)) (of_nat (length txt)) f2)"
  shows "fst (fs_create (Some nm) f) < 0 \<Longrightarrow> idle f1 \<and> abs_fs f1 = a_stored nm txt (abs_fs f)"
    and "0 \<le> fst (fs_create (Some nm) f) \<Longrightarrow> fst (fs_open nm f1) = 0
      \<and> 0 \<le> fst (fs_write 0 (Some (c_at txt)) (of_nat (length txt)) f2)
      \<and> idle (snd (fs_close 0 f3)) \<and> abs_fs (snd (fs_close 0 f3)) = a_stored nm txt (abs_fs f)"
proof -
  note C = idle_create [OF f nm(1)]
  have cr: "a_create (Some nm) (abs_fs f) = (case for_find (\<lambda>i. a_files (abs_fs f) i = None) 1 64 of
      None \<Rightarrow> (-3, abs_fs f)
    | Some j \<Rightarrow> (int j, (abs_fs f)\<lparr>a_names := (a_names (abs_fs f))(nm \<mapsto> j), a_files := (a_files (abs_fs f))(j \<mapsto> [])\<rparr>))"
    using nm by (simp add: a_create_def)
  show "idle f1 \<and> abs_fs f1 = a_stored nm txt (abs_fs f)" if "fst (fs_create (Some nm) f) < 0"
    using C cr that by (simp add: f1_def a_stored_def split: option.splits)
  show "fst (fs_open nm f1) = 0 \<and> 0 \<le> fst (fs_write 0 (Some (c_at txt)) (of_nat (length txt)) f2)
      \<and> idle (snd (fs_close 0 f3)) \<and> abs_fs (snd (fs_close 0 f3)) = a_stored nm txt (abs_fs f)"
    if r: "0 \<le> fst (fs_create (Some nm) f)"
  proof -
    obtain j where j: "for_find (\<lambda>i. a_files (abs_fs f) i = None) 1 64 = Some j"
      using C(2) cr r by (auto split: option.splits)
    let ?A = "(abs_fs f)\<lparr>a_names := (a_names (abs_fs f))(nm \<mapsto> j), a_files := (a_files (abs_fs f))(j \<mapsto> [])\<rparr>"
    have A: "abs_fs f1 = ?A" "idle f1" using C cr j by (simp_all add: f1_def)
    have o: "fst (fs_open nm f1) = 0" "opened ?A j 0 f2"
      using idle_open(2) [OF A(2) nm(1), of j] A(1) by (simp_all add: f2_def)
    have k: "unat (of_nat (length txt) :: u32) = length txt" using len by (simp add: unsigned_of_nat take_bit_nat_eq_self)
    have c: "a_files ?A j = Some []" by simp
    note W = opened_write [OF o(2) c HOL.refl, where src = "c_at txt" and k = "of_nat (length txt)", unfolded k]
    show ?thesis
      using o(1) W opened_close [OF W(2)] j
      by (simp add: f3_def a_stored_def Let_def map_c_at)
  qed
qed

lemma write_code:
  assumes "\<not> no_name (Some args)" "take_name (sh_ltrim args) [] = (nm, p)" "c_at nm 0 \<noteq> 0" "c_at (sh_ltrim p) 0 \<noteq> 0"
  shows "cmd_fs_write (Some args) s =
    (let f = cleared nm (fsys s); r = fs_create (Some nm) f; op = fs_open nm (snd r);
         wr = fs_write (fst op) (Some (c_at (sh_ltrim p))) (sh_strlen (sh_ltrim p)) (snd op);
         f4 = snd (fs_close (fst op) (snd wr))
     in if fst r < 0 then Some (sh_put_color (bytes ''  Could not create file.'' @ [0x0A]) VGA_LIGHT_RED (s\<lparr>fsys := snd r\<rparr>))
        else if fst op < 0 then Some (sh_put_color (bytes ''  Could not open file.'' @ [0x0A]) VGA_LIGHT_RED (s\<lparr>fsys := snd op\<rparr>))
        else if fst wr < 0 then Some (sh_put_color (bytes ''  Write failed.'' @ [0x0A]) VGA_LIGHT_RED (s\<lparr>fsys := f4\<rparr>))
        else sh_printf (bytes ''  Wrote %d bytes.'' @ [0x0A]) [VInt (of_int (fst wr))] (s\<lparr>fsys := f4\<rparr>))"
  using assms by (simp add: cmd_fs_write_def Let_def split_beta cleared_def)

lemma sh_strlen_pos: "cstr_ok p \<Longrightarrow> p \<noteq> [] \<Longrightarrow> c_at p 0 \<noteq> 0"
  by (simp add: c_at_0_iff)

lemma cmd_write_run:
  assumes f: "idle (fsys s)" and args: "cstr_ok args" "length args < 2 ^ 32"
    and name: "take_name (sh_ltrim args) [] = (nm, p)" "nm \<noteq> []" "sh_ltrim p \<noteq> []"
  shows "\<exists>f' v'. cmd_fs_write (Some args) s = Some (s\<lparr>fsys := f', screen := v'\<rparr>) \<and> idle f'
     \<and> abs_fs f' = a_stored nm (sh_ltrim p) (a_cleared nm (abs_fs (fsys s)))
     \<and> (vga_ok (screen s) \<longrightarrow> vga_ok v')"
proof -
  let ?txt = "sh_ltrim p" let ?f = "cleared nm (fsys s)"
  have nm: "cstr_ok nm" "length nm \<le> 23" and p: "cstr_ok p"
    using take_name_props [of "sh_ltrim args" "[]"] args(1) name(1) by (simp_all add: cstr_ok_ltrim cstr_ok_Nil)
  have tok: "cstr_ok ?txt" using p by (rule cstr_ok_ltrim)
  have "length p \<le> length args"
    using take_name_length [of "sh_ltrim args" "[]"] name(1) length_dropWhile_le [of "\<lambda>c. c = 0x20" args]
    by (simp add: sh_ltrim_dropWhile)
  then have len: "length ?txt < 2 ^ 32"
    using args(2) length_dropWhile_le [of "\<lambda>c. c = 0x20" p] by (simp add: sh_ltrim_dropWhile)
  have "\<not> no_name (Some args)" using args(1) name by (auto simp: no_name_def c_at_0_iff)
  note code = write_code [OF this name(1) sh_strlen_pos [OF nm(1) name(2)] sh_strlen_pos [OF tok name(3)], of s]
  note C = cleared_sim [OF f nm(1)]
  have free: "a_names (abs_fs ?f) nm = None" by (simp add: C(2) a_cleared_name)
  note S = store_sim [OF C(1) nm(1) name(2) nm(2) free len, unfolded C(2)]
  show ?thesis
  proof (cases "fst (fs_create (Some nm) ?f) < 0")
    case True
    let ?v = "vga_puts_color (Some (bytes ''  Could not create file.'' @ [0x0A])) VGA_LIGHT_RED VGA_BLACK (screen s)"
    have "cmd_fs_write (Some args) s = Some (s\<lparr>fsys := snd (fs_create (Some nm) ?f), screen := ?v\<rparr>)"
      using True code by (simp add: Let_def sh_put_color_def)
    moreover have "vga_ok (screen s) \<Longrightarrow> vga_ok ?v"
      using vga_safe_ok [OF vga_puts_color_safe] .
    ultimately show ?thesis using S(1) [OF True] by blast
  next
    case False
    let ?wr = "fs_write 0 (Some (c_at ?txt)) (of_nat (length ?txt)) (snd (fs_open nm (snd (fs_create (Some nm) ?f))))"
    obtain v where v: "vga_printf (bytes ''  Wrote %d bytes.'' @ [0x0A]) [VInt (of_int (fst ?wr))] (screen s) = Some v"
      using wrote_line by blast
    have "cmd_fs_write (Some args) s = Some (s\<lparr>fsys := snd (fs_close 0 (snd ?wr)), screen := v\<rparr>)"
      using code S(2) False v by (simp add: Let_def sh_printf_def sh_strlen_length [OF tok])
    then show ?thesis
      using S(2) False vga_printf_safe [OF v] by auto
  qed
qed

text \<open>The names and contents afterwards: only the file of this name is different.\<close>

lemma stored_files:
  assumes f: "idle f" and f': "abs_fs f' = a_stored nm txt (a_cleared nm (abs_fs f))"
    and len: "length txt \<le> 4096" and free: "0 < a_free (abs_fs f)"
    and room: "file_of f nm \<noteq> None \<or> (\<exists>i. 1 \<le> i \<and> i < 64 \<and> a_files (abs_fs f) i = None)"
  shows "file_of f' = (file_of f)(nm \<mapsto> txt)"
proof -
  let ?A = "abs_fs f" let ?B = "a_cleared nm ?A"
  have ok: "fs_ok f" using f by (simp add: idle_def)
  have "\<exists>i. 1 \<le> i \<and> i < 64 \<and> a_files ?B i = None"
  proof (cases "a_names ?A nm")
    case None
    then show ?thesis using room file_of_None [OF ok] by (simp add: a_cleared_def)
  next
    case (Some i)
    have "is_file (view (disk f)) i"
      using ok Some by (auto simp: fs_ok_def Let_def abs_names_Some inv_dir_def abs_fs_def)
    then show ?thesis using Some by (auto simp: a_cleared_def is_file_def)
  qed
  then obtain j where j: "for_find (\<lambda>i. a_files ?B i = None) 1 64 = Some j"
    using for_find_None_iff [of "\<lambda>i. a_files ?B i = None" 1 64] by (cases "for_find (\<lambda>i. a_files ?B i = None) 1 64") auto
  then have jfree: "a_files ?B j = None" by (rule for_find_SomeD)
  have "min (length txt) (min 32768 (a_free ?B * 4096)) = length txt"
    using len free by (auto simp: a_cleared_def split: option.splits)
  then have B: "a_names (abs_fs f') = (a_names ?B)(nm \<mapsto> j)" "a_files (abs_fs f') = (a_files ?B)(j \<mapsto> txt)"
    using f' j by (simp_all add: a_stored_def)
  show ?thesis
  proof
    fix k
    show "file_of f' k = ((file_of f)(nm \<mapsto> txt)) k"
    proof (cases "k = nm \<or> a_names ?A k = None")
      case True
      then show ?thesis by (auto simp: file_of_def B a_cleared_def split: option.splits)
    next
      case False
      then obtain i c where i: "a_names ?A k = Some i" "a_files ?A i = Some c" "k \<noteq> nm"
        using afs_bound [OF ok] by blast
      then have "a_names ?A nm \<noteq> Some i" using afs_injective [OF ok] by blast
      then have "a_files ?B i = Some c" "a_names ?B k = Some i"
        using i by (auto simp: a_cleared_def split: option.splits)
      moreover from this have "i \<noteq> j" using jfree by auto
      ultimately show ?thesis using i by (simp add: file_of_def B)
    qed
  qed
qed

lemma take_name_word:
  "0 \<notin> set nm \<Longrightarrow> 0x20 \<notin> set nm \<Longrightarrow> length acc + length nm \<le> 23 \<Longrightarrow>
     take_name (nm @ 0x20 # p) acc = (acc @ nm, 0x20 # p)"
  by (induction nm arbitrary: acc) auto

lemma take_name_long:
  "0 \<notin> set nm \<Longrightarrow> 0x20 \<notin> set nm \<Longrightarrow> length acc \<le> 23 \<Longrightarrow> 23 \<le> length acc + length nm \<Longrightarrow>
     take_name nm acc = (acc @ take (23 - length acc) nm, drop (23 - length acc) nm)"
proof (induction nm arbitrary: acc)
  case (Cons c nm)
  show ?case
  proof (cases "length acc = 23")
    case False
    then obtain k where k: "23 - length acc = Suc k" "23 - Suc (length acc) = k"
      using Cons.prems(3) by (metis Suc_diff_Suc le_neq_implies_less)
    with False Cons show ?thesis by simp
  qed (use Cons in simp)
qed simp

lemma sh_ltrim_spaces: "sh_ltrim (replicate k 0x20 @ txt) = sh_ltrim txt"
  by (induction k) auto

lemma sh_ltrim_start: "xs \<noteq> [] \<Longrightarrow> hd xs \<noteq> 0x20 \<Longrightarrow> sh_ltrim (xs @ ys) = xs @ ys"
  by (cases xs) auto

end
