(* ===== verification/ShellProps.thy ===== *)
theory ShellProps
  imports ShellFiles
begin

text \<open>
  What the shell promises: the file commands, the process commands, and that no line of input makes the
  kernel fail or leaves it in an inconsistent state.
\<close>

section \<open>The screen\<close>

named_theorems screen_ok \<open>operations that keep the cursor on the screen\<close>

lemmas [screen_ok] =
  vga_safe_ok [OF vga_puts_safe] vga_safe_ok [OF vga_puts_color_safe] vga_safe_ok [OF vga_set_color_safe]
  vga_safe_ok [OF vga_clear_safe] vga_safe_ok [OF vga_putchar_safe] vga_safe_ok [OF puts_loop_safe]
  vga_safe_ok [OF cat_show_safe]

lemma vga_write_cell_ok [screen_ok]: "vga_ok v \<Longrightarrow> vga_ok (vga_write_cell r c b a v)"
  by (simp add: vga_ok_def vga_write_cell_def)

lemma vga_set_cursor_ok [screen_ok]: "vga_ok v \<Longrightarrow> vga_ok (vga_set_cursor r c v)"
  using vga_safe_ok [OF vga_set_cursor_safe] .

lemma vga_draw_box_ok [screen_ok]: "vga_ok v \<Longrightarrow> vga_ok (vga_draw_box r c h w col v)"
proof -
  assume v: "vga_ok v"
  have attr: "vga_ok (u\<lparr>cur_attr := a\<rparr>) = vga_ok u" for u a by (simp add: vga_ok_def)
  have loop: "vga_ok u \<Longrightarrow> vga_ok (for_do f 0 n u)" if "\<And>k u. vga_ok u \<Longrightarrow> vga_ok (f k u)" for f n u
    using that by (intro for_do_invariant [where P = "\<lambda>_. vga_ok"]) simp_all
  show ?thesis
    unfolding vga_draw_box_def Let_def attr
    by (intro loop screen_ok v)
qed

lemma cmd_text_ok [screen_ok]:
  "vga_ok v \<Longrightarrow> vga_ok (cmd_help v)" "vga_ok v \<Longrightarrow> vga_ok (cmd_clear v)" "vga_ok v \<Longrightarrow> vga_ok (cmd_about v)"
  "vga_ok v \<Longrightarrow> vga_ok (cmd_mem v)" "vga_ok v \<Longrightarrow> vga_ok (cmd_echo s v)" "vga_ok v \<Longrightarrow> vga_ok (print_splash v)"
  by (simp_all add: cmd_help_def cmd_clear_def cmd_about_def cmd_mem_def cmd_echo_def print_splash_def Let_def screen_ok)

section \<open>The state between two commands\<close>

definition shell_ok :: "'a shell_scheme \<Rightarrow> bool" where
  "shell_ok s \<longleftrightarrow> idle (fsys s) \<and> vga_ok (screen s) \<and> length (process_table s) = 16
     \<and> current_pid s = 0 \<and> state (process_table s ! 0) = PROCESS_RUNNING"

definition fine :: "'a shell_scheme option \<Rightarrow> bool" where
  "fine r \<longleftrightarrow> (\<exists>s. r = Some s \<and> shell_ok s)"

lemma fine_Some [simp]: "fine (Some s) = shell_ok s" "\<not> fine None"
  by (simp_all add: fine_def)







section \<open>Every command keeps it\<close>



lemma kill_format: "vga_printf (bytes ''  Process %d terminated'' @ [0x0A]) [VInt i] v \<noteq> None"
  by (simp add: bytes_def printf_conv_def)




lemma set_pcb_shell [simp]: "fsys (set_pcb i f s) = fsys s" "screen (set_pcb i f s) = screen s"
  by (simp_all add: set_pcb_def)

lemma shell_ok_set_pcb: "shell_ok s \<Longrightarrow> 0 < i \<Longrightarrow> shell_ok (set_pcb i f s)"
  by (auto simp: shell_ok_def set_pcb_def nth_list_update)


lemma shell_ok_create:
  assumes "shell_ok s"
  shows "shell_ok (snd (process_create stacks nm entry s))"
proof (cases "first_free s")
  case None
  with assms show ?thesis by (simp add: process_create_none)
next
  case (Some slot)
  then have pos: "0 < slot" by (auto simp: first_free_def dest: for_find_SomeD)
  obtain e m where "process_create stacks nm entry s = (int slot, set_pcb slot
      (\<lambda>p. p\<lparr>pid := of_nat slot, state := PROCESS_READY, esp := e, stack := stacks + of_nat slot * 4096,
         name := proc_strncpy (name p) nm 32\<rparr>) (s\<lparr>ram := m\<rparr>))"
    using process_create_Some [OF Some] assms unfolding shell_ok_def by blast
  moreover have "shell_ok (s\<lparr>ram := m\<rparr>)" using assms by (simp add: shell_ok_def)
  ultimately show ?thesis using pos by (simp add: shell_ok_set_pcb)
qed

















section \<open>The kernel from power-on\<close>




lemma process_create_shell:
  "fsys (snd (process_create stacks nm entry s)) = fsys s" "screen (snd (process_create stacks nm entry s)) = screen s"
  by (auto simp: process_create_def Let_def split: option.splits prod.splits)

lemma fs_init_screen: "vga_ok v \<Longrightarrow> vga_ok (snd (fs_init f v))"
  by (simp add: fs_init_def Let_def screen_ok)

lemma kernel_boot_ok:
  assumes "kernel_boot L ins s = Some (ins', s')"
  shows "shell_ok s'" "abs_fs (fsys s') = a_init"
proof -
  define t where "t = s\<lparr>screen := vga_init (screen s), port_log := pit_init (pic_init (port_log s)),
    idtab := idt_set_gate 32 (l_irq0 L) 0x08 0x8E (idt_init (l_idt L) (l_irq0 L) (l_irq1 L) (idtab s)), frames := pmm_init (ram s) (l_kernel_end L) (frames s)\<rparr>"
  define u where "u = process_init (t\<lparr>fsys := fst (fs_init (fsys s) (vga_init (screen s))),
    screen := snd (fs_init (fsys s) (vga_init (screen s)))\<rparr>)"
  define w where "w = snd (process_create (l_stacks L) (bytes ''task_b'') (l_task_b L)
      (snd (process_create (l_stacks L) (bytes ''task_a'') (l_task_a L) u)))"
  have init: "fs_ok (fst (fs_init f v))" "abs_fs (fst (fs_init f v)) = a_init" for f v
    using fs_init_sim by blast+
  have u: "shell_ok u" "abs_fs (fsys u) = a_init"
    by (simp_all add: u_def t_def process_init_def Let_def shell_ok_def idle_def init fs_init_screen vga_init_ok set_pcb_def zero_pcb_def)
      (simp add: a_init_def)
  have w: "shell_ok w" "abs_fs (fsys w) = a_init"
    using u by (simp_all add: w_def shell_ok_create process_create_shell)
  have "s' = w\<lparr>screen := print_splash (screen w), irqs_on := True\<rparr>"
    using assms by (simp add: kernel_boot_def w_def u_def t_def Let_def split_beta split: option.splits)
  with w show "shell_ok s'" "abs_fs (fsys s') = a_init"
    by (simp_all add: shell_ok_def screen_ok)
qed

section \<open>Commands by their words\<close>

lemma cstr_ok_words [simp]:
  "cstr_ok (bytes ''help'')" "cstr_ok (bytes ''clear'')" "cstr_ok (bytes ''about'')" "cstr_ok (bytes ''mem'')"
  "cstr_ok (bytes ''echo '')" "cstr_ok (bytes ''ps'')" "cstr_ok (bytes ''kill '')" "cstr_ok (bytes ''race'')"
  "cstr_ok (bytes ''racem'')" "cstr_ok (bytes ''meminfo'')" "cstr_ok (bytes ''ls'')" "cstr_ok (bytes ''touch '')"
  "cstr_ok (bytes ''cat '')" "cstr_ok (bytes ''write '')" "cstr_ok (bytes ''rm '')" "cstr_ok (bytes ''unlink '')"
  by (simp_all add: cstr_ok_def bytes_def)

lemma sh_word: "cstr_ok a \<Longrightarrow> cstr_ok (bytes w) \<Longrightarrow> sh_strcmp a (bytes w) = 0 \<longleftrightarrow> a = bytes w"
  by (rule sh_strcmp_eq)

lemma sh_prefix:
  "cstr_ok a \<Longrightarrow> cstr_ok (bytes w) \<Longrightarrow> unat n = length w \<Longrightarrow>
     sh_strncmp a (bytes w) n = 0 \<longleftrightarrow> take (length w) a = bytes w"
  using sh_strncmp_prefix [of a "bytes w" n] by simp

lemma sh_strlen_0: "cstr_ok a \<Longrightarrow> length a < 2 ^ 32 \<Longrightarrow> sh_strlen a = 0 \<longleftrightarrow> a = []"
  by (auto simp: sh_strlen_length word_of_nat_eq_0_iff dest: dvd_imp_le)

lemma cstr_ok_append: "cstr_ok (a @ b) \<longleftrightarrow> cstr_ok a \<and> cstr_ok b"
  by (auto simp: cstr_ok_def)

lemma ch_eq: "ch c = ch d \<longleftrightarrow> c = d"
proof -
  have "unat (ch x) = of_char x" for x
  proof -
    have "ch x = (of_nat (of_char x :: nat) :: u8)" by (rule of_nat_of_char [symmetric])
    also have "unat \<dots> = of_char x" using nat_of_char_less_256 [of x] by (simp add: unsigned_of_nat take_bit_nat_eq_self)
    finally show ?thesis .
  qed
  then show ?thesis by (metis of_char_eq_iff)
qed

lemma bytes_Cons: "bytes (c # cs) = ch c # bytes cs" "bytes [] = []"
  by (simp_all add: bytes_def)

lemmas words = bytes_Cons ch_eq

lemma word_differs: "c \<noteq> d \<Longrightarrow> sh_strcmp (bytes (c # cs) @ r) (bytes (d # ds)) \<noteq> 0"
  using ch_eq [of c d] by (auto simp: bytes_Cons c_at_def word_uint_eq_iff)

lemma prefix_differs: "c \<noteq> d \<Longrightarrow> n \<noteq> 0 \<Longrightarrow> sh_strncmp (bytes (c # cs) @ r) (bytes (d # ds)) n \<noteq> 0"
  using ch_eq [of c d] word_uint_eq_iff [of "ch c" "ch d"]
  by (subst sh_strncmp.simps) (auto simp: bytes_Cons c_at_def Let_def)

lemma prefix_same:
  assumes "cstr_ok r" "cstr_ok (bytes w)" "unat n = length w"
  shows "sh_strncmp (bytes w @ r) (bytes w) n = 0"
  using assms by (subst sh_prefix) (simp_all add: cstr_ok_append)

lemma line_not_empty: "sh_strlen (bytes (c # cs) @ r) = 0 \<Longrightarrow> cstr_ok (bytes (c # cs) @ r) \<Longrightarrow> 2 ^ 32 \<le> length (bytes (c # cs) @ r)"
  by (rule ccontr) (simp only: not_le sh_strlen_0, simp add: bytes_Cons)

lemma dispatch_write:
  assumes "cstr_ok r" "length r < 2 ^ 31"
  shows "shell_dispatch L buf (bytes ''write '' @ r) s = cmd_fs_write (Some (sh_ltrim r)) s"
proof -
  let ?l = "bytes ''write '' @ r"
  have l: "sh_ltrim ?l = ?l" "drop 6 ?l = r" by (simp_all add: bytes_def)
  have ne: "sh_strlen ?l \<noteq> 0" using line_not_empty [of _ _ r] assms by (fastforce simp: cstr_ok_append)
  show ?thesis
    unfolding shell_dispatch_def shell_files_def l Let_def
    using prefix_same [OF assms(1), of "''write ''" 6]
    by (simp add: ne word_differs prefix_differs l)
qed

lemma dispatch_cat:
  assumes "cstr_ok r" "length r < 2 ^ 31"
  shows "shell_dispatch L buf (bytes ''cat '' @ r) s = cmd_fs_cat (Some (sh_ltrim r)) buf s"
proof -
  let ?l = "bytes ''cat '' @ r"
  have l: "sh_ltrim ?l = ?l" "drop 4 ?l = r" by (simp_all add: bytes_def)
  have ok: "cstr_ok ?l" using assms by (simp add: cstr_ok_append)
  have ne: "sh_strlen ?l \<noteq> 0" using line_not_empty [of _ _ r] assms by (fastforce simp: cstr_ok_append)
  have "sh_strcmp ?l (bytes ''clear'') \<noteq> 0" unfolding sh_word [OF ok cstr_ok_words(2)] by (simp add: words)
  then show ?thesis
    unfolding shell_dispatch_def shell_files_def l Let_def
    using prefix_same [OF assms(1), of "''cat ''" 4]
    by (simp add: ne word_differs prefix_differs l)
qed

section \<open>A booted kernel\<close>

text \<open>Memory and link addresses for the examples: everything zero, the kernel's code and stacks above 64 KiB.\<close>

definition zero_kernel :: kernel where
  "zero_kernel = \<lparr>process_table = [], current_pid = 0, ram = \<lambda>_. 0,
     mtx = \<lparr>locked = 0, owner = 0, waiters = replicate 16 0, nwaiters = 0\<rparr>,
     myglobal = 0, race_done = 0, screen = blank_vga, threads = Map.empty,
     fsys = \<lparr>disk = \<lambda>_. 0, fds = \<lambda>_. zero_file\<rparr>,
     frames = \<lparr>pmm_bitmap = \<lambda>_. 0, total_frames = 0, free_frames = 0\<rparr>,
     idtab = \<lparr>idt_mem = \<lambda>_. 0, idt_limit = 0, idt_base = 0, lidt = None\<rparr>, port_log = [], irqs_on = False\<rparr>"

definition demo_links :: links where
  "demo_links = \<lparr>l_stacks = 0x20000, l_race_a = 0x10234, l_race_b = 0x10300, l_racem_a = 0x10400,
     l_racem_b = 0x10500, l_task_a = 0x10600, l_task_b = 0x10700, l_kernel_end = 0x40000, l_idt = 0x18000,
     l_irq0 = 0x11000, l_irq1 = 0x11100\<rparr>"

text \<open>The status byte 0 says that no key is waiting.\<close>

definition booted :: kernel where
  "booted = snd (the (kernel_boot demo_links [0] zero_kernel))"

lemma boot_returns: "kernel_boot L [0] s = Some ([], snd (the (kernel_boot L [0] s)))"
  by (simp add: kernel_boot_def Let_def split_beta)

lemma booted_ok: "shell_ok booted" "idle (fsys booted)" "abs_fs (fsys booted) = a_init" "file_of (fsys booted) = Map.empty"
  using kernel_boot_ok [OF boot_returns, of demo_links zero_kernel]
  by (simp_all add: booted_def shell_ok_def file_of_def a_init_def fun_eq_iff)

section \<open>Properties\<close>



text \<open>C5. \<^verbatim>\<open>write NAME TEXT\<close> makes TEXT the contents of NAME, replacing an older file, and leaves every other
  file alone; \<^verbatim>\<open>cat NAME\<close> then prints two spaces, exactly TEXT and a newline, and changes no file. The text
  may be as long as a block; a block and, for a new name, an inode have to be free.\<close>

theorem shell_write_then_cat:
  assumes s: "idle (fsys s)"
    and nm: "cstr_ok nm" "nm \<noteq> []" "0x20 \<notin> set nm" "length nm \<le> 23"
    and tx: "cstr_ok tx" "tx \<noteq> []" "hd tx \<noteq> 0x20" "length tx \<le> 4096"
    and free: "0 < a_free (abs_fs (fsys s))"
    and room: "file_of (fsys s) nm \<noteq> None \<or> (\<exists>i. 1 \<le> i \<and> i < 64 \<and> a_files (abs_fs (fsys s)) i = None)"
  shows "\<exists>s1 s2. shell_dispatch L buf (bytes ''write '' @ nm @ 0x20 # tx) s = Some s1
     \<and> file_of (fsys s1) = (file_of (fsys s))(nm \<mapsto> tx)
     \<and> shell_dispatch L buf' (bytes ''cat '' @ nm) s1 = Some s2
     \<and> screen s2 = vga_putchar 0x0A (puts_loop tx (puts_loop (bytes ''  '') (screen s1)))
     \<and> file_of (fsys s2) = file_of (fsys s1)"
proof -
  let ?r = "nm @ 0x20 # tx"
  have "hd nm \<noteq> 0x20" using nm(2,3) by (metis list.set_sel(1))
  then have trim: "sh_ltrim ?r = ?r" "sh_ltrim nm = nm" "sh_ltrim (0x20 # tx) = tx"
    using nm(2) tx(2,3) sh_ltrim_start [of nm "0x20 # tx"] sh_ltrim_start [of nm "[]"] sh_ltrim_start [of tx "[]"] by auto
  have r: "cstr_ok ?r" "length ?r < 2 ^ 31" "length ?r < 2 ^ 32" using nm(1,4) tx(1,4) by (auto simp: cstr_ok_def)
  have name: "take_name (sh_ltrim ?r) [] = (nm, 0x20 # tx)"
    unfolding trim using nm take_name_word [of nm "[]" tx] by (simp add: cstr_ok_def)
  obtain f v where w: "cmd_fs_write (Some ?r) s = Some (s\<lparr>fsys := f, screen := v\<rparr>)" "idle f"
      "abs_fs f = a_stored nm tx (a_cleared nm (abs_fs (fsys s)))"
    using cmd_write_run [OF s r(1,3) name nm(2)] tx(2) unfolding trim by blast
  let ?s1 = "s\<lparr>fsys := f, screen := v\<rparr>"
  have files: "file_of f = (file_of (fsys s))(nm \<mapsto> tx)" using stored_files [OF s w(3) tx(4) free room] .
  obtain g where c: "cmd_fs_cat (Some nm) buf' ?s1
      = Some (?s1\<lparr>fsys := g, screen := vga_putchar 0x0A (cat_show tx (puts_loop (bytes ''  '') v))\<rparr>)" "abs_fs g = abs_fs f"
    using cmd_cat_run(1) [of ?s1 nm tx buf'] w(2) nm(1,2) files by auto
  have d: "shell_dispatch L buf (bytes ''write '' @ ?r) s = Some ?s1"
    "shell_dispatch L buf' (bytes ''cat '' @ nm) ?s1
       = Some (?s1\<lparr>fsys := g, screen := vga_putchar 0x0A (puts_loop tx (puts_loop (bytes ''  '') v))\<rparr>)"
    using dispatch_write [OF r(1,2), where s = s] dispatch_cat [of nm, where s = ?s1] w(1) c(1) nm(1,4) by (simp_all add: trim cat_show_text tx(1))
  show ?thesis using d files c(2) by (auto simp: file_of_def fun_eq_iff)
qed

theorem shell_write_then_cat_witness:
  "\<exists>s1 s2. shell_dispatch demo_links (\<lambda>_. 0) (bytes ''write '' @ [0x61] @ 0x20 # [0x68, 0x69]) booted = Some s1
     \<and> file_of (fsys s1) [0x61] = Some [0x68, 0x69]
     \<and> shell_dispatch demo_links (\<lambda>_. 0) (bytes ''cat '' @ [0x61]) s1 = Some s2
     \<and> screen s2 = vga_putchar 0x0A (puts_loop [0x68, 0x69] (puts_loop (bytes ''  '') (screen s1)))"
  using shell_write_then_cat [OF booted_ok(2), of "[0x61]" "[0x68, 0x69]" demo_links "\<lambda>_. 0" "\<lambda>_. 0"]
  by (force simp: cstr_ok_def booted_ok a_init_def)

text \<open>A file name of more than 23 characters is not refused: \<^verbatim>\<open>write NAME\<close>, which has no text and should
  print its usage, creates the file named by the first 23 characters and puts the rest of the name into
  it.\<close>

theorem cmd_write_splits_long_name:
  assumes s: "idle (fsys s)"
    and nm: "cstr_ok nm" "0x20 \<notin> set nm" "23 < length nm" "length nm \<le> 256"
    and free: "0 < a_free (abs_fs (fsys s))"
    and room: "\<exists>i. 1 \<le> i \<and> i < 64 \<and> a_files (abs_fs (fsys s)) i = None"
  shows "\<exists>s'. cmd_fs_write (Some nm) s = Some s'
     \<and> file_of (fsys s') = (file_of (fsys s))(take 23 nm \<mapsto> drop 23 nm)"
proof -
  have ne: "nm \<noteq> []" "drop 23 nm \<noteq> []" using nm(3) by auto
  have "hd nm \<noteq> 0x20" "hd (drop 23 nm) \<noteq> 0x20"
    using ne nm(2) by (metis list.set_sel(1)) (metis ne(2) nm(2) in_set_dropD list.set_sel(1))
  then have trim: "sh_ltrim nm = nm" "sh_ltrim (drop 23 nm) = drop 23 nm"
    using ne sh_ltrim_start [of nm "[]"] sh_ltrim_start [of "drop 23 nm" "[]"] by auto
  have name: "take_name (sh_ltrim nm) [] = (take 23 nm, drop 23 nm)"
    unfolding trim using nm take_name_long [of nm "[]"] by (simp add: cstr_ok_def)
  have len: "length nm < 2 ^ 32" "length (drop 23 nm) \<le> 4096" using nm(4) by simp_all
  obtain f v where w: "cmd_fs_write (Some nm) s = Some (s\<lparr>fsys := f, screen := v\<rparr>)" 
      "abs_fs f = a_stored (take 23 nm) (drop 23 nm) (a_cleared (take 23 nm) (abs_fs (fsys s)))"
    using cmd_write_run [OF s nm(1) len(1) name] ne unfolding trim by auto
  have "file_of f = (file_of (fsys s))(take 23 nm \<mapsto> drop 23 nm)"
    using stored_files [OF s w(2) len(2) free] room by blast
  with w(1) show ?thesis by simp
qed

theorem cmd_write_splits_long_name_witness:
  "\<exists>s'. cmd_fs_write (Some (replicate 25 0x61)) booted = Some s' \<and> file_of (fsys s') (replicate 23 0x61) = Some [0x61, 0x61]"
proof -
  have "drop 23 (replicate 25 (0x61 :: u8)) = [0x61, 0x61]" "take 23 (replicate 25 (0x61 :: u8)) = replicate 23 0x61"
    by (simp_all add: numeral_2_eq_2)
  moreover have "\<exists>i. 1 \<le> i \<and> i < 64 \<and> a_files (abs_fs (fsys booted)) i = None"
    by (rule exI [of _ 1]) (simp add: booted_ok a_init_def)
  ultimately show ?thesis
    using cmd_write_splits_long_name [OF booted_ok(2), of "replicate 25 0x61"]
    by (auto simp: cstr_ok_def booted_ok a_init_def)
qed

text \<open>\<^verbatim>\<open>ps\<close> uses a field width that \<^verbatim>\<open>vga_printf\<close> does not have: a line shows the pid, the text
  \<^verbatim>\<open>-10s\<close> in the state column and the state in the name column, and never the name of the process.\<close>

theorem ps_line_misses_name:
  assumes "state (process_table s ! i) \<noteq> PROCESS_FREE"
  shows "ps_line i s = sh_printf (bytes ''  %d    -10s  %s'' @ [0x0A])
     [VInt (pid (process_table s ! i)), VStr None (state_name (state (process_table s ! i)))] s"
proof -
  have "vga_printf (bytes ''  %d    %-10s  %s'' @ [0x0A]) [VInt n, VStr None x, VStr None y] v
      = vga_printf (bytes ''  %d    -10s  %s'' @ [0x0A]) [VInt n, VStr None x] v" for n x y v
    by (simp add: bytes_def printf_conv_def)
  then show ?thesis using assms by (simp add: ps_line_def sh_printf_def Let_def)
qed

theorem ps_line_misses_name_witness:
  "ps_line 0 booted = sh_printf (bytes ''  %d    -10s  %s'' @ [0x0A])
     [VInt (pid (process_table booted ! 0)), VStr None (bytes ''RUNNING'')] booted"
  using ps_line_misses_name [of booted 0] booted_ok(1) by (simp add: shell_ok_def)

lemma digit_value: "d < 10 \<Longrightarrow> ucast ((of_nat (48 + d) :: u8) - 48) = (of_nat d :: u32)"
  by (simp add: word_eq_iff_unsigned unsigned_ucast_eq unsigned_of_nat take_bit_nat_eq_self)

lemma kill_pid_digits:
  assumes "\<forall>d \<in> set ds. d < 10" "rest = [] \<or> hd rest < 0x30 \<or> 0x39 < hd rest"
  shows "kill_pid (map (\<lambda>d. of_nat (48 + d)) ds @ rest) (of_nat a) = of_nat (foldl (\<lambda>a d. a * 10 + d) a ds)"
  using assms(1)
proof (induction ds arbitrary: a)
  case Nil
  then show ?case using assms(2) by (cases rest) (auto simp: not_le)
next
  case (Cons d ds)
  have d: "d < 10" using Cons.prems by simp
  have "(0x30 :: u8) \<le> of_nat (48 + d)" "of_nat (48 + d) \<le> (0x39 :: u8)"
    using d by (simp_all add: word_le_nat_alt unsigned_of_nat take_bit_nat_eq_self del: of_nat_add)
  moreover have "(of_nat a * 10 + of_nat d :: u32) = of_nat (a * 10 + d)" by simp
  ultimately show ?case
    using Cons digit_value [OF d] by (simp del: of_nat_add of_nat_mult)
qed

text \<open>C16. \<^verbatim>\<open>kill N\<close> terminates the process whose number is N modulo \<open>2 ^ 32\<close> (the decimal number wraps)
  when that is one of 1 to 15 and its slot is not free, and otherwise changes no process; in particular
  the kernel process 0 is never terminated.\<close>

theorem cmd_kill_wraps:
  assumes "\<forall>d \<in> set ds. d < 10" "rest = [] \<or> hd rest < 0x30 \<or> 0x39 < hd rest"
  defines "p \<equiv> foldl (\<lambda>a d. a * 10 + d) 0 ds mod 2 ^ 32"
  shows "map_option process_table (cmd_kill (map (\<lambda>d. of_nat (48 + d)) ds @ rest) s) = Some
    (if 1 \<le> p \<and> p < 16 \<and> state (process_table s ! p) \<noteq> PROCESS_FREE
     then (process_table s)[p := (process_table s ! p)\<lparr>state := PROCESS_TERMINATED\<rparr>] else process_table s)"
proof -
  let ?k = "kill_pid (map (\<lambda>d. of_nat (48 + d)) ds @ rest) 0"
  have k: "unat ?k = p"
    using kill_pid_digits [OF assms(1,2), of 0] by (simp add: p_def unsigned_of_nat take_bit_eq_mod)
  have table: "process_table (sh_put t u) = process_table u" "process_table (sh_pen c u) = process_table u" for t c u
    by (simp_all add: sh_put_def sh_pen_def)
  have cond: "?k = 0 \<longleftrightarrow> p = 0" "16 \<le> ?k \<longleftrightarrow> 16 \<le> p" using k by (auto simp: word_le_nat_alt unat_eq_zero)
  consider "p = 0" | "p \<noteq> 0" "16 \<le> p \<or> state (process_table s ! p) = PROCESS_FREE"
    | "p \<noteq> 0" "p < 16" "state (process_table s ! p) \<noteq> PROCESS_FREE" by linarith
  then show ?thesis
  proof cases
    case 1
    then show ?thesis using cond k by (simp add: cmd_kill_def Let_def table)
  next
    case 2
    then show ?thesis using cond k by (auto simp: cmd_kill_def Let_def table)
  next
    case 3
    obtain v where "vga_printf (bytes ''  Process %d terminated'' @ [0x0A]) [VInt ?k]
        (screen (sh_pen VGA_LIGHT_GREEN (process_terminate ?k s))) = Some v"
      using kill_format by blast
    then show ?thesis
      using 3 cond k by (simp add: cmd_kill_def Let_def table sh_printf_def process_terminate_def set_pcb_def)
  qed
qed

theorem cmd_kill_wraps_witness:
  "map_option process_table (cmd_kill (map (\<lambda>d. of_nat (48 + d)) [4, 2, 9, 4, 9, 6, 7, 2, 9, 7] @ []) booted)
     = Some (if state (process_table booted ! 1) \<noteq> PROCESS_FREE
         then (process_table booted)[1 := (process_table booted ! 1)\<lparr>state := PROCESS_TERMINATED\<rparr>]
         else process_table booted)"
proof -
  have one: "foldl (\<lambda>a d. a * 10 + d) 0 [4, 2, 9, 4, 9, 6, 7, 2, 9, 7] mod 2 ^ 32 = (1 :: nat)" by simp
  show ?thesis using cmd_kill_wraps [of "[4, 2, 9, 4, 9, 6, 7, 2, 9, 7]" "[]" booted] unfolding one by simp
qed

end
