(* ===== verification/ShellOutput.thy ===== *)
theory ShellOutput
  imports FsProps ShellProps VgaText
begin

text \<open>
  What the commands \<^verbatim>\<open>ls\<close>, \<^verbatim>\<open>ps\<close> and \<^verbatim>\<open>meminfo\<close> put on the screen: their formats through the reference
  formatter of \<open>VgaText\<close>, and the whole output as one text.
\<close>

lemma printf_print: "format_text fmt args = Some t \<Longrightarrow> vga_printf fmt args v = Some (fold vga_putchar t v)"
  by (simp add: vga_printf_text)

lemma sh_printf_print: "format_text fmt args = Some t \<Longrightarrow> sh_printf fmt args s = Some (on_screen (fold vga_putchar t) s)"
  by (simp add: sh_printf_def printf_print on_screen_def)

lemma puts_print: "cstr_ok t \<Longrightarrow> vga_puts (Some t) = fold vga_putchar t"
proof -
  assume "cstr_ok t"
  then have "takeWhile (\<lambda>x. x \<noteq> 0) t = t" by (auto simp: cstr_ok_def takeWhile_eq_all_conv)
  then show ?thesis by (intro ext) (simp only: vga_puts_def option.case puts_loop_text)
qed

text \<open>A counting loop over fallible rounds, each of which acts on the indices that satisfy \<open>p\<close> only; \<open>ok\<close> is
  what the rounds need of the state.\<close>

lemma bind_loop:
  assumes "\<And>i s. lo \<le> i \<Longrightarrow> i < hi \<Longrightarrow> ok s \<Longrightarrow> f i s = Some (if p i then g i s else s)"
    and "\<And>i s. ok s \<Longrightarrow> ok (g i s)" "ok s0" "lo \<le> hi"
  shows "for_do (\<lambda>i r. Option.bind r (f i)) lo hi (Some s0) = Some (fold g (filter p [lo..<hi]) s0)"
proof -
  have "for_do (\<lambda>i r. Option.bind r (f i)) lo hi (Some s0) = Some (fold g (filter p [lo..<hi]) s0)
      \<and> ok (fold g (filter p [lo..<hi]) s0)"
  proof (rule for_do_invariant [where P = "\<lambda>n r. r = Some (fold g (filter p [lo..<n]) s0) \<and> ok (fold g (filter p [lo..<n]) s0)"])
    fix n r
    assume "lo \<le> n" "n < hi" "r = Some (fold g (filter p [lo..<n]) s0) \<and> ok (fold g (filter p [lo..<n]) s0)"
    then show "Option.bind r (f n) = Some (fold g (filter p [lo..<Suc n]) s0) \<and> ok (fold g (filter p [lo..<Suc n]) s0)"
      using assms(1) [of n "fold g (filter p [lo..<n]) s0"] assms(2) by simp
  qed (use assms in simp_all)
  then show ?thesis by simp
qed

section \<open>ls\<close>

definition list_text :: "nat \<Rightarrow> u8 list" where
  "list_text i = bytes ''  -24s '' @ numeral_in 10 (0x204003 + 32 * i) @ bytes '' bytes'' @ [0x0A]"

definition listing_text :: "nat list \<Rightarrow> u8 list" where
  "listing_text slots = (if slots = [] then bytes ''  <empty>'' @ [0x0A] else concat (map list_text slots))"

lemma list_format_text:
  "i < 128 \<Longrightarrow> format_text (bytes ''  %-24s %u bytes'' @ [0x0A]) [VStr (Some (0x200000 + of_nat (dirent_name_addr i))) x, VInt z]
     = Some (list_text i)"
proof -
  assume "i < 128"
  then have "unat (0x200000 + of_nat (dirent_name_addr i) :: u32) = 0x204003 + 32 * i"
    by (simp add: dirent_name_addr_def dirent_addr_def unat_word_ariths unat_of_nat)
  then show ?thesis by (simp add: bytes_def takes_argument_def conv_text_def list_text_def)
qed


lemma fold_lines:
  "fold (\<lambda>i (c, v). (c + 1, fold vga_putchar (line i) v)) xs (c, v)
     = (c + int (length xs), fold vga_putchar (concat (map line xs)) v)"
  by (induction xs arbitrary: c v) simp_all

lemma list_line_text:
  assumes "fs_ok s" "i < 128"
  shows "list_line (disk s) i (c, v) = Some (if is_ent (FsView.view (disk s)) i then (c + 1, fold vga_putchar (list_text i) v) else (c, v))"
proof (cases "is_ent (FsView.view (disk s)) i")
  case True
  from inv_dirD(1) [OF fs_okD(3) [OF assms(1)] True] have f: "is_file (FsView.view (disk s)) (ent_id (FsView.view (disk s)) i)" by blast
  have id: "unat (dirent_inode (disk s) i) = ent_id (FsView.view (disk s)) i"
    using assms(2) by (simp add: ent_id_def load_simps)
  have "dirent_used (disk s) i \<noteq> 0" "unat (dirent_inode (disk s) i) < 64"
    "inode_used (disk s) (unat (dirent_inode (disk s) i)) \<noteq> 0"
    using True f assms(2) unfolding id by (simp_all add: is_ent_def is_file_def load_simps)
  with True assms(2) show ?thesis
    by (simp add: list_line_def Let_def printf_print [OF list_format_text])
next
  case False
  with assms(2) have "dirent_used (disk s) i = 0" by (simp add: is_ent_def load_simps)
  with False show ?thesis by (simp add: list_line_def Let_def)
qed

text \<open>C11. \<^verbatim>\<open>ls\<close> on a consistent file system prints, below its two header lines, one line for every name of the
  directory, in slot order, or \<^verbatim>\<open><empty>\<close> when there is none. But the line of a file does not show it: it
  consists of the text \<^verbatim>\<open>-24s\<close> and the decimal address of the name's slot.\<close>

theorem fs_list_text:
  assumes "fs_ok s"
  shows "let slots = filter (is_ent (FsView.view (disk s))) [0..<128] in
     fs_list s v = Some (fold vga_putchar (bytes ''  ------------------------ -----'' @ [0x0A] @ listing_text slots)
       (vga_puts_color (Some ([0x0A] @ bytes ''  Name                     Size'' @ [0x0A])) VGA_LIGHT_CYAN VGA_BLACK v))
     \<and> length slots = card (dom (a_names (abs_fs s)))"
proof -
  define slots where "slots = filter (is_ent (FsView.view (disk s))) [0..<128]"
  let ?head = "vga_puts_color (Some ([0x0A] @ bytes ''  Name                     Size'' @ [0x0A])) VGA_LIGHT_CYAN VGA_BLACK v"
  let ?line = "bytes ''  ------------------------ -----'' @ [0x0A]"
  have loop: "for_do (\<lambda>i r. Option.bind r (list_line (disk s) i)) 0 128 (Some (0, w))
      = Some (int (length slots), fold vga_putchar (concat (map list_text slots)) w)" for w
  proof -
    have "for_do (\<lambda>i r. Option.bind r (list_line (disk s) i)) 0 128 (Some (0, w))
        = Some (fold (\<lambda>i (c, v). (c + 1, fold vga_putchar (list_text i) v)) slots (0, w))"
      unfolding slots_def
      by (rule bind_loop [where ok = "\<lambda>_. True"]) (auto simp: list_line_text [OF assms] split_beta)
    then show ?thesis by (simp add: fold_lines)
  qed
  have ok: "cstr_ok ?line" "cstr_ok (bytes ''  <empty>'' @ [0x0A])" by (simp_all add: cstr_ok_def bytes_def)
  have "fs_list s v = Some (fold vga_putchar (?line @ listing_text slots) ?head)"
    by (simp add: fs_list_def Let_def loop puts_print [OF ok(1)] puts_print [OF ok(2)] listing_text_def del: fold_append)
      (simp add: listing_text_def)
  moreover have "length slots = card (dom (a_names (abs_fs s)))"
  proof -
    let ?V = "FsView.view (disk s)"
    have d: "inv_dir ?V" using fs_okD(3) [OF assms] .
    have "inj_on (ent_name ?V) (set slots)"
      using inv_dirD(3) [OF d] by (auto simp: inj_on_def slots_def)
    moreover have "ent_name ?V ` set slots = dom (a_names (abs_fs s))"
      using abs_names_None [of ?V] by (auto simp: slots_def abs_fs_simps is_ent_def dom_def image_iff)
    ultimately have "card (dom (a_names (abs_fs s))) = card (set slots)" by (metis card_image)
    moreover have "card (set slots) = length slots" by (rule distinct_card) (simp add: slots_def)
    ultimately show ?thesis by (simp only:)
  qed
  ultimately show ?thesis by (simp add: Let_def slots_def)
qed

theorem fs_list_text_witness:
  "fs_list mounted blank_vga = Some (fold vga_putchar (bytes ''  ------------------------ -----'' @ [0x0A] @ bytes ''  <empty>'' @ [0x0A])
     (vga_puts_color (Some ([0x0A] @ bytes ''  Name                     Size'' @ [0x0A])) VGA_LIGHT_CYAN VGA_BLACK blank_vga))"
proof -
  have "card (dom (a_names (abs_fs mounted))) = 0" by (simp only: mounted_sim(2)) (simp add: a_init_def)
  with fs_list_text [OF mounted_sim(1), of blank_vga] show ?thesis by (simp add: Let_def listing_text_def del: fold_append)
qed

section \<open>ps\<close>

definition ps_text :: "pcb \<Rightarrow> u8 list" where
  "ps_text p = bytes ''  '' @ signed_text (sint (pid p)) @ bytes ''    -10s  '' @ state_name (state p) @ [0x0A]"

lemma state_name_ok: "takeWhile (\<lambda>x. x \<noteq> 0) (state_name x) = state_name x"
  by (cases x) (simp_all add: bytes_def)

text \<open>The names tell the five states apart.\<close>

lemma state_name_inj: "\<forall>x y. state_name x = state_name y \<longrightarrow> x = y"
  by code_simp

lemma ps_format_text:
  "format_text (bytes ''  %d    %-10s  %s'' @ [0x0A]) [VInt n, VStr None (state_name x), VStr None y]
     = Some (bytes ''  '' @ signed_text (sint n) @ bytes ''    -10s  '' @ state_name x @ [0x0A])"
  by (simp add: bytes_def takes_argument_def conv_text_def state_name_ok [simplified bytes_def])

text \<open>C18. \<^verbatim>\<open>ps\<close> prints, below its two header lines, one line for every control block that is not FREE, in slot
  order: the pid, the text \<^verbatim>\<open>-10s\<close> in the state column and the state in the name column. The name of a
  process is never printed, and nothing but the screen changes.\<close>

theorem cmd_ps_text:
  fixes s :: "'a shell_scheme"
  shows "cmd_ps s = Some (on_screen
     (fold vga_putchar (concat (map (\<lambda>i. ps_text (process_table s ! i))
        (filter (\<lambda>i. state (process_table s ! i) \<noteq> PROCESS_FREE) [0..<16]))))
     (sh_pen VGA_WHITE (sh_put (bytes ''  PID  STATE       NAME'' @ [0x0A] @ bytes ''  ---  ----------  --------'' @ [0x0A])
        (sh_pen VGA_LIGHT_CYAN s))))"
proof -
  let ?s = "sh_pen VGA_WHITE (sh_put (bytes ''  ---  ----------  --------'' @ [0x0A])
      (sh_put (bytes ''  PID  STATE       NAME'' @ [0x0A]) (sh_pen VGA_LIGHT_CYAN s)))"
  let ?p = "\<lambda>i. state (process_table s ! i) \<noteq> PROCESS_FREE"
  let ?g = "\<lambda>i. on_screen (fold vga_putchar (ps_text (process_table s ! i)))"
  have "for_do (\<lambda>i r. Option.bind r (ps_line i)) 0 16 (Some ?s) = Some (fold ?g (filter ?p [0..<16]) ?s)"
  proof (rule bind_loop [where ok = "\<lambda>t. process_table t = process_table s"])
    fix i and t :: "'a shell_scheme" assume "process_table t = process_table s"
    then show "ps_line i t = Some (if ?p i then ?g i t else t)"
      by (simp add: ps_line_def Let_def ps_text_def sh_printf_print [OF ps_format_text])
  qed (simp_all add: on_screen_def sh_pen_def sh_put_def)
  moreover have "fold ?g xs t = on_screen (fold vga_putchar (concat (map (\<lambda>i. ps_text (process_table s ! i)) xs))) t"
    for xs and t :: "'a shell_scheme"
    by (induction xs arbitrary: t) (simp_all add: on_screen_def)
  moreover have "sh_put (bytes ''  ---  ----------  --------'' @ [0x0A]) (sh_put (bytes ''  PID  STATE       NAME'' @ [0x0A]) t)
      = sh_put (bytes ''  PID  STATE       NAME'' @ [0x0A] @ bytes ''  ---  ----------  --------'' @ [0x0A]) t" for t :: "'a shell_scheme"
    by (simp add: sh_put_def puts_print cstr_ok_def bytes_def)
  ultimately show ?thesis by (simp add: cmd_ps_def Let_def)
qed

section \<open>meminfo\<close>






end
