(* ===== verification/Contexts.thy ===== *)
theory Contexts
  imports Scheduler Steps
begin

text \<open>
  What a context switch promises to a process: whatever the other processes do in between, as long as
  they keep to their own stacks, a process gets the processor back with its registers and its stack as
  they were. The state is that of \<open>Scheduler\<close>; a step is a call of the kernel or a computation of the
  current process, which may change every register and every byte outside the stacks of the others. A call
  is one step here; \<open>CreateRace\<close> looks at a tick in the middle of \<^verbatim>\<open>process_create\<close>.
\<close>

section \<open>Stacks\<close>

text \<open>The stack of the kernel process ends at \<^verbatim>\<open>0x90000\<close>; how far down it is used, \<open>klo\<close>, is up to the
  code. The others have a slot of the array \<^verbatim>\<open>stacks\<close> each.\<close>

definition stack_lo :: "layout \<Rightarrow> nat \<Rightarrow> nat \<Rightarrow> nat" where
  "stack_lo L klo i = (if i = 0 then klo else unat (stacks_addr L) + 4096 * i)"

definition stack_hi :: "layout \<Rightarrow> nat \<Rightarrow> nat" where
  "stack_hi L i = (if i = 0 then 0x90000 else unat (stacks_addr L) + 4096 * i + 4096)"

definition stacks_ok :: "layout \<Rightarrow> nat \<Rightarrow> bool" where
  "stacks_ok L klo \<longleftrightarrow> unat (stacks_addr L) + 65536 < 2 ^ 32
     \<and> (0x90000 \<le> unat (stacks_addr L) + 4096 \<or> unat (stacks_addr L) + 65536 \<le> klo)"

lemma stacks_apart:
  assumes "stacks_ok L klo" "i < 16" "j < 16" "i \<noteq> j"
  shows "stack_hi L i \<le> stack_lo L klo j \<or> stack_hi L j \<le> stack_lo L klo i"
  using assms by (auto simp: stacks_ok_def stack_lo_def stack_hi_def)

lemma stack_hi_bound: "stacks_ok L klo \<Longrightarrow> i < 16 \<Longrightarrow> stack_hi L i < 2 ^ 32"
  by (auto simp: stacks_ok_def stack_hi_def)

text \<open>The call of \<^verbatim>\<open>context_switch\<close> takes 44 bytes of the current stack.\<close>

definition room :: "layout \<Rightarrow> nat \<Rightarrow> sched \<Rightarrow> bool" where
  "room L klo s \<longleftrightarrow> stack_lo L klo (cur s) + 44 \<le> unat (cpu_esp (processor s))
     \<and> unat (cpu_esp (processor s)) \<le> stack_hi L (cur s)"

definition esp_of :: "'a procs_scheme \<Rightarrow> nat \<Rightarrow> nat" where
  "esp_of s i = unat (esp (process_table s ! i))"

definition parked :: "layout \<Rightarrow> nat \<Rightarrow> 'a procs_scheme \<Rightarrow> nat \<Rightarrow> bool" where
  "parked L klo s i \<longleftrightarrow> stack_lo L klo i \<le> esp_of s i \<and> esp_of s i + 36 \<le> stack_hi L i"

text \<open>The frame that waits on the stack of a parked process: registers and the address to return to.\<close>

definition waits :: "layout \<Rightarrow> nat \<Rightarrow> 'a procs_scheme \<Rightarrow> nat \<Rightarrow> cpu \<Rightarrow> u32 \<Rightarrow> bool" where
  "waits L klo s i c r \<longleftrightarrow> parked L klo s i \<and> saved_frame c (ram s) (esp_of s i) \<and> rd32 (ram s) (esp_of s i + 32) = r"

section \<open>Steps\<close>

text \<open>The calls that pass the processor on.\<close>

definition switched :: "layout \<Rightarrow> sched \<Rightarrow> sched \<Rightarrow> bool" where
  "switched L s s' \<longleftrightarrow> s' = scheduler_tick L s \<or> s' = scheduler_yield L s"

inductive quiet :: "layout \<Rightarrow> nat \<Rightarrow> sched \<Rightarrow> sched \<Rightarrow> bool" for L klo where
  compute: "(\<And>i. i < 16 \<Longrightarrow> i \<noteq> cur s \<Longrightarrow> same_on (stack_lo L klo i) (stack_hi L i) (ram s) m)
    \<Longrightarrow> quiet L klo s (s\<lparr>processor := c, ram := m\<rparr>)"
| create: "cstr_ok nm \<Longrightarrow> quiet L klo s (snd (process_create (stacks_addr L) nm entry s))"
| terminate: "quiet L klo s (process_terminate p s)"
| unblock: "quiet L klo s (scheduler_unblock p s)"
| block: "quiet L klo s (block_current s)"

inductive kstep :: "layout \<Rightarrow> nat \<Rightarrow> sched \<Rightarrow> sched \<Rightarrow> bool" for L klo where
  quiet: "quiet L klo s s' \<Longrightarrow> kstep L klo s s'"
| switch: "room L klo s \<Longrightarrow> switched L s s' \<Longrightarrow> kstep L klo s s'"

inductive_cases quietE: "quiet L klo s s'"
inductive_cases kstepE: "kstep L klo s s'"

text \<open>A run in which \<open>p\<close> is never the current process.\<close>

inductive away :: "layout \<Rightarrow> nat \<Rightarrow> nat \<Rightarrow> sched \<Rightarrow> sched \<Rightarrow> bool" for L klo p where
  here: "cur s \<noteq> p \<Longrightarrow> away L klo p s s"
| more: "away L klo p s s' \<Longrightarrow> kstep L klo s' s'' \<Longrightarrow> cur s'' \<noteq> p \<Longrightarrow> away L klo p s s''"

text \<open>A process that can run again. A terminated one cannot, and \<^verbatim>\<open>process_terminate\<close> also accepts a free
  slot, which has no stack frame.\<close>

definition alive :: "process_state \<Rightarrow> bool" where
  "alive x \<longleftrightarrow> x = PROCESS_READY \<or> x = PROCESS_BLOCKED"

lemma alive_simps [simp]: "alive PROCESS_READY" "alive PROCESS_BLOCKED" "\<not> alive PROCESS_FREE"
  "\<not> alive PROCESS_TERMINATED" "\<not> alive PROCESS_RUNNING"
  by (simp_all add: alive_def)

definition contexts_ok :: "layout \<Rightarrow> nat \<Rightarrow> 'a procs_scheme \<Rightarrow> bool" where
  "contexts_ok L klo s \<longleftrightarrow> sched_ok s \<and> st s (cur s) \<noteq> PROCESS_FREE
     \<and> (\<forall>i < 16. i \<noteq> cur s \<and> alive (st s i) \<longrightarrow> parked L klo s i)"

section \<open>One switch\<close>

lemma esp_index_addr: "unat i < 16 \<Longrightarrow> esp_index L (esp_addr L i) = unat i"
proof -
  assume i: "unat i < 16"
  then have "unat (48 * i) = 48 * unat i" by (simp add: unat_word_ariths)
  then show ?thesis by (simp add: esp_index_def esp_addr_def unat_div)
qed

lemma call_switch:
  assumes "unat (cpu_esp (processor s)) = q + 44" "q + 44 < 2 ^ 32"
    and "unat new + 36 < 2 ^ 32" "saved_frame c0 (ram s) (unat new)" "unat new + 36 \<le> q \<or> q + 44 \<le> unat new"
    and "unat old < 16" "unat old < length (process_table s)"
  shows "\<exists>m. call_context_switch L (esp_addr L old) new s = set_pcb (unat old)
       (\<lambda>p. p\<lparr>esp := cpu_esp (processor s) - 44\<rparr>)
       (s\<lparr>processor := (load_frame c0 (processor s))\<lparr>cpu_esp := new + 36, intr := True, eip := rd32 (ram s) (unat new + 32)\<rparr>,
          ram := m\<rparr>)
     \<and> saved_frame (processor s) m q \<and> rd32 m (q + 32) = resume_addr L \<and> (\<forall>a. a < q \<or> q + 44 \<le> a \<longrightarrow> m a = ram s a)"
proof -
  let ?e = "cpu_esp (processor s)"
  let ?c = "(processor s)\<lparr>cpu_esp := ?e - 12\<rparr>"
  let ?m = "wr32 (wr32 (wr32 (ram s) (q + 40) new) (q + 36) (esp_addr L old)) (q + 32) (resume_addr L)"
  have d: "unat (?e - 4) = q + 40" "unat (?e - 8) = q + 36" "unat (?e - 12) = q + 32"
    using assms(1) by (simp_all add: unat_minus_small)
  have p: "push32 (resume_addr L) (push32 (esp_addr L old) (push32 new (processor s, ram s))) = (?c, ?m)"
    by (simp add: push32_def d)
  have m: "?m a = ram s a" if "a < q + 32 \<or> q + 44 \<le> a" for a using that by (elim disjE) (simp_all add: mem_simps)
  have same: "rd32 ?m b = rd32 (ram s) b" if "b + 4 \<le> q + 32 \<or> q + 44 \<le> b" for b
    by (rule rd32_cong [where lo = b and hi = "b + 4"]) (use m that in \<open>auto intro: same_onI\<close>)
  have fr: "saved_frame c0 ?m (unat new)" "rd32 ?m (unat new + 32) = rd32 (ram s) (unat new + 32)"
    using assms(4,5) by (auto simp: saved_frame_def same)
  have r: "rd32 ?m (q + 36) = esp_addr L old" "rd32 ?m (q + 40) = new" "rd32 ?m (q + 32) = resume_addr L"
    by (simp_all add: mem_simps)
  have e: "unat (cpu_esp ?c) = q + 32" using d(3) by simp
  have ap: "unat new + 36 \<le> q \<or> q + 32 \<le> unat new" using assms(5) by auto
  obtain m' where m': "context_switch (?c, ?m) = ((rd32 ?m (q + 36), cpu_esp ?c - 32),
       (load_frame c0 ?c)\<lparr>cpu_esp := new + 36, intr := True, eip := rd32 ?m (unat new + 32)\<rparr>, m')"
    "saved_frame ?c m' q" "\<And>a. a < q \<or> q + 32 \<le> a \<Longrightarrow> m' a = ?m a"
    using context_switch_frame [OF e assms(2) r(2) assms(3) fr(1) ap] by blast
  have ret: "rd32 m' (q + 32) = rd32 ?m (q + 32)"
    by (rule rd32_cong [where lo = "q + 32" and hi = "q + 36"]) (auto intro: same_onI m'(3))
  have frame: "m' a = ram s a" if "a < q \<or> q + 44 \<le> a" for a using that m'(3) [of a] m [of a] by auto
  have saved: "saved_frame (processor s) m' q" using m'(2) by (simp add: saved_frame_def)
  have call: "call_context_switch L (esp_addr L old) new s = set_pcb (unat old)
       (\<lambda>p. p\<lparr>esp := ?e - 44\<rparr>)
       (s\<lparr>processor := (load_frame c0 (processor s))\<lparr>cpu_esp := new + 36, intr := True, eip := rd32 (ram s) (unat new + 32)\<rparr>,
          ram := m'\<rparr>)"
    unfolding call_context_switch_def p Let_def prod.case m'(1) r(1) fr(2)
    using assms(6) by (simp add: esp_index_addr load_frame_def)
  show ?thesis
    by (rule exI [of _ m'], intro conjI allI impI) (rule call, rule saved, simp only: ret r(3), rule frame)
qed

lemma set_pcb_processor [simp]: "processor (set_pcb i f s) = processor s"
  by (simp add: set_pcb_def)

lemma switch_states_keeps:
  assumes "switch_states s = Some t"
  shows "processor t = processor s" "ram t = ram s" "esp (process_table t ! i) = esp (process_table s ! i)"
  using assms by (auto simp: switch_states_def Let_def set_pcb_field [where g = esp] split: if_splits)

text \<open>What a parked process has on its stack: whatever is there can be read as a register frame.\<close>

lemma parked_waits: "parked L klo s i \<Longrightarrow> \<exists>c r. waits L klo s i c r"
  by (rule exI [of _ "\<lparr>eax = rd32 (ram s) (esp_of s i + 28), ecx = rd32 (ram s) (esp_of s i + 24), edx = rd32 (ram s) (esp_of s i + 20),
      ebx = rd32 (ram s) (esp_of s i + 16), cpu_esp = 0, ebp = rd32 (ram s) (esp_of s i + 8), esi = rd32 (ram s) (esp_of s i + 4),
      edi = rd32 (ram s) (esp_of s i), eip = 0, intr = False\<rparr>"]) (simp add: waits_def saved_frame_def)

definition resumed :: "cpu \<Rightarrow> u32 \<Rightarrow> u32 \<Rightarrow> cpu" where
  "resumed c e r = c\<lparr>cpu_esp := e + 36, intr := True, eip := r\<rparr>"

lemma load_resumed: "(load_frame c0 c)\<lparr>cpu_esp := e, intr := True, eip := r\<rparr> = c0\<lparr>cpu_esp := e, intr := True, eip := r\<rparr>"
  by (cases c0, cases c) (simp add: load_frame_def)

text \<open>A switch to a process whose saved stack pointer is the address of some frame that does not overlap
  what the call pushes.\<close>

lemma switch_to:
  assumes sok: "sched_ok s" and n: "next_of (st s) (cur s) = n" "n \<noteq> cur s"
    and q: "unat (cpu_esp (processor s)) = q + 44"
    and b: "unat (esp (process_table s ! n)) + 36 < 2 ^ 32"
    and fr: "saved_frame c0 (ram s) (unat (esp (process_table s ! n)))" "rd32 (ram s) (unat (esp (process_table s ! n)) + 32) = r"
    and ap: "unat (esp (process_table s ! n)) + 36 \<le> q \<or> q + 44 \<le> unat (esp (process_table s ! n))"
  shows "\<exists>s'. pick_and_switch L s = (1, s') \<and> cur s' = n \<and> processor s' = resumed c0 (esp (process_table s ! n)) r
     \<and> esp_of s' (cur s) = q \<and> saved_frame (processor s) (ram s') q \<and> rd32 (ram s') (q + 32) = resume_addr L
     \<and> (\<forall>i. i \<noteq> cur s \<longrightarrow> esp (process_table s' ! i) = esp (process_table s ! i))
     \<and> (\<forall>a. a < q \<or> q + 44 \<le> a \<longrightarrow> ram s' a = ram s a)"
proof -
  have c: "cur s < 16" "length (process_table s) = 16" using sok by (simp_all add: sched_ok_def)
  have ne: "abs_switch (view s) \<noteq> view s" using n by (simp add: view_def Let_def)
  obtain t where t: "switch_states s = Some t" "sched_ok t" "view t = abs_switch (view s)"
    using switch_states_view [OF sok] ne by (cases "switch_states s") auto
  have ct: "cur t = n" using t(3) n by (simp add: view_def Let_def)
  note keep = switch_states_keeps [OF t(1)]
  let ?new = "esp (process_table s ! n)"
  have "unat (cpu_esp (processor s)) < 2 ^ LENGTH(32)" by (rule unsigned_less)
  then have q': "unat (cpu_esp (processor t)) = q + 44" "q + 44 < 2 ^ 32" unfolding keep q by simp_all
  have fr': "saved_frame c0 (ram t) (unat ?new)" using fr(1) by (simp add: keep)
  have old: "unat (current_pid s) < 16" "unat (current_pid s) < length (process_table t)"
    using c t(2) by (simp_all add: cur_def sched_ok_def)
  from call_switch [OF q' b fr' ap old, of L]
  obtain m where call: "call_context_switch L (esp_addr L (current_pid s)) ?new t = set_pcb (cur s)
       (\<lambda>p. p\<lparr>esp := cpu_esp (processor s) - 44\<rparr>)
       (t\<lparr>processor := resumed c0 ?new r, ram := m\<rparr>)"
    and m: "saved_frame (processor s) m q" "rd32 m (q + 32) = resume_addr L" "\<And>a. a < q \<or> q + 44 \<le> a \<Longrightarrow> m a = ram s a"
    unfolding resumed_def load_resumed keep cur_def [symmetric] fr(2) by blast
  define s' where "s' = set_pcb (cur s) (\<lambda>p. p\<lparr>esp := cpu_esp (processor s) - 44\<rparr>) (t\<lparr>processor := resumed c0 ?new r, ram := m\<rparr>)"
  have run: "pick_and_switch L s = (1, s')"
    using call ct by (simp add: pick_and_switch_def t(1) keep s'_def cur_def)
  have e: "esp (process_table s' ! i) = (if i = cur s then cpu_esp (processor s) - 44 else esp (process_table s ! i))" for i
    using c t(2) by (simp add: s'_def sched_ok_def keep)
  have "esp_of s' (cur s) = q" using q by (simp add: esp_of_def e unat_minus_small)
  moreover have "cur s' = n" "processor s' = resumed c0 ?new r" "ram s' = m"
    using ct by (simp_all add: s'_def set_pcb_def cur_def)
  ultimately show ?thesis using run e m by (intro exI [of _ s']) simp
qed

lemma switch_run:
  assumes L: "stacks_ok L klo" and ok: "contexts_ok L klo s" and rm: "room L klo s"
    and n: "next_of (st s) (cur s) = n" "n \<noteq> cur s" and w: "waits L klo s n c0 r"
  shows "\<exists>s'. pick_and_switch L s = (1, s') \<and> cur s' = n \<and> processor s' = resumed c0 (esp (process_table s ! n)) r
     \<and> waits L klo s' (cur s) (processor s) (resume_addr L) \<and> esp_of s' (cur s) = unat (cpu_esp (processor s)) - 44
     \<and> (\<forall>i. i \<noteq> cur s \<longrightarrow> esp (process_table s' ! i) = esp (process_table s ! i))
     \<and> (\<forall>a. a < stack_lo L klo (cur s) \<or> unat (cpu_esp (processor s)) \<le> a \<longrightarrow> ram s' a = ram s a)"
proof -
  have sok: "sched_ok s" "cur s < 16" "n < 16"
    using ok n(1) next_of_less [of "cur s" "st s"] by (auto simp: contexts_ok_def sched_ok_def)
  define q where "q = unat (cpu_esp (processor s)) - 44"
  have q: "unat (cpu_esp (processor s)) = q + 44" "stack_lo L klo (cur s) \<le> q" "q + 44 \<le> stack_hi L (cur s)"
    using rm unfolding q_def room_def by linarith+
  have new: "stack_lo L klo n \<le> esp_of s n" "esp_of s n + 36 \<le> stack_hi L n" "saved_frame c0 (ram s) (esp_of s n)"
    "rd32 (ram s) (esp_of s n + 32) = r"
    using w by (simp_all add: waits_def parked_def)
  have ap: "esp_of s n + 36 \<le> q \<or> q + 44 \<le> esp_of s n"
    using stacks_apart [OF L sok(2,3)] n(2) new(1,2) q(2,3) by auto
  have b: "esp_of s n + 36 < 2 ^ 32" using stack_hi_bound [OF L sok(3)] new(2) by linarith
  from switch_to [OF sok(1) n q(1) b [unfolded esp_of_def] new(3,4) [unfolded esp_of_def] ap [unfolded esp_of_def]]
  obtain s' where "pick_and_switch L s = (1, s')" "cur s' = n" "processor s' = resumed c0 (esp (process_table s ! n)) r"
    "esp_of s' (cur s) = q" "saved_frame (processor s) (ram s') q" "rd32 (ram s') (q + 32) = resume_addr L"
    "\<forall>i. i \<noteq> cur s \<longrightarrow> esp (process_table s' ! i) = esp (process_table s ! i)"
    "\<forall>a. a < q \<or> q + 44 \<le> a \<longrightarrow> ram s' a = ram s a" by blast
  then show ?thesis
    using q by (intro exI [of _ s']) (auto simp: waits_def parked_def)
qed

lemma switch_none:
  assumes ok: "sched_ok s" and "next_of (st s) (cur s) = cur s"
  shows "pick_and_switch L s = (0, s)"
proof -
  have "pick_next (process_table s) (current_pid s) = current_pid s"
    using pick_next_next_of [of s] ok assms(2) by (simp add: sched_ok_def cur_def word_unat_eq_iff)
  then show ?thesis by (simp add: pick_and_switch_def switch_states_def)
qed

section \<open>The steps keep the contexts\<close>

lemma saved_frame_intr [simp]: "saved_frame (c\<lparr>intr := b\<rparr>) m q = saved_frame c m q"
  by (simp add: saved_frame_def)

text \<open>Both calls are \<^verbatim>\<open>pick_and_switch\<close> on a state with the same table, memory and stack pointer.\<close>

lemma switched_pick:
  assumes "switched L s s'"
  shows "\<exists>u b. st u = st s \<and> current_pid u = current_pid s \<and> process_table u = process_table s \<and> ram u = ram s
     \<and> processor u = (processor s)\<lparr>intr := b\<rparr> \<and> (let (r, t) = pick_and_switch L u in s' = t \<or> r = 0 \<and> (\<exists>c. s' = t\<lparr>processor := c\<rparr>))"
  using assms unfolding switched_def
proof
  assume t: "s' = scheduler_tick L s"
  show ?thesis
    by (rule exI [of _ "s\<lparr>tick_count := tick_count s + 1, ports_out := pic_send_eoi 0 (ports_out s)\<rparr>"], rule exI [of _ "intr (processor s)"])
      (simp add: t scheduler_tick_def Let_def split_beta)
next
  assume y: "s' = scheduler_yield L s"
  show ?thesis
    by (rule exI [of _ "s\<lparr>processor := (processor s)\<lparr>intr := False\<rparr>\<rparr>"], rule exI [of _ False])
      (auto simp: y scheduler_yield_def Let_def split_beta)
qed

lemma switched_cases:
  assumes L: "stacks_ok L klo" and ok: "contexts_ok L klo s" and rm: "room L klo s" and sw: "switched L s s'"
  obtains (stay) "next_of (st s) (cur s) = cur s" "cur s' = cur s" "process_table s' = process_table s" "ram s' = ram s"
  | (go) "next_of (st s) (cur s) \<noteq> cur s" "cur s' = next_of (st s) (cur s)"
    "\<And>c0 r. waits L klo s (cur s') c0 r \<Longrightarrow> processor s' = resumed c0 (esp (process_table s ! cur s')) r"
    "waits L klo s' (cur s) (processor s) (resume_addr L)" "esp_of s' (cur s) = unat (cpu_esp (processor s)) - 44"
    "\<And>i. i \<noteq> cur s \<Longrightarrow> esp (process_table s' ! i) = esp (process_table s ! i)"
    "\<And>a. a < stack_lo L klo (cur s) \<or> unat (cpu_esp (processor s)) \<le> a \<Longrightarrow> ram s' a = ram s a"
proof -
  obtain u b where u: "st u = st s" "current_pid u = current_pid s" "process_table u = process_table s" "ram u = ram s"
      "processor u = (processor s)\<lparr>intr := b\<rparr>"
    and p: "let (r, t) = pick_and_switch L u in s' = t \<or> r = 0 \<and> (\<exists>c. s' = t\<lparr>processor := c\<rparr>)"
    using switched_pick [OF sw] by blast
  have c: "cur u = cur s" using u(2) by (simp add: cur_def)
  have ok': "contexts_ok L klo u" and rm': "room L klo u"
    using ok rm by (simp_all add: contexts_ok_def room_def sched_ok_def parked_def esp_of_def u c)
  have w: "waits L klo u i c0 r = waits L klo s i c0 r" for i c0 r by (simp add: waits_def parked_def esp_of_def u)
  show ?thesis
  proof (cases "next_of (st s) (cur s) = cur s")
    case True
    then have "pick_and_switch L u = (0, u)" using switch_none [of u] ok' by (simp add: contexts_ok_def u c)
    with True p u c show ?thesis by (intro stay) (auto simp: cur_def)
  next
    case False
    let ?n = "next_of (st s) (cur s)"
    have n: "next_of (st u) (cur u) = ?n" "?n \<noteq> cur u" using False by (simp_all add: u c)
    have n16: "?n < 16" "alive (st s ?n)"
      using ok next_of_less [of "cur s" "st s"] next_of_ready [OF False] by (auto simp: contexts_ok_def sched_ok_def)
    then have "parked L klo s ?n" using ok False by (simp add: contexts_ok_def)
    then obtain c1 r1 where w1: "waits L klo u ?n c1 r1" using parked_waits w by blast
    have run: "\<exists>t. pick_and_switch L u = (1, t) \<and> cur t = ?n \<and> processor t = resumed c0 (esp (process_table s ! ?n)) r
       \<and> waits L klo t (cur s) (processor s) (resume_addr L) \<and> esp_of t (cur s) = unat (cpu_esp (processor s)) - 44
       \<and> (\<forall>i. i \<noteq> cur s \<longrightarrow> esp (process_table t ! i) = esp (process_table s ! i))
       \<and> (\<forall>a. a < stack_lo L klo (cur s) \<or> unat (cpu_esp (processor s)) \<le> a \<longrightarrow> ram t a = ram s a)"
      if "waits L klo u ?n c0 r" for c0 r
      using switch_run [OF L ok' rm' n that] by (simp add: u c waits_def)
    from run [OF w1] obtain t where t: "pick_and_switch L u = (1, t)" by blast
    have s': "s' = t" using p t by simp
    from run [OF w1] t s' have f: "cur s' = ?n" "waits L klo s' (cur s) (processor s) (resume_addr L)"
      "esp_of s' (cur s) = unat (cpu_esp (processor s)) - 44"
      "\<And>i. i \<noteq> cur s \<Longrightarrow> esp (process_table s' ! i) = esp (process_table s ! i)"
      "\<And>a. a < stack_lo L klo (cur s) \<or> unat (cpu_esp (processor s)) \<le> a \<Longrightarrow> ram s' a = ram s a" by auto
    have "processor s' = resumed c0 (esp (process_table s ! ?n)) r" if "waits L klo s ?n c0 r" for c0 r
      using run [of c0 r] t s' that w by auto
    with False f show ?thesis by (intro go) auto
  qed
qed

lemma switched_view:
  assumes "sched_ok s" "switched L s s'"
  shows "sched_ok s' \<and> (st s', cur s') = abs_switch (st s, cur s)"
  using assms kexec_view [OF assms(1), of L Tick] kexec_view [OF assms(1), of L Yield]
  by (auto simp: switched_def view_def simp del: abs_switch.simps)

text \<open>A process that is not current before and after a step keeps its frame.\<close>

definition keeps :: "layout \<Rightarrow> nat \<Rightarrow> nat \<Rightarrow> sched \<Rightarrow> sched \<Rightarrow> bool" where
  "keeps L klo p s s' \<longleftrightarrow> esp (process_table s' ! p) = esp (process_table s ! p)
     \<and> same_on (stack_lo L klo p) (stack_hi L p) (ram s) (ram s') \<and> st s' p \<noteq> PROCESS_FREE"

lemma keeps_trans: "keeps L klo p s s' \<Longrightarrow> keeps L klo p s' s'' \<Longrightarrow> keeps L klo p s s''"
  by (auto simp: keeps_def intro: same_on_trans)

lemma keeps_waits:
  assumes "keeps L klo p s s'" "waits L klo s p c r"
  shows "waits L klo s' p c r"
proof -
  have e: "esp_of s' p = esp_of s p" using assms(1) by (simp add: keeps_def esp_of_def)
  have "rd32 (ram s') b = rd32 (ram s) b" if "esp_of s p \<le> b" "b + 4 \<le> esp_of s p + 36" for b
    using assms that by (intro rd32_cong [symmetric, of "stack_lo L klo p" "stack_hi L p"])
      (auto simp: keeps_def waits_def parked_def)
  then show ?thesis using assms(2) by (simp add: waits_def parked_def e saved_frame_def)
qed

lemma keeps_parked: "keeps L klo p s s' \<Longrightarrow> parked L klo s p \<Longrightarrow> parked L klo s' p"
  by (simp add: keeps_def parked_def esp_of_def)

lemma abs_switch_not_free: "fst (abs_switch (f, c)) i = PROCESS_FREE \<longleftrightarrow> f i = PROCESS_FREE"
proof (cases "next_of f c = c")
  case False
  from next_of_ready [OF this] False show ?thesis by (auto simp: Let_def)
qed simp

lemma switched_st:
  assumes "sched_ok s" "switched L s s'"
  shows "st s' i = PROCESS_FREE \<longleftrightarrow> st s i = PROCESS_FREE" "cur s' = next_of (st s) (cur s)" "sched_ok s'"
proof -
  note v = switched_view [OF assms]
  have e: "st s' = fst (abs_switch (st s, cur s))" "cur s' = snd (abs_switch (st s, cur s))"
    using conjunct2 [OF v] by (metis fst_conv, metis snd_conv)
  show "st s' i = PROCESS_FREE \<longleftrightarrow> st s i = PROCESS_FREE" unfolding e(1) by (rule abs_switch_not_free)
  show "cur s' = next_of (st s) (cur s)" unfolding e(2) by (simp add: Let_def)
  show "sched_ok s'" using v by simp
qed

lemma switched_other:
  assumes "sched_ok s" "switched L s s'" "i \<noteq> cur s" "i \<noteq> cur s'"
  shows "st s' i = st s i"
proof -
  have e: "st s' = fst (abs_switch (st s, cur s))" "cur s' = snd (abs_switch (st s, cur s))"
    using conjunct2 [OF switched_view [OF assms(1,2)]] by (metis fst_conv, metis snd_conv)
  show ?thesis using assms(3,4) unfolding e by (simp add: Let_def split: if_splits)
qed

lemma switched_keeps:
  assumes L: "stacks_ok L klo" and ok: "contexts_ok L klo s" and rm: "room L klo s" and sw: "switched L s s'"
    and p: "p < 16" "p \<noteq> cur s" "st s p \<noteq> PROCESS_FREE"
  shows "keeps L klo p s s'"
proof -
  have c: "cur s < 16" "sched_ok s" using ok by (simp_all add: contexts_ok_def sched_ok_def)
  have "st s' p \<noteq> PROCESS_FREE"
    using switched_st(1) [OF c(2) sw] p(3) by simp
  moreover have ap: "stack_hi L p \<le> stack_lo L klo (cur s) \<or> stack_hi L (cur s) \<le> stack_lo L klo p"
    using stacks_apart [OF L p(1) c(1) p(2)] .
  have "same_on (stack_lo L klo p) (stack_hi L p) (ram s) (ram s')
      \<and> esp (process_table s' ! p) = esp (process_table s ! p)"
    using L ok rm sw
  proof (cases rule: switched_cases)
    case go
    have "same_on (stack_lo L klo p) (stack_hi L p) (ram s) (ram s')"
      using ap go(7) rm by (intro same_onI) (fastforce simp: room_def)
    with go(6) [OF p(2)] show ?thesis by simp
  qed simp
  ultimately show ?thesis by (simp add: keeps_def)
qed

lemma switched_contexts:
  assumes L: "stacks_ok L klo" and ok: "contexts_ok L klo s" and rm: "room L klo s" and sw: "switched L s s'"
  shows "contexts_ok L klo s'"
proof -
  have c: "cur s < 16" "sched_ok s" "st s (cur s) \<noteq> PROCESS_FREE" using ok by (simp_all add: contexts_ok_def sched_ok_def)
  note nf = switched_st(1) [OF c(2) sw]
  have "parked L klo s' i" if i: "i < 16" "i \<noteq> cur s'" "alive (st s' i)" for i
  proof (cases "i = cur s")
    case True
    from L ok rm sw show ?thesis
      by (cases rule: switched_cases) (use True i in \<open>auto simp: waits_def\<close>)
  next
    case False
    have a: "alive (st s i)" using switched_other [OF c(2) sw False i(2)] i(3) by simp
    then have "st s i \<noteq> PROCESS_FREE" by auto
    from switched_keeps [OF L ok rm sw i(1) False this] show ?thesis
      using a ok i(1) False by (auto simp: contexts_ok_def intro: keeps_parked)
  qed
  moreover have "st s' (cur s') \<noteq> PROCESS_FREE"
  proof (cases "cur s' = cur s")
    case False
    with next_of_ready [of "st s" "cur s"] show ?thesis by (simp add: nf switched_st(2) [OF c(2) sw])
  qed (simp add: nf c)
  ultimately show ?thesis using switched_st(3) [OF c(2) sw] by (simp add: contexts_ok_def)
qed

text \<open>Creation fills a slot that was free, hence not the current one, with a parked process.\<close>

lemma create_facts:
  assumes L: "stacks_ok L klo" and ok: "contexts_ok L klo s" and nm: "cstr_ok nm"
    and r: "process_create (stacks_addr L) nm entry s = (res, s')"
  obtains (full) "s' = s" "res = -1"
  | (slot) i where "res = int i" "i < 16" "i \<noteq> cur s" "i \<noteq> 0" "st s i = PROCESS_FREE" "cur s' = cur s" "st s' = (st s)(i := PROCESS_READY)"
    "waits L klo s' i \<lparr>eax = 0, ecx = 0, edx = 0, ebx = 0, cpu_esp = 0, ebp = 0, esi = 0, edi = 0, eip = 0, intr = True\<rparr> entry"
    "esp (process_table s' ! i) = stacks_addr L + of_nat i * 4096 + 4060"
    "\<And>j. j \<noteq> i \<Longrightarrow> process_table s' ! j = process_table s ! j"
    "\<And>j. j < 16 \<Longrightarrow> j \<noteq> i \<Longrightarrow> same_on (stack_lo L klo j) (stack_hi L j) (ram s) (ram s')"
    "pid (process_table s' ! i) = of_nat i" "stack (process_table s' ! i) = stacks_addr L + of_nat i * 4096"
    "\<exists>k < 32. name (process_table s' ! i) k = 0"
proof (cases "first_free s")
  case None
  with r show ?thesis by (intro full) (simp_all add: process_create_none)
next
  case (Some i)
  have i: "i < 16" "i \<noteq> 0" "st s i = PROCESS_FREE" using Some by (auto simp: first_free_def loop_simps st_def)
  have len: "length (process_table s) = 16" "unat (stacks_addr L) + 65536 < 2 ^ 32"
    using ok L by (simp_all add: contexts_ok_def sched_ok_def stacks_ok_def)
  obtain m where c: "res = int i" "s' = set_pcb i (\<lambda>p. p\<lparr>pid := of_nat i, state := PROCESS_READY,
        esp := stacks_addr L + of_nat i * 4096 + 4060, stack := stacks_addr L + of_nat i * 4096,
        name := put_str (name p) 0 (take 31 nm)\<rparr>) (s\<lparr>ram := m\<rparr>)"
    and fr: "fresh_frame m (unat (stacks_addr L) + 4096 * i + 4060) entry"
    and m: "\<And>a. a < unat (stacks_addr L) + 4096 * i + 4060 \<or> unat (stacks_addr L) + 4096 * i + 4096 \<le> a \<Longrightarrow> m a = ram s a"
    using process_create_slot [OF Some len(1,2) nm, of entry] r by auto
  have e: "esp_of s' i = unat (stacks_addr L) + 4096 * i + 4060"
    using slot_base [OF len(2) i(1), of 4060] i(1) len(1) by (simp add: esp_of_def c(2))
  have rm: "ram s' = m" by (simp add: c(2))
  have "rd32 m (unat (stacks_addr L) + 4096 * i + 4060 + 4 * k) = 0" if "k < 8" for k
    using fr that by (simp add: fresh_frame_def)
  from this [of 0] this [of 1] this [of 2] this [of 4] this [of 5] this [of 6] this [of 7]
  have w: "waits L klo s' i \<lparr>eax = 0, ecx = 0, edx = 0, ebx = 0, cpu_esp = 0, ebp = 0, esi = 0, edi = 0, eip = 0, intr = True\<rparr> entry"
    using fr i by (simp add: waits_def parked_def e rm stack_lo_def stack_hi_def saved_frame_def fresh_frame_def)
  have reg: "stack_lo L klo i = unat (stacks_addr L) + 4096 * i" "stack_hi L i = unat (stacks_addr L) + 4096 * i + 4096"
    using i(2) by (simp_all add: stack_lo_def stack_hi_def)
  have other: "same_on (stack_lo L klo j) (stack_hi L j) (ram s) (ram s')" if j: "j < 16" "j \<noteq> i" for j
  proof (rule same_onI)
    fix a assume "stack_lo L klo j \<le> a" "a < stack_hi L j"
    then have "a < stack_lo L klo i \<or> stack_hi L i \<le> a"
      using stacks_apart [OF L j(1) i(1) j(2)] by auto
    then show "ram s a = ram s' a" using m [of a] by (auto simp: reg c(2))
  qed
  have "i \<noteq> cur s" using i(3) ok by (auto simp: contexts_ok_def)
  moreover have "\<exists>k < 32. put_str (name (process_table s ! i)) 0 (take 31 nm) k = 0"
    by (rule exI [of _ "length (take 31 nm)"]) (auto simp: put_str_def)
  ultimately show ?thesis
    using i w other len(1) by (intro slot [of i]) (simp_all add: c st_set_pcb)
qed

lemma quiet_keeps:
  assumes L: "stacks_ok L klo" and ok: "contexts_ok L klo s" and step: "quiet L klo s s'"
  shows "cur s' = cur s" "contexts_ok L klo s'"
    "p < 16 \<Longrightarrow> p \<noteq> cur s \<Longrightarrow> st s p \<noteq> PROCESS_FREE \<Longrightarrow> keeps L klo p s s'"
proof -
  have c: "cur s < 16" "length (process_table s) = 16" using ok by (simp_all add: contexts_ok_def sched_ok_def)
  have "cur s' = cur s \<and> contexts_ok L klo s' \<and> (p < 16 \<and> p \<noteq> cur s \<and> st s p \<noteq> PROCESS_FREE \<longrightarrow> keeps L klo p s s')"
    using step
  proof cases
    case (compute m c0)
    then show ?thesis using ok
      by (auto simp: contexts_ok_def keeps_def sched_ok_def st_def cur_def parked_def esp_of_def)
  next
    case (create nm entry)
    obtain res where "process_create (stacks_addr L) nm entry s = (res, s')" using create(1) by (metis prod.collapse)
    from L ok create(2) this show ?thesis
    proof (cases rule: create_facts)
      case full
      with ok show ?thesis by (simp add: keeps_def)
    next
      case (slot i)
      have "sched_ok s'" using process_create_view [of s "stacks_addr L" nm entry] create(1) ok by (simp add: contexts_ok_def)
      then show ?thesis
        using ok slot by (auto simp: contexts_ok_def keeps_def parked_def esp_of_def waits_def)
    qed
  next
    case (terminate q)
    have "st s' = (if q = 0 \<or> 16 \<le> q then st s else (st s)(unat q := PROCESS_TERMINATED))"
      using c by (simp add: terminate process_terminate_def st_set_pcb word_le_nat_alt not_le)
    moreover have "esp (process_table s' ! i) = esp (process_table s ! i)" "ram s' = ram s" "cur s' = cur s" "sched_ok s'" for i
      using ok by (simp_all add: terminate process_terminate_def set_pcb_field [where g = esp] contexts_ok_def)
    ultimately show ?thesis using ok by (auto simp: contexts_ok_def keeps_def parked_def esp_of_def)
  next
    case (unblock q)
    have "st s' = (if 16 \<le> q \<or> st s (unat q) \<noteq> PROCESS_BLOCKED then st s else (st s)(unat q := PROCESS_READY))"
      using c by (auto simp: unblock scheduler_unblock_def st_set_pcb word_le_nat_alt not_le) (simp_all add: st_def)
    moreover have "esp (process_table s' ! i) = esp (process_table s ! i)" "ram s' = ram s" "cur s' = cur s" "sched_ok s'" for i
      using ok by (simp_all add: unblock scheduler_unblock_def set_pcb_field [where g = esp] contexts_ok_def)
    ultimately show ?thesis using ok by (auto simp: contexts_ok_def keeps_def parked_def esp_of_def)
  next
    case block
    have "st s' = (st s)(cur s := PROCESS_BLOCKED)" using c by (simp add: block block_current_def st_set_pcb cur_def)
    moreover have "esp (process_table s' ! i) = esp (process_table s ! i)" "ram s' = ram s" "cur s' = cur s" "sched_ok s'" for i
      using ok by (simp_all add: block block_current_def set_pcb_field [where g = esp] contexts_ok_def)
    ultimately show ?thesis using ok by (auto simp: contexts_ok_def keeps_def parked_def esp_of_def)
  qed
  then show "cur s' = cur s" "contexts_ok L klo s'"
    "p < 16 \<Longrightarrow> p \<noteq> cur s \<Longrightarrow> st s p \<noteq> PROCESS_FREE \<Longrightarrow> keeps L klo p s s'" by blast+
qed

lemma kstep_contexts:
  "stacks_ok L klo \<Longrightarrow> contexts_ok L klo s \<Longrightarrow> kstep L klo s s' \<Longrightarrow> contexts_ok L klo s'"
  by (elim kstepE) (auto intro: quiet_keeps(2) switched_contexts)

lemma kstep_keeps:
  assumes "stacks_ok L klo" "contexts_ok L klo s" "kstep L klo s s'"
    and "p < 16" "p \<noteq> cur s" "st s p \<noteq> PROCESS_FREE"
  shows "keeps L klo p s s'"
  using assms by (elim kstepE) (auto intro: quiet_keeps(3) switched_keeps)

lemma away_keeps:
  assumes "away L klo p s s'" "stacks_ok L klo" "contexts_ok L klo s" "p < 16" "st s p \<noteq> PROCESS_FREE"
  shows "contexts_ok L klo s' \<and> keeps L klo p s s' \<and> cur s' \<noteq> p"
  using assms
proof (induction rule: away.induct)
  case (here s)
  then show ?case by (simp add: keeps_def)
next
  case (more s s' s'')
  then have IH: "contexts_ok L klo s'" "keeps L klo p s s'" "cur s' \<noteq> p" by simp_all
  then have "keeps L klo p s' s''" using more by (intro kstep_keeps) (auto simp: keeps_def)
  with IH more show ?case using kstep_contexts keeps_trans by blast
qed

lemma away_start: "away L klo p s s' \<Longrightarrow> cur s \<noteq> p"
  by (induction rule: away.induct)

lemma process_init_contexts: "contexts_ok L klo (process_init s)"
proof -
  have c: "cur (process_init s) = 0" using process_init_view(2) [of s] by (simp add: view_def)
  have "st (process_init s) i = (if i = 0 then PROCESS_RUNNING else PROCESS_FREE)" if "i < 16" for i
    using that by (rule process_init_view(3))
  then show ?thesis using process_init_view(1) [of s] c by (simp add: contexts_ok_def)
qed

interpretation contexts: preserved "kstep L klo" "\<lambda>s. stacks_ok L klo \<and> contexts_ok L klo s" for L klo
  by unfold_locales (blast intro: kstep_contexts)

lemma reached_contexts:
  "stacks_ok L klo \<Longrightarrow> rtranclp (kstep L klo) (process_init s0) s \<Longrightarrow> contexts_ok L klo s"
  using contexts.run [of L klo "process_init s0" s] process_init_contexts by blast

section \<open>Coming back\<close>

lemma back_again:
  assumes L: "stacks_ok L klo" and ok: "contexts_ok L klo s1" "p < 16" "st s1 p \<noteq> PROCESS_FREE"
    and w: "waits L klo s1 p c r" and aw: "away L klo p s1 s2"
    and sw: "room L klo s2" "switched L s2 s3" "cur s3 = p"
  shows "processor s3 = resumed c (esp (process_table s1 ! p)) r"
    "same_on (stack_lo L klo p) (stack_hi L p) (ram s1) (ram s3)"
proof -
  have k: "contexts_ok L klo s2" "keeps L klo p s1 s2" "cur s2 \<noteq> p"
    using away_keeps [OF aw L ok] by simp_all
  have ne: "cur s2 \<noteq> cur s3" using k(3) sw(3) by simp
  from L k(1) sw(1,2) have "processor s3 = resumed c (esp (process_table s1 ! p)) r"
  proof (cases rule: switched_cases)
    case go
    then show ?thesis using keeps_waits [OF k(2) w] k(2) sw(3) by (simp add: keeps_def)
  qed (use ne in simp)
  moreover have "keeps L klo p s2 s3" using k by (intro switched_keeps [OF L k(1) sw(1,2) ok(2)]) (simp_all add: keeps_def)
  ultimately show "processor s3 = resumed c (esp (process_table s1 ! p)) r"
    "same_on (stack_lo L klo p) (stack_hi L p) (ram s1) (ram s3)"
    using k(2) by (auto simp: keeps_def intro: same_on_trans)
qed

lemma resumes:
  assumes "stacks_ok L klo" "rtranclp (kstep L klo) (process_init s0) s" "room L klo s"
    and "switched L s s1" "away L klo (cur s) s1 s2" "room L klo s2" "switched L s2 s3" "cur s3 = cur s"
  shows "processor s3 = (processor s)\<lparr>cpu_esp := cpu_esp (processor s) - 8, intr := True, eip := resume_addr L\<rparr>
     \<and> same_on (unat (cpu_esp (processor s))) (stack_hi L (cur s)) (ram s) (ram s3)"
proof -
  let ?p = "cur s" let ?e = "cpu_esp (processor s)"
  have ok: "contexts_ok L klo s" using assms(1,2) by (rule reached_contexts)
  have ok1: "contexts_ok L klo s1" using switched_contexts assms(1,3,4) ok by blast
  have p: "?p < 16" "st s1 ?p \<noteq> PROCESS_FREE" "sched_ok s" using ok switched_st(1) [OF _ assms(4), of ?p]
    by (simp_all add: contexts_ok_def sched_ok_def)
  have ne: "cur s1 \<noteq> cur s" using assms(5) by (rule away_start)
  have rm: "stack_lo L klo ?p + 44 \<le> unat ?e" using assms(3) by (simp add: room_def)
  from assms(1) ok assms(3,4)
  have w: "waits L klo s1 ?p (processor s) (resume_addr L)" "esp_of s1 ?p = unat ?e - 44"
    "same_on (unat ?e) (stack_hi L ?p) (ram s) (ram s1)"
    by (cases rule: switched_cases; use ne in \<open>auto intro!: same_onI\<close>)+
  have e: "esp (process_table s1 ! ?p) = ?e - 44"
    using w(2) rm by (simp add: esp_of_def word_unat_eq_iff [where 'a = 32] unat_minus_small)
  note b = back_again [OF assms(1) ok1 p(1,2) w(1) assms(5-8)]
  have "same_on (unat ?e) (stack_hi L ?p) (ram s1) (ram s3)" using b(2) rm by (auto intro: same_on_mono)
  with b(1) w(3) show ?thesis by (auto simp: e resumed_def intro: same_on_trans)
qed

text \<open>C30. Whatever the others do, a process gets the processor back as it gave it up: when a tick or a yield
  takes it from the current process, any number of steps follow in which the process is not current (others
  compute, are created, blocked, woken, terminated and switched), and a switch comes back to it, all its
  registers are as they were, it continues behind its call of \<^verbatim>\<open>context_switch\<close> with interrupts on and
  the two arguments of that call on the stack, and its stack above them is unchanged.\<close>

theorem process_resumes:
  assumes "stacks_ok L klo" "rtranclp (kstep L klo) (process_init s0) s" "room L klo s"
    and "switched L s s1" "away L klo (cur s) s1 s2" "room L klo s2" "switched L s2 s3" "cur s3 = cur s"
  shows "processor s3 = (processor s)\<lparr>cpu_esp := cpu_esp (processor s) - 8, intr := True, eip := resume_addr L\<rparr>
     \<and> same_on (unat (cpu_esp (processor s))) (stack_hi L (cur s)) (ram s) (ram s3)"
  using assms by (rule resumes)

text \<open>C32. A created process begins with a clean machine: whatever happens between its creation and the tick
  or yield that first selects it, it enters its function with all registers zero, interrupts on, and the
  stack pointer at the end of its own 4 KiB stack.\<close>

theorem process_starts:
  assumes "stacks_ok L klo" "rtranclp (kstep L klo) (process_init s0) s" "cstr_ok nm"
    and "process_create (stacks_addr L) nm entry s = (int i, s1)"
    and "away L klo i s1 s2" "room L klo s2" "switched L s2 s3" "cur s3 = i"
  shows "processor s3 = \<lparr>eax = 0, ecx = 0, edx = 0, ebx = 0, cpu_esp = stacks_addr L + of_nat i * 4096 + 4096,
     ebp = 0, esi = 0, edi = 0, eip = entry, intr = True\<rparr>"
proof -
  have ok: "contexts_ok L klo s" using assms(1,2) by (rule reached_contexts)
  have ok1: "contexts_ok L klo s1"
    using quiet_keeps(2) [OF assms(1) ok quiet.create [of nm L klo s entry]] assms(3,4) by simp
  from assms(1) ok assms(3,4) show ?thesis
  proof (cases rule: create_facts)
    case (slot j)
    then have j: "j = i" by simp
    have "i < 16" "st s1 i \<noteq> PROCESS_FREE" using slot j by simp_all
    from back_again(1) [OF assms(1) ok1 this slot(8) [unfolded j] assms(5-8)] slot(9)
    show ?thesis by (simp add: resumed_def j)
  qed simp
qed

section \<open>The types of the control blocks\<close>

text \<open>The fields only creation writes.\<close>

definition ident :: "pcb \<Rightarrow> u32 \<times> u32 \<times> memory" where
  "ident p = (pid p, stack p, name p)"

definition ident_ok :: "layout \<Rightarrow> nat \<Rightarrow> pcb \<Rightarrow> bool" where
  "ident_ok L i p \<longleftrightarrow> pid p = of_nat i \<and> stack p = (if i = 0 then 0x90000 else stacks_addr L + of_nat i * 4096)
     \<and> (\<exists>k < 32. name p k = 0)"

lemma ident_ok_cong: "ident p = ident q \<Longrightarrow> ident_ok L i p = ident_ok L i q"
  by (simp add: ident_def ident_ok_def)

definition live :: "process_state \<Rightarrow> bool" where
  "live x \<longleftrightarrow> x \<noteq> PROCESS_FREE \<and> x \<noteq> PROCESS_TERMINATED"

text \<open>The current process may be terminated or blocked and still compute, so it counts too.\<close>

definition used :: "'a procs_scheme \<Rightarrow> nat \<Rightarrow> bool" where
  "used s i \<longleftrightarrow> live (st s i) \<or> i = cur s"

definition typed :: "layout \<Rightarrow> 'a procs_scheme \<Rightarrow> bool" where
  "typed L s \<longleftrightarrow> (\<forall>i < 16. used s i \<longrightarrow> ident_ok L i (process_table s ! i))"

lemma typed_step:
  assumes "typed L s"
    and "\<And>i. i < 16 \<Longrightarrow> used s' i \<Longrightarrow>
      used s i \<and> ident (process_table s' ! i) = ident (process_table s ! i) \<or> ident_ok L i (process_table s' ! i)"
  shows "typed L s'"
  using assms ident_ok_cong unfolding typed_def by blast

lemma ident_upd [simp]: "ident (p\<lparr>state := x\<rparr>) = ident p" "ident (p\<lparr>esp := e\<rparr>) = ident p"
  by (simp_all add: ident_def)

lemma call_ident: "ident (process_table (call_context_switch L a b s) ! j) = ident (process_table s ! j)"
  by (simp add: call_context_switch_def Let_def set_pcb_field [where g = ident] split: prod.splits)

lemma switch_states_ident: "switch_states s = Some t \<Longrightarrow> ident (process_table t ! j) = ident (process_table s ! j)"
  by (auto simp: switch_states_def Let_def set_pcb_field [where g = ident] split: if_splits)

lemma switched_ident:
  assumes "switched L s s'"
  shows "ident (process_table s' ! j) = ident (process_table s ! j)"
proof -
  obtain u where u: "process_table u = process_table s"
    and p: "let (r, t) = pick_and_switch L u in s' = t \<or> r = 0 \<and> (\<exists>c. s' = t\<lparr>processor := c\<rparr>)"
    using switched_pick [OF assms] by blast
  have "ident (process_table (snd (pick_and_switch L u)) ! j) = ident (process_table u ! j)"
    by (simp add: pick_and_switch_def call_ident switch_states_ident split: option.splits)
  with u p show ?thesis by (auto simp: split_beta)
qed

lemma typed_state:
  assumes "typed L s" "length (process_table s) = 16" "i < 16" "used s i \<or> \<not> live x"
  shows "typed L (set_pcb i (\<lambda>p. p\<lparr>state := x\<rparr>) s)"
  using assms(1)
proof (rule typed_step)
  fix j assume "j < 16" "used (set_pcb i (\<lambda>p. p\<lparr>state := x\<rparr>) s) j"
  then have "used s j" using assms(2-4) by (auto simp: used_def st_set_pcb split: if_splits)
  then show "used s j \<and> ident (process_table (set_pcb i (\<lambda>p. p\<lparr>state := x\<rparr>) s) ! j) = ident (process_table s ! j)
      \<or> ident_ok L j (process_table (set_pcb i (\<lambda>p. p\<lparr>state := x\<rparr>) s) ! j)"
    by (simp add: set_pcb_field [where g = ident])
qed

lemma switched_used:
  assumes "sched_ok s" "switched L s s'" "used s' i"
  shows "used s i"
proof -
  have e: "st s' = fst (abs_switch (st s, cur s))" "cur s' = next_of (st s) (cur s)"
    using conjunct2 [OF switched_view [OF assms(1,2)]] switched_st(2) [OF assms(1,2)] by (metis fst_conv)+
  show ?thesis
  proof (cases "next_of (st s) (cur s) = cur s")
    case True
    with assms(3) e show ?thesis by (simp add: used_def)
  next
    case False
    from next_of_ready [OF False] False assms(3) e show ?thesis
      by (auto simp: used_def live_def Let_def split: if_splits)
  qed
qed

lemma quiet_typed:
  assumes L: "stacks_ok L klo" and ok: "contexts_ok L klo s" and t: "typed L s" and step: "quiet L klo s s'"
  shows "typed L s'"
proof -
  have c: "length (process_table s) = 16" "cur s < 16" using ok by (simp_all add: contexts_ok_def sched_ok_def)
  from step show ?thesis
  proof cases
    case (compute m c0)
    with t show ?thesis by (simp add: typed_def used_def st_def cur_def)
  next
    case (create nm entry)
    obtain res where "process_create (stacks_addr L) nm entry s = (res, s')" using create(1) by (metis prod.collapse)
    from L ok create(2) this show ?thesis
    proof (cases rule: create_facts)
      case (slot i)
      show ?thesis
      proof (rule typed_step [OF t])
        fix j assume "j < 16" "used s' j"
        with slot show "used s j \<and> ident (process_table s' ! j) = ident (process_table s ! j)
            \<or> ident_ok L j (process_table s' ! j)"
          by (cases "j = i") (simp_all add: ident_ok_def used_def)
      qed
    qed (use t in simp)
  next
    case (terminate q)
    then show ?thesis using t c
      by (auto simp: process_terminate_def live_def word_le_nat_alt not_le intro!: typed_state)
  next
    case (unblock q)
    then show ?thesis using t c
      by (auto simp: scheduler_unblock_def used_def live_def st_def word_le_nat_alt not_le intro!: typed_state)
  next
    case block
    then show ?thesis using t c
      by (auto simp: block_current_def used_def cur_def intro!: typed_state)
  qed
qed

lemma kstep_typed:
  assumes "stacks_ok L klo" "contexts_ok L klo s" "typed L s" "kstep L klo s s'"
  shows "typed L s'"
  using assms(4)
proof cases
  case quiet
  with quiet_typed [OF assms(1-3)] show ?thesis by blast
next
  case switch
  have "sched_ok s" using assms(2) by (simp add: contexts_ok_def)
  with switch(2) assms(3) show ?thesis by (intro typed_step [of L s s']) (simp_all add: switched_used switched_ident)
qed

interpretation table: preserved "kstep L klo" "\<lambda>s. stacks_ok L klo \<and> contexts_ok L klo s \<and> typed L s" for L klo
  by unfold_locales (blast intro: kstep_contexts kstep_typed)

lemma process_init_typed: "typed L (process_init s)"
proof -
  have "name (process_table (process_init s) ! 0) 6 = 0"
    by (simp add: process_init_def Let_def set_pcb_def zero_pcb_def proc_strncpy_32 cstr_ok_def bytes_def put_str_def)
  then have "ident_ok L 0 (process_table (process_init s) ! 0)"
    unfolding ident_ok_def by (intro conjI exI [of _ 6]) (simp_all add: process_init_def Let_def set_pcb_def zero_pcb_def)
  moreover have "i = 0" if "i < 16" "used (process_init s) i" for i
    using that process_init_view(2) [of s] process_init_view(3) [of i s] by (auto simp: used_def live_def view_def split: if_splits)
  ultimately show ?thesis by (auto simp: typed_def)
qed

text \<open>C34. The process table stays well typed: in every state the kernel can reach, each slot that is READY,
  RUNNING or BLOCKED holds its own index as its pid, its own 4 KiB stack (the boot stack for slot 0) and a
  name that ends within its 32 bytes; and if it is READY or BLOCKED and not current, its saved stack pointer
  leaves room for the nine saved words inside that stack.\<close>

theorem process_table_typed:
  assumes "stacks_ok L klo" "rtranclp (kstep L klo) (process_init s0) s"
    and "i < 16" "state (process_table s ! i) \<noteq> PROCESS_FREE" "state (process_table s ! i) \<noteq> PROCESS_TERMINATED"
  shows "pid (process_table s ! i) = of_nat i
     \<and> stack (process_table s ! i) = (if i = 0 then 0x90000 else stacks_addr L + of_nat i * 4096)
     \<and> (\<exists>k < 32. name (process_table s ! i) k = 0)
     \<and> (i \<noteq> cur s \<and> state (process_table s ! i) \<noteq> PROCESS_RUNNING \<longrightarrow>
          stack_lo L klo i \<le> unat (esp (process_table s ! i)) \<and> unat (esp (process_table s ! i)) + 36 \<le> stack_hi L i)"
proof -
  have inv: "contexts_ok L klo s" "typed L s"
    using table.run [of L klo "process_init s0" s] process_init_contexts process_init_typed assms(1,2) by blast+
  have "used s i" "ident_ok L i (process_table s ! i)"
    using inv(2) assms(3-5) by (simp_all add: used_def live_def typed_def st_def)
  moreover have "parked L klo s i" if "i \<noteq> cur s" "state (process_table s ! i) \<noteq> PROCESS_RUNNING"
    using inv(1) assms(3-5) that by (cases "st s i") (auto simp: contexts_ok_def st_def)
  ultimately show ?thesis by (simp add: ident_ok_def parked_def esp_of_def)
qed


section \<open>The properties at work\<close>

text \<open>The kernel process, 256 bytes into its stack, creates a process; a tick selects it, another one
  goes back to the kernel.\<close>

definition demo_boot :: sched where
  "demo_boot = process_init (demo_sched\<lparr>processor := demo_cpu\<lparr>cpu_esp := 0x8FF00\<rparr>\<rparr>)"

definition demo_created :: sched where
  "demo_created = snd (process_create (stacks_addr demo_layout) (bytes ''a'') 0x10234 demo_boot)"

definition demo_running :: sched where
  "demo_running = scheduler_tick demo_layout demo_created"

lemma demo_stacks: "stacks_ok demo_layout 0x80000"
  by (simp add: stacks_ok_def demo_layout_def)

lemma demo_name: "cstr_ok (bytes ''a'')"
  by (simp add: cstr_ok_def bytes_def)

lemma demo_boot_facts: "contexts_ok demo_layout 0x80000 demo_boot" "cur demo_boot = 0"
  "i < 16 \<Longrightarrow> st demo_boot i = (if i = 0 then PROCESS_RUNNING else PROCESS_FREE)" "cpu_esp (processor demo_boot) = 0x8FF00"
proof -
  let ?s = "demo_sched\<lparr>processor := demo_cpu\<lparr>cpu_esp := 0x8FF00\<rparr>\<rparr>"
  show "contexts_ok demo_layout 0x80000 demo_boot" unfolding demo_boot_def by (rule process_init_contexts)
  show "cur demo_boot = 0" using process_init_view(2) [of ?s] by (simp add: demo_boot_def view_def)
  show "i < 16 \<Longrightarrow> st demo_boot i = (if i = 0 then PROCESS_RUNNING else PROCESS_FREE)"
    unfolding demo_boot_def by (rule process_init_view(3))
  show "cpu_esp (processor demo_boot) = 0x8FF00" by (simp add: demo_boot_def process_init_def Let_def set_pcb_def)
qed

lemma demo_create: "process_create (stacks_addr demo_layout) (bytes ''a'') 0x10234 demo_boot = (int 1, demo_created)"
  "processor demo_created = processor demo_boot"
proof -
  have len: "length (process_table demo_boot) = 16" using demo_boot_facts(1) by (simp add: contexts_ok_def sched_ok_def)
  have "first_free demo_boot = Some 1" using demo_boot_facts(3) [of 1] by (simp add: first_free_def loop_simps st_def)
  from process_create_slot [OF this len _ demo_name, of "stacks_addr demo_layout" "0x10234"]
  show "process_create (stacks_addr demo_layout) (bytes ''a'') 0x10234 demo_boot = (int 1, demo_created)"
    "processor demo_created = processor demo_boot"
    by (auto simp: demo_created_def demo_layout_def)
qed

lemma demo_created_facts: "contexts_ok demo_layout 0x80000 demo_created" "cur demo_created = 0"
  "i < 16 \<Longrightarrow> st demo_created i = (if i = 0 then PROCESS_RUNNING else if i = 1 then PROCESS_READY else PROCESS_FREE)"
  "room demo_layout 0x80000 demo_created"
  "waits demo_layout 0x80000 demo_created 1
     \<lparr>eax = 0, ecx = 0, edx = 0, ebx = 0, cpu_esp = 0, ebp = 0, esi = 0, edi = 0, eip = 0, intr = True\<rparr> 0x10234"
  "esp (process_table demo_created ! 1) = 0x21FDC"
proof -
  show c: "contexts_ok demo_layout 0x80000 demo_created"
    using quiet_keeps(2) [OF demo_stacks demo_boot_facts(1) quiet.create [OF demo_name], of "0x10234"]
    by (simp add: demo_create(1))
  show "cur demo_created = 0" and s: "i < 16 \<Longrightarrow> st demo_created i =
      (if i = 0 then PROCESS_RUNNING else if i = 1 then PROCESS_READY else PROCESS_FREE)"
    "waits demo_layout 0x80000 demo_created 1
     \<lparr>eax = 0, ecx = 0, edx = 0, ebx = 0, cpu_esp = 0, ebp = 0, esi = 0, edi = 0, eip = 0, intr = True\<rparr> 0x10234"
    "esp (process_table demo_created ! 1) = 0x21FDC"
    by (rule create_facts [OF demo_stacks demo_boot_facts(1) demo_name demo_create(1)];
      use demo_boot_facts in \<open>simp add: demo_layout_def\<close>)+
  then show "room demo_layout 0x80000 demo_created"
    using demo_create(2) demo_boot_facts(4) by (simp add: room_def stack_lo_def stack_hi_def)
qed

text \<open>Whatever the kernel process computes before the tick, the tick starts the new process, which has
  room on its stack, and a yield of that process goes back to the kernel.\<close>

lemma demo_round:
  assumes q: "quiet demo_layout 0x80000 demo_created u" and st: "st u = st demo_created" and rm: "room demo_layout 0x80000 u"
  defines "v \<equiv> scheduler_tick demo_layout u"
  shows "cur u = 0" "cur v = 1" "room demo_layout 0x80000 v" "switched demo_layout u v"
    "switched demo_layout v (scheduler_yield demo_layout v)" "cur (scheduler_yield demo_layout v) = cur u"
    "processor v = resumed
       \<lparr>eax = 0, ecx = 0, edx = 0, ebx = 0, cpu_esp = 0, ebp = 0, esi = 0, edi = 0, eip = 0, intr = True\<rparr> 0x21FDC 0x10234"
proof -
  note k = quiet_keeps [OF demo_stacks demo_created_facts(1) q]
  show cu: "cur u = 0" using k(1) demo_created_facts(2) by simp
  have kp: "keeps demo_layout 0x80000 1 demo_created u"
    using k(3) [of 1] demo_created_facts(3) [of 1] by (simp add: demo_created_facts(2))
  have u1: "waits demo_layout 0x80000 u 1
     \<lparr>eax = 0, ecx = 0, edx = 0, ebx = 0, cpu_esp = 0, ebp = 0, esi = 0, edi = 0, eip = 0, intr = True\<rparr> 0x10234"
    "esp (process_table u ! 1) = 0x21FDC"
    using keeps_waits [OF kp demo_created_facts(5)] kp demo_created_facts(6) by (simp_all add: keeps_def)
  have ok: "sched_ok u" using k(2) by (simp add: contexts_ok_def)
  have "for_find (\<lambda>i. st u ((0 + i) mod 16) = PROCESS_READY) 1 16 = Some 1"
    using demo_created_facts(3) [of 1] by (simp add: loop_simps st)
  then have n: "next_of (st u) (cur u) = 1" by (simp add: next_of_def cu)
  show sw: "switched demo_layout u v" by (simp add: switched_def v_def)
  show c: "cur v = 1" using switched_st(2) [OF ok sw] n by simp
  show p: "processor v = resumed
     \<lparr>eax = 0, ecx = 0, edx = 0, ebx = 0, cpu_esp = 0, ebp = 0, esi = 0, edi = 0, eip = 0, intr = True\<rparr> 0x21FDC 0x10234"
    by (rule switched_cases [OF demo_stacks k(2) rm sw]) (use c cu u1 n in simp_all)
  then show "room demo_layout 0x80000 v"
    by (simp add: room_def c resumed_def stack_lo_def stack_hi_def demo_layout_def)
  have "st v = fst (abs_switch (st u, cur u))"
    using switched_view [OF ok sw] by (metis fst_conv)
  then have stv: "st v i = (if i = 0 then PROCESS_READY else if i = 1 then PROCESS_RUNNING else PROCESS_FREE)" if "i < 16" for i
    using that demo_created_facts(3) [of i] demo_created_facts(3) [of 0] n by (simp add: cu st Let_def)
  have "for_find (\<lambda>i. st v ((1 + i) mod 16) = PROCESS_READY) 1 16 = Some 15"
    by (simp add: loop_simps stv)
  then have n': "next_of (st v) (cur v) = 0" by (simp add: next_of_def c)
  show sw': "switched demo_layout v (scheduler_yield demo_layout v)" by (simp add: switched_def)
  from switched_st(2) [OF switched_st(3) [OF ok sw] this] show "cur (scheduler_yield demo_layout v) = cur u"
    by (simp only: n' cu)
qed

lemma demo_reach: "rtranclp (kstep demo_layout 0x80000) demo_boot demo_created"
proof -
  have "quiet demo_layout 0x80000 demo_boot demo_created"
    unfolding demo_created_def using demo_name by (rule quiet.create)
  then show ?thesis by (intro r_into_rtranclp kstep.quiet)
qed

lemma demo_idle: "quiet demo_layout 0x80000 demo_created demo_created"
  using quiet.compute [of demo_created _ _ "ram demo_created" "processor demo_created"] by simp

lemmas demo_run = demo_round [OF demo_idle refl demo_created_facts(4), folded demo_running_def]

theorem process_resumes_witness:
  "processor (scheduler_yield demo_layout demo_running) = demo_cpu\<lparr>cpu_esp := 0x8FEF8, intr := True, eip := 0x10077\<rparr>"
proof -
  have aw: "away demo_layout 0x80000 (cur demo_created) demo_running demo_running"
    by (rule away.here) (simp add: demo_run(1,2))
  have p: "processor demo_created = demo_cpu\<lparr>cpu_esp := 0x8FF00\<rparr>"
    by (simp add: demo_create(2) demo_boot_def process_init_def Let_def set_pcb_def demo_sched_def)
  show ?thesis
    using process_resumes [OF demo_stacks demo_reach [unfolded demo_boot_def] demo_created_facts(4) demo_run(4) aw
        demo_run(3,5,6)]
    by (simp add: p) (simp add: demo_layout_def)
qed

theorem process_starts_witness:
  "processor demo_running = \<lparr>eax = 0, ecx = 0, edx = 0, ebx = 0, cpu_esp = 0x22000, ebp = 0, esi = 0, edi = 0,
     eip = 0x10234, intr = True\<rparr>"
proof -
  have "away demo_layout 0x80000 1 demo_created demo_created"
    by (rule away.here) (simp add: demo_created_facts(2))
  from process_starts [OF demo_stacks rtranclp.rtrancl_refl demo_name demo_create(1) [unfolded demo_boot_def] this
      demo_created_facts(4) demo_run(4,2)]
  show ?thesis by (simp add: demo_layout_def)
qed

theorem process_table_typed_witness:
  "pid (process_table demo_created ! 1) = 1 \<and> stack (process_table demo_created ! 1) = 0x21000
     \<and> unat (esp (process_table demo_created ! 1)) + 36 \<le> 0x22000"
  using process_table_typed [OF demo_stacks demo_reach [unfolded demo_boot_def], of 1] demo_created_facts(3) [of 1]
  by (simp add: st_def demo_created_facts(2)) (simp add: demo_layout_def stack_hi_def)

end
