(* ===== verification/CreateRace.thy ===== *)
theory CreateRace
  imports Contexts
begin

text \<open>
  A timer tick in the middle of \<^verbatim>\<open>process_create\<close> (\<^verbatim>\<open>kernel/process.c\<close>), which the shell calls with
  interrupts on. The function is the sequence of its stores in the order of the source; the name is copied
  in one step, since nothing but \<^verbatim>\<open>ps\<close> reads it. The function as a whole is the run of all of them.
\<close>

section \<open>The stores of process_create\<close>

text \<open>\<^verbatim>\<open>*(--stack_top) = v\<close> nine times: the word \<open>k\<close> words below the end of the stack gets its value.\<close>

definition frame_stores :: "u32 \<Rightarrow> u32 \<Rightarrow> ('a procs_scheme \<Rightarrow> 'a procs_scheme) list" where
  "frame_stores base entry =
     map (\<lambda>(k, v) s. s\<lparr>ram := wr32 (ram s) (unat (base + STACK_SIZE - 4 * of_nat k)) v\<rparr>)
       ((1, entry) # map (\<lambda>k. (k, 0)) [2..<10])"

definition table_stores :: "u32 \<Rightarrow> cstr \<Rightarrow> nat \<Rightarrow> ('a procs_scheme \<Rightarrow> 'a procs_scheme) list" where
  "table_stores base nm slot =
     [set_pcb slot (\<lambda>p. p\<lparr>pid := of_nat slot\<rparr>),
      set_pcb slot (\<lambda>p. p\<lparr>state := PROCESS_READY\<rparr>),
      set_pcb slot (\<lambda>p. p\<lparr>esp := base + STACK_SIZE - 36\<rparr>),
      set_pcb slot (\<lambda>p. p\<lparr>stack := base\<rparr>),
      set_pcb slot (\<lambda>p. p\<lparr>name := proc_strncpy (name p) nm 32\<rparr>)]"

definition create_stores :: "u32 \<Rightarrow> cstr \<Rightarrow> u32 \<Rightarrow> nat \<Rightarrow> ('a procs_scheme \<Rightarrow> 'a procs_scheme) list" where
  "create_stores stacks nm entry slot =
     frame_stores (stacks + of_nat slot * STACK_SIZE) entry @ table_stores (stacks + of_nat slot * STACK_SIZE) nm slot"

text \<open>The state after the first \<open>k\<close> stores.\<close>

definition create_part :: "u32 \<Rightarrow> cstr \<Rightarrow> u32 \<Rightarrow> nat \<Rightarrow> nat \<Rightarrow> 'a procs_scheme \<Rightarrow> 'a procs_scheme" where
  "create_part stacks nm entry slot k s = fold (\<lambda>f. f) (take k (create_stores stacks nm entry slot)) s"

section \<open>The whole function\<close>

lemma frame_nine: "(1, entry) # map (\<lambda>k. (k, 0)) [2..<10]
    = [(1 :: nat, entry), (2, 0), (3, 0), (4, 0), (5, 0), (6, 0), (7, 0), (8, 0), (9, 0)]"
  by (simp add: upt_rec)

lemma length_frame_stores [simp]: "length (frame_stores base entry) = 9"
  by (simp add: frame_stores_def)

lemma frame_stores_frame:
  "fold (\<lambda>f. f) (frame_stores base entry) s = s\<lparr>ram := snd (initial_frame entry (base + STACK_SIZE, ram s))\<rparr>"
  unfolding frame_stores_def frame_nine initial_frame_def push_def Let_def by simp

lemma initial_frame_top: "fst (initial_frame entry (p, m)) = p - 36"
  by (simp add: initial_frame_def push_def)

lemma create_part_frame:
  assumes "9 \<le> k"
  shows "create_part stacks nm entry slot k s =
    fold (\<lambda>f. f) (take (k - 9) (table_stores (stacks + of_nat slot * STACK_SIZE) nm slot))
      (s\<lparr>ram := snd (initial_frame entry (stacks + of_nat slot * STACK_SIZE + STACK_SIZE, ram s))\<rparr>)"
  using assms by (simp add: create_part_def create_stores_def frame_stores_frame)

text \<open>The sequence of stores is \<^verbatim>\<open>process_create\<close>: without an interruption all fourteen of them on the
  lowest free slot are the whole effect of the function.\<close>

theorem create_stores_whole:
  "process_create stacks nm entry s =
     (case first_free s of None \<Rightarrow> (-1, s) | Some slot \<Rightarrow> (int slot, create_part stacks nm entry slot 14 s))"
proof (cases "first_free s")
  case None
  then show ?thesis by (simp add: process_create_none)
next
  case (Some slot)
  let ?base = "stacks + of_nat slot * STACK_SIZE"
  obtain m where m: "initial_frame entry (?base + STACK_SIZE, ram s) = (?base + STACK_SIZE - 36, m)"
    using initial_frame_top [of entry "?base + STACK_SIZE" "ram s"] by (metis prod.collapse)
  show ?thesis
    using Some by (simp add: create_part_frame process_create_def first_free_def m Let_def table_stores_def)
qed

section \<open>A tick between two stores\<close>

text \<open>A free slot has never been used, so its saved stack pointer is still the zero of \<^verbatim>\<open>process_init\<close>.\<close>

definition unused_zero :: "sched \<Rightarrow> bool" where
  "unused_zero s \<longleftrightarrow> (\<forall>i < 16. st s i = PROCESS_FREE \<longrightarrow> esp (process_table s ! i) = 0)"

lemma unused_zero_step:
  assumes "unused_zero s"
    and "\<And>i. i < 16 \<Longrightarrow> st s' i = PROCESS_FREE \<Longrightarrow> st s i = PROCESS_FREE \<and> esp (process_table s' ! i) = esp (process_table s ! i)"
  shows "unused_zero s'"
  using assms by (simp add: unused_zero_def)

lemma unused_zero_state: "unused_zero s \<Longrightarrow> x \<noteq> PROCESS_FREE \<Longrightarrow> unused_zero (set_pcb i (\<lambda>p. p\<lparr>state := x\<rparr>) s)"
  by (cases "i < length (process_table s)")
    (auto simp: unused_zero_def st_set_pcb set_pcb_field [where g = esp], simp_all add: set_pcb_def list_update_beyond)

lemma kstep_unused_zero:
  assumes L: "stacks_ok L klo" and ok: "contexts_ok L klo s" and z: "unused_zero s" and step: "kstep L klo s s'"
  shows "unused_zero s'"
  using step
proof cases
  case quiet
  then show ?thesis
  proof cases
    case (create nm entry)
    obtain res where "process_create (stacks_addr L) nm entry s = (res, s')" using create(1) by (metis prod.collapse)
    from L ok create(2) this show ?thesis
    proof (cases rule: create_facts)
      case (slot i)
      show ?thesis by (rule unused_zero_step [OF z]) (use slot in \<open>auto split: if_splits\<close>)
    qed (use z in simp)
  qed (use z in \<open>simp_all add: unused_zero_state process_terminate_def scheduler_unblock_def block_current_def\<close>,
      simp add: unused_zero_def st_def)
next
  case switch
  have sok: "sched_ok s" "st s (cur s) \<noteq> PROCESS_FREE" using ok by (simp_all add: contexts_ok_def)
  show ?thesis
  proof (rule unused_zero_step [OF z])
    fix i assume i: "i < 16" "st s' i = PROCESS_FREE"
    then have f: "st s i = PROCESS_FREE" using switched_st(1) [OF sok(1) switch(2)] by simp
    then have "i \<noteq> cur s" using sok(2) by auto
    from L ok switch have "esp (process_table s' ! i) = esp (process_table s ! i)"
      by (cases rule: switched_cases) (use \<open>i \<noteq> cur s\<close> in simp_all)
    with f show "st s i = PROCESS_FREE \<and> esp (process_table s' ! i) = esp (process_table s ! i)" by simp
  qed
qed

interpretation unused: preserved "kstep L klo" "\<lambda>s. stacks_ok L klo \<and> contexts_ok L klo s \<and> unused_zero s" for L klo
  by unfold_locales (blast intro: kstep_contexts kstep_unused_zero)

lemma process_init_unused_zero: "unused_zero (process_init s)"
  by (auto simp: unused_zero_def process_init_def Let_def set_pcb_def zero_pcb_def nth_list_update)

text \<open>A tick is \<^verbatim>\<open>pick_and_switch\<close> after two stores that concern neither table nor memory.\<close>

lemma tick_pick:
  "scheduler_tick L s = snd (pick_and_switch L (s\<lparr>tick_count := tick_count s + 1, ports_out := pic_send_eoi 0 (ports_out s)\<rparr>))"
  by (simp add: scheduler_tick_def Let_def)

lemma tick_stays:
  assumes "sched_ok s" "next_of (st s) (cur s) = cur s"
  shows "cur (scheduler_tick L s) = cur s" "processor (scheduler_tick L s) = processor s"
    "process_table (scheduler_tick L s) = process_table s"
proof -
  let ?u = "s\<lparr>tick_count := tick_count s + 1, ports_out := pic_send_eoi 0 (ports_out s)\<rparr>"
  have "pick_and_switch L ?u = (0, ?u)"
    by (rule switch_none) (use assms in \<open>simp_all add: sched_ok_def st_def [abs_def] cur_def\<close>)
  then show "cur (scheduler_tick L s) = cur s" "processor (scheduler_tick L s) = processor s"
    "process_table (scheduler_tick L s) = process_table s"
    by (simp_all add: tick_pick cur_def)
qed

lemma tick_goes:
  assumes "sched_ok s" "next_of (st s) (cur s) = n" "n \<noteq> cur s" "unat (cpu_esp (processor s)) = q + 44"
    and "unat (esp (process_table s ! n)) + 36 < 2 ^ 32"
    and "saved_frame c0 (ram s) (unat (esp (process_table s ! n)))" "rd32 (ram s) (unat (esp (process_table s ! n)) + 32) = r"
    and "unat (esp (process_table s ! n)) + 36 \<le> q \<or> q + 44 \<le> unat (esp (process_table s ! n))"
  shows "cur (scheduler_tick L s) = n" "processor (scheduler_tick L s) = resumed c0 (esp (process_table s ! n)) r"
proof -
  let ?u = "s\<lparr>tick_count := tick_count s + 1, ports_out := pic_send_eoi 0 (ports_out s)\<rparr>"
  have u: "sched_ok ?u" "st ?u = st s" "cur ?u = cur s"
    using assms(1) by (simp_all add: sched_ok_def st_def [abs_def] cur_def)
  have "\<exists>s'. pick_and_switch L ?u = (1, s') \<and> cur s' = n \<and> processor s' = resumed c0 (esp (process_table s ! n)) r"
    using switch_to [of ?u n q c0 r L] assms u by fastforce
  then show "cur (scheduler_tick L s) = n" "processor (scheduler_tick L s) = resumed c0 (esp (process_table s ! n)) r"
    by (auto simp: tick_pick)
qed

section \<open>The state after some of the stores\<close>

lemma create_part_early:
  assumes "k \<le> 9"
  shows "\<exists>m. create_part stacks nm entry slot k s = s\<lparr>ram := m\<rparr>"
proof -
  have "\<exists>m. fold (\<lambda>f. f) fs s = s\<lparr>ram := m\<rparr>" if "set fs \<subseteq> set (frame_stores base entry)"
    for fs :: "('a procs_scheme \<Rightarrow> 'a procs_scheme) list" and base
    using that
  proof (induction fs arbitrary: s)
    case (Cons f fs)
    then obtain m where m: "f s = s\<lparr>ram := m\<rparr>" by (auto simp: frame_stores_def)
    have "\<exists>m'. fold (\<lambda>f. f) fs (s\<lparr>ram := m\<rparr>) = (s\<lparr>ram := m\<rparr>)\<lparr>ram := m'\<rparr>"
      using Cons.prems by (intro Cons.IH) simp
    then show ?case by (simp add: m)
  next
    case Nil
    show ?case by (rule exI [of _ "ram s"]) simp
  qed
  moreover have "take k (create_stores stacks nm entry slot)
      = take k (frame_stores (stacks + of_nat slot * STACK_SIZE) entry)"
    using assms by (simp add: create_stores_def)
  ultimately show ?thesis unfolding create_part_def by (metis set_take_subset)
qed

lemma create_part_pid:
  "create_part stacks nm entry slot 10 s =
     set_pcb slot (\<lambda>p. p\<lparr>pid := of_nat slot\<rparr>) (s\<lparr>ram := snd (initial_frame entry (stacks + of_nat slot * STACK_SIZE + STACK_SIZE, ram s))\<rparr>)"
  by (simp add: create_part_frame table_stores_def)

text \<open>From the eleventh store on the slot is READY, from the twelfth on with its stack pointer.\<close>

lemma create_part_late:
  assumes "11 \<le> k" "k \<le> 14" "slot < length (process_table s)"
  shows "\<exists>g. create_part stacks nm entry slot k s = set_pcb slot g
       (s\<lparr>ram := snd (initial_frame entry (stacks + of_nat slot * STACK_SIZE + STACK_SIZE, ram s))\<rparr>)
     \<and> (\<forall>p. state (g p) = PROCESS_READY \<and> esp (g p) = (if k = 11 then esp p else stacks + of_nat slot * STACK_SIZE + STACK_SIZE - 36))"
proof -
  consider "k = 11" | "k = 12" | "k = 13" | "k = 14" using assms(1,2) by linarith
  then show ?thesis
    by cases (use assms(3) in \<open>simp_all add: create_part_frame table_stores_def\<close>, (rule exI, rule conjI, rule refl, simp)+)
qed

lemma next_of_only:
  assumes "f n = PROCESS_READY" "\<forall>i < 16. i \<noteq> n \<longrightarrow> f i \<noteq> PROCESS_READY" "n < 16" "c < 16" "n \<noteq> c"
  shows "next_of f c = n"
proof -
  let ?i = "(n + 16 - c) mod 16"
  have "(c + ?i) mod 16 = (c + (n + 16 - c)) mod 16" by (rule mod_add_right_eq)
  also have "\<dots> = n" using assms(3,4) by simp
  finally have i: "f ((c + ?i) mod 16) = PROCESS_READY" using assms(1) by simp
  have "1 \<le> ?i" "?i < 16" using assms(3-5) by (auto simp: mod_if)
  with i have "for_find (\<lambda>i. f ((c + i) mod 16) = PROCESS_READY) 1 16 \<noteq> None"
    unfolding for_find_None_iff by blast
  then obtain j where j: "for_find (\<lambda>i. f ((c + i) mod 16) = PROCESS_READY) 1 16 = Some j" by blast
  have "(c + j) mod 16 = n" using for_find_SomeD(3) [OF j] assms(2) by (metis mod_less_divisor zero_less_numeral)
  then show ?thesis unfolding next_of_def j by simp
qed

lemma next_of_none: "\<forall>i < 16. f i \<noteq> PROCESS_READY \<Longrightarrow> c < 16 \<Longrightarrow> next_of f c = c"
  using next_of_ready [of f c] next_of_less [of c f] by blast

section \<open>Where a tick does harm\<close>

lemma create_part_tick:
  assumes L: "stacks_ok L klo" and low: "36 \<le> klo" and ok: "contexts_ok L klo s" "unused_zero s" and rm: "room L klo s"
    and ff: "first_free s = Some slot" and idle: "\<forall>i < 16. st s i \<noteq> PROCESS_READY"
    and k: "11 \<le> k" "k \<le> 14"
  shows "cur (scheduler_tick L (create_part (stacks_addr L) nm entry slot k s)) = slot"
    "processor (scheduler_tick L (create_part (stacks_addr L) nm entry slot k s)) =
      (if k = 11 then resumed \<lparr>eax = rd32 (ram s) 28, ecx = rd32 (ram s) 24, edx = rd32 (ram s) 20, ebx = rd32 (ram s) 16,
         cpu_esp = 0, ebp = rd32 (ram s) 8, esi = rd32 (ram s) 4, edi = rd32 (ram s) 0, eip = 0, intr = False\<rparr> 0 (rd32 (ram s) 32)
       else \<lparr>eax = 0, ecx = 0, edx = 0, ebx = 0, cpu_esp = stacks_addr L + of_nat slot * 4096 + 4096,
         ebp = 0, esi = 0, edi = 0, eip = entry, intr = True\<rparr>)"
proof -
  let ?base = "stacks_addr L + of_nat slot * STACK_SIZE"
  let ?u = "create_part (stacks_addr L) nm entry slot k s"
  have sl: "1 \<le> slot" "slot < 16" "st s slot = PROCESS_FREE" using ff by (auto simp: first_free_def loop_simps st_def)
  have c: "sched_ok s" "cur s < 16" "length (process_table s) = 16" "slot \<noteq> cur s"
    using ok sl(3) by (auto simp: contexts_ok_def sched_ok_def)
  have st: "unat (stacks_addr L) + 65536 < 2 ^ 32" using L by (simp add: stacks_ok_def)
  have top: "unat (?base + STACK_SIZE) = unat (stacks_addr L) + 4096 * slot + 4060 + 36"
    using slot_base [OF st sl(2), of 4096] by simp
  obtain m where fi: "initial_frame entry (?base + STACK_SIZE, ram s) = (?base + STACK_SIZE - 36, m)"
    using initial_frame_top [of entry "?base + STACK_SIZE" "ram s"] by (metis prod.collapse)
  note m = initial_frame_correct [OF top fi]
  obtain g where g: "?u = set_pcb slot g (s\<lparr>ram := m\<rparr>)"
    "\<And>p. state (g p) = PROCESS_READY" "\<And>p. esp (g p) = (if k = 11 then esp p else ?base + STACK_SIZE - 36)"
    using create_part_late [OF k, of slot s "stacks_addr L" nm entry] sl(2) c(3) fi by auto
  have u: "sched_ok ?u" "cur ?u = cur s" "st ?u = (st s)(slot := PROCESS_READY)" "processor ?u = processor s" "ram ?u = m"
    using c sl(2) g(2) by (simp_all add: g(1) sched_ok_def st_set_pcb)
  define w where "w = ?base + STACK_SIZE - 36"
  have e: "esp (process_table ?u ! slot) = (if k = 11 then 0 else w)"
    using ok(2) sl c(3) by (simp add: g unused_zero_def w_def)
  have n: "next_of (st ?u) (cur ?u) = slot" "slot \<noteq> cur ?u"
    unfolding u using idle sl(2) c(2,4) by (auto intro!: next_of_only)
  define q where "q = unat (cpu_esp (processor s)) - 44"
  have q: "unat (cpu_esp (processor ?u)) = q + 44" "stack_lo L klo (cur s) \<le> q" "q + 44 \<le> stack_hi L (cur s)"
    using rm unfolding q_def room_def u by linarith+
  have lo: "36 \<le> stack_lo L klo (cur s)" using low by (simp add: stack_lo_def)
  let ?c0 = "\<lparr>eax = rd32 (ram s) 28, ecx = rd32 (ram s) 24, edx = rd32 (ram s) 20, ebx = rd32 (ram s) 16,
         cpu_esp = 0, ebp = rd32 (ram s) 8, esi = rd32 (ram s) 4, edi = rd32 (ram s) 0, eip = 0, intr = False\<rparr>"
  let ?z = "\<lparr>eax = 0, ecx = 0, edx = 0, ebx = 0, cpu_esp = 0, ebp = 0, esi = 0, edi = 0, eip = 0, intr = True\<rparr>"
  show "cur (scheduler_tick L ?u) = slot" "processor (scheduler_tick L ?u) =
      (if k = 11 then resumed ?c0 0 (rd32 (ram s) 32)
       else \<lparr>eax = 0, ecx = 0, edx = 0, ebx = 0, cpu_esp = stacks_addr L + of_nat slot * 4096 + 4096,
         ebp = 0, esi = 0, edi = 0, eip = entry, intr = True\<rparr>)"
  proof -
    have same: "rd32 m b = rd32 (ram s) b" if "b + 4 \<le> 36" for b
      by (rule rd32_cong [where lo = b and hi = "b + 4"]) (use m(4) that sl(1) in \<open>auto intro: same_onI\<close>)
    have zero: "saved_frame ?c0 (ram ?u) 0" "rd32 (ram ?u) 32 = rd32 (ram s) 32"
      by (simp_all add: saved_frame_def u same)
    have zero': "cur (scheduler_tick L ?u) = slot \<and> processor (scheduler_tick L ?u) = resumed ?c0 0 (rd32 (ram s) 32)" if "k = 11"
      using tick_goes [OF u(1) n q(1), of ?c0 "rd32 (ram s) 32" L] zero q(2) lo e that by auto
    have ue: "unat w = unat (stacks_addr L) + 4096 * slot + 4060" unfolding w_def by (rule m(2))
    have ap: "unat (stacks_addr L) + 4096 * slot + 4060 + 36 \<le> q \<or> q + 44 \<le> unat (stacks_addr L) + 4096 * slot + 4060"
      using stacks_apart [OF L sl(2) c(2,4)] sl(1) q(2,3) by (auto simp: stack_lo_def [of L klo slot] stack_hi_def [of L slot])
    have "rd32 m (unat (stacks_addr L) + 4096 * slot + 4060 + 4 * j) = 0" if "j < 8" for j
      using m(3) that by (simp add: fresh_frame_def)
    from this [of 0] this [of 1] this [of 2] this [of 4] this [of 5] this [of 6] this [of 7]
    have fr: "saved_frame ?z (ram ?u) (unat w)" "rd32 (ram ?u) (unat w + 32) = entry"
      using m(3) by (simp_all add: saved_frame_def u ue fresh_frame_def)
    have late: "cur (scheduler_tick L ?u) = slot \<and> processor (scheduler_tick L ?u) = resumed ?z w entry" if "k \<noteq> 11"
      using tick_goes [OF u(1) n q(1), of ?z entry L] fr ap e st sl(2) that by (auto simp: ue)
    show "cur (scheduler_tick L ?u) = slot" using zero' late by blast
    show "processor (scheduler_tick L ?u) =
      (if k = 11 then resumed ?c0 0 (rd32 (ram s) 32)
       else \<lparr>eax = 0, ecx = 0, edx = 0, ebx = 0, cpu_esp = stacks_addr L + of_nat slot * 4096 + 4096,
         ebp = 0, esi = 0, edi = 0, eip = entry, intr = True\<rparr>)"
      using zero' late by (simp add: resumed_def w_def)
  qed
qed

text \<open>C33. A new process is published before it can run: in every reachable state without another READY process, a
  tick during the creation of a process leaves the creator running as long as the slot is not READY, and
  enters the new function correctly once the stack pointer is stored; but between the two stores, after
  \<^verbatim>\<open>state = PROCESS_READY\<close> and before \<^verbatim>\<open>esp = stack_top\<close>, the tick switches to stack pointer zero and
  jumps to whatever word the memory holds at address 32.\<close>

theorem process_create_preempted:
  assumes "stacks_ok L klo" "36 \<le> klo" "rtranclp (kstep L klo) (process_init s0) s" "room L klo s"
    and "first_free s = Some slot" "\<forall>i < 16. st s i \<noteq> PROCESS_READY" "k \<le> 14"
  shows "let t = scheduler_tick L (create_part (stacks_addr L) nm entry slot k s) in
     (k \<le> 10 \<longrightarrow> cur t = cur s \<and> processor t = processor s)
   \<and> (k = 11 \<longrightarrow> cur t = slot \<and> cpu_esp (processor t) = 36 \<and> eip (processor t) = rd32 (ram s) 32)
   \<and> (12 \<le> k \<longrightarrow> cur t = slot \<and> processor t =
        \<lparr>eax = 0, ecx = 0, edx = 0, ebx = 0, cpu_esp = stacks_addr L + of_nat slot * 4096 + 4096,
         ebp = 0, esi = 0, edi = 0, eip = entry, intr = True\<rparr>)"
proof -
  have ok: "contexts_ok L klo s" "unused_zero s"
    using unused.run [of L klo "process_init s0" s] process_init_contexts process_init_unused_zero assms(1,3) by blast+
  have c: "sched_ok s" "cur s < 16" "slot < length (process_table s)"
    using ok(1) assms(5) by (auto simp: contexts_ok_def sched_ok_def first_free_def loop_simps)
  have early: "cur (scheduler_tick L (create_part (stacks_addr L) nm entry slot k s)) = cur s
      \<and> processor (scheduler_tick L (create_part (stacks_addr L) nm entry slot k s)) = processor s" if "k \<le> 10"
  proof -
    let ?u = "create_part (stacks_addr L) nm entry slot k s"
    have "sched_ok ?u \<and> st ?u = st s \<and> cur ?u = cur s \<and> processor ?u = processor s"
    proof (cases "k = 10")
      case True
      then show ?thesis using c by (simp add: create_part_pid sched_ok_def st_set_pcb) (simp add: st_def fun_eq_iff)
    next
      case False
      with that obtain m where "?u = s\<lparr>ram := m\<rparr>" using create_part_early [of k "stacks_addr L" nm entry slot s] by auto
      with c show ?thesis by (simp add: sched_ok_def)
    qed
    with tick_stays [of ?u L] next_of_none [of "st s" "cur s"] assms(6) c(2) show ?thesis by simp
  qed
  note late = create_part_tick [OF assms(1,2) ok assms(4-6), of k nm entry]
  show ?thesis using early late assms(7) by (auto simp: Let_def resumed_def)
qed

text \<open>The shell process, 256 bytes into its stack, creates the first process.\<close>

theorem process_create_preempted_witness:
  "eip (processor (scheduler_tick demo_layout (create_part (stacks_addr demo_layout) (bytes ''a'') 0x10234 1 11 demo_boot)))
      = rd32 (ram demo_boot) 32
   \<and> eip (processor (scheduler_tick demo_layout (create_part (stacks_addr demo_layout) (bytes ''a'') 0x10234 1 12 demo_boot))) = 0x10234"
proof -
  have ff: "first_free demo_boot = Some 1" using demo_boot_facts(3) [of 1] by (simp add: first_free_def loop_simps st_def)
  have rm: "room demo_layout 0x80000 demo_boot"
    using demo_boot_facts(2,4) by (simp add: room_def stack_lo_def stack_hi_def)
  have idle: "\<forall>i < 16. st demo_boot i \<noteq> PROCESS_READY" using demo_boot_facts(3) by simp
  show ?thesis
    using process_create_preempted [OF demo_stacks _ rtranclp.rtrancl_refl rm [unfolded demo_boot_def] ff [unfolded demo_boot_def]
        idle [unfolded demo_boot_def], of 11 "bytes ''a''" "0x10234"]
      process_create_preempted [OF demo_stacks _ rtranclp.rtrancl_refl rm [unfolded demo_boot_def] ff [unfolded demo_boot_def]
        idle [unfolded demo_boot_def], of 12 "bytes ''a''" "0x10234"]
    by (simp add: Let_def flip: demo_boot_def)
qed

end
