(* ===== verification/Irq.thy ===== *)
theory Irq
  imports Contexts
begin

text \<open>
  The interrupt stubs (\<^verbatim>\<open>kernel/isr_stub.asm\<close>) and what the processor does around them: taking an
  interrupt through the gates of \<^verbatim>\<open>idt_init\<close> and returning with IRET. The C functions the stubs call
  are compiled code, of which the stubs rely on the calling convention only; it is the predicate
  \<^verbatim>\<open>cdecl\<close>. An interrupt is invisible to what it interrupts: a key stroke always, a timer tick also when
  other processes run before it returns.
\<close>

section \<open>The processor\<close>

text \<open>EFLAGS and CS are not registers of the model otherwise: the interrupt flag is \<^verbatim>\<open>intr\<close>, bit 9 of
  EFLAGS, and the pair pushed here is the pair IRET returns. The gates have type 0x8E, so the flag is
  cleared.\<close>

definition take_interrupt :: "u32 \<Rightarrow> u32 \<Rightarrow> u32 \<Rightarrow> machine \<Rightarrow> machine" where
  "take_interrupt handler cs fl = (\<lambda>(c, m).
     let (c', m') = push32 (eip c) (push32 cs (push32 fl (c, m))) in (c'\<lparr>intr := False, eip := handler\<rparr>, m'))"

definition iret :: "machine \<Rightarrow> (u32 \<times> u32) \<times> machine" where
  "iret s =
     (let (ip, s) = pop32 s; (cs, s) = pop32 s; (fl, (c, m)) = pop32 s
      in ((cs, fl), (c\<lparr>eip := ip, intr := bit fl 9\<rparr>, m)))"

text \<open>A compiled function of one argument: with \<open>need\<close> bytes of stack below the return address it returns
  to it, pops it and changes no byte outside those \<open>need\<close> bytes, the return address and its argument.\<close>

definition cdecl :: "nat \<Rightarrow> (machine \<Rightarrow> machine) \<Rightarrow> bool" where
  "cdecl need f \<longleftrightarrow> (\<forall>c m. need \<le> unat (cpu_esp c) \<longrightarrow>
     cpu_esp (fst (f (c, m))) = cpu_esp c + 4 \<and> eip (fst (f (c, m))) = rd32 m (unat (cpu_esp c))
     \<and> (\<forall>a. a < unat (cpu_esp c) - need \<or> unat (cpu_esp c) + 8 \<le> a \<longrightarrow> snd (f (c, m)) a = m a))"

section \<open>The stubs\<close>

text \<open>\<open>eoi\<close> is the compiled \<^verbatim>\<open>pic_send_eoi\<close>, \<open>r\<close> the address after its call; \<open>post\<close> is the label
  \<^verbatim>\<open>irq0_post_switch\<close>, where \<^verbatim>\<open>scheduler_tick\<close> returns to.\<close>

definition irq0_handler :: "u32 \<Rightarrow> machine \<Rightarrow> machine" where
  "irq0_handler post s = push32 post (pushad s)"

definition irq0_post_switch :: "(machine \<Rightarrow> machine) \<Rightarrow> u32 \<Rightarrow> machine \<Rightarrow> (u32 \<times> u32) \<times> machine" where
  "irq0_post_switch eoi r s =
     (let s = push32 0 s;
          (c, m) = eoi (push32 r s);
          c = c\<lparr>cpu_esp := cpu_esp c + 4\<rparr>;
          (c, m) = popad (c, m)
      in iret (c, m))"

definition irq1_handler :: "(machine \<Rightarrow> machine) \<Rightarrow> u32 \<Rightarrow> machine \<Rightarrow> (u32 \<times> u32) \<times> machine" where
  "irq1_handler eoi r s =
     (let s = pushad s;
          s = push32 1 s;
          (c, m) = eoi (push32 r s);
          c = c\<lparr>cpu_esp := cpu_esp c + 4\<rparr>;
          (c, m) = popad (c, m)
      in iret (c, m))"

section \<open>The frame of an interrupt\<close>

text \<open>44 bytes: the eight registers, then EIP, CS and EFLAGS.\<close>

definition irq_frame :: "cpu \<Rightarrow> u32 \<Rightarrow> u32 \<Rightarrow> memory \<Rightarrow> nat \<Rightarrow> bool" where
  "irq_frame c cs fl m q \<longleftrightarrow> saved_frame c m q \<and> rd32 m (q + 32) = eip c \<and> rd32 m (q + 36) = cs \<and> rd32 m (q + 40) = fl"

lemma irq_frame_cong:
  assumes "irq_frame c cs fl m q" "same_on q (q + 44) m m'"
  shows "irq_frame c cs fl m' q"
proof -
  have "rd32 m' b = rd32 m b" if "q \<le> b" "b + 4 \<le> q + 44" for b
    by (rule rd32_cong [symmetric, OF assms(2) that])
  with assms(1) show ?thesis by (simp add: irq_frame_def saved_frame_def)
qed

lemma take_interrupt_frame:
  assumes "unat (cpu_esp c) = q + 44" "pushad (take_interrupt h cs fl (c, m)) = (c', m')"
  shows "irq_frame c cs fl m' q" "cpu_esp c' = cpu_esp c - 44" "unat (cpu_esp c') = q"
    "\<And>a. a < q \<or> q + 44 \<le> a \<Longrightarrow> m' a = m a"
proof -
  let ?e = "cpu_esp c"
  have d: "unat (?e - 4) = q + 40" "unat (?e - 8) = q + 36" "unat (?e - 12) = q + 32" "unat (?e - 44) = q"
    using assms(1) by (simp_all add: unat_minus_small)
  let ?m = "wr32 (wr32 (wr32 m (q + 40) fl) (q + 36) cs) (q + 32) (eip c)"
  let ?c = "c\<lparr>cpu_esp := ?e - 12, intr := False, eip := h\<rparr>"
  have t: "take_interrupt h cs fl (c, m) = (?c, ?m)" by (simp add: take_interrupt_def push32_def d)
  have e: "unat (cpu_esp ?c) = q + 32" by (simp add: d)
  note pa = pushad_saved [OF e assms(2) [unfolded t]]
  show e': "cpu_esp c' = ?e - 44" by (simp add: pa(1))
  then show "unat (cpu_esp c') = q" by (simp add: d)
  show fr: "m' a = m a" if "a < q \<or> q + 44 \<le> a" for a
    using that pa(3) [of a] by (elim disjE) (simp_all add: mem_simps)
  have same: "rd32 m' b = rd32 ?m b" if "q + 32 \<le> b" for b
    by (rule rd32_cong [where lo = b and hi = "b + 4"]) (use pa(3) that in \<open>auto intro: same_onI\<close>)
  show "irq_frame c cs fl m' q"
    using pa(2) by (simp add: irq_frame_def saved_frame_def same mem_simps)
qed

text \<open>The common end of both stubs.\<close>

lemma stub_tail:
  assumes "irq_frame c0 cs fl m q" "unat (cpu_esp c) = q" "q + 44 < 2 ^ 32" "need + 8 \<le> q" "cdecl need eoi"
    and "intr c0 = bit fl 9" "unat (cpu_esp c0) = q + 44"
  shows "\<exists>m'. (let (c, m) = eoi (push32 r (push32 n (c, m))); (c, m) = popad (c\<lparr>cpu_esp := cpu_esp c + 4\<rparr>, m) in iret (c, m))
      = ((cs, fl), c0, m') \<and> (\<forall>a. a < q - 8 - need \<or> q \<le> a \<longrightarrow> m' a = m a)"
proof -
  let ?e = "cpu_esp c"
  have d: "unat (?e - 4) = q - 4" "unat (?e - 8) = q - 8"
    using assms(2,4) by (simp_all add: unat_minus_small)
  let ?m = "wr32 (wr32 m (q - 4) n) (q - 8) r"
  have p: "push32 r (push32 n (c, m)) = (c\<lparr>cpu_esp := ?e - 8\<rparr>, ?m)" by (simp add: push32_def d)
  obtain c1 m1 where f: "eoi (c\<lparr>cpu_esp := ?e - 8\<rparr>, ?m) = (c1, m1)" by (metis surj_pair)
  have "need \<le> unat (?e - 8)" using assms(4) d by linarith
  with assms(5) f have c1: "cpu_esp c1 = ?e - 4" and m1: "\<And>a. a < q - 8 - need \<or> q \<le> a \<Longrightarrow> m1 a = ?m a"
    using assms(4) unfolding cdecl_def by (auto dest!: spec [of _ "c\<lparr>cpu_esp := ?e - 8\<rparr>"] spec [of _ ?m] simp: d)
  have m: "m1 a = m a" if "a < q - 8 - need \<or> q \<le> a" for a
  proof -
    have "?m a = wr32 m (q - 4) n a" by (rule wr32_other) (use that assms(4) in arith)
    also have "\<dots> = m a" by (rule wr32_other) (use that assms(4) in arith)
    finally show ?thesis using m1 [OF that] by simp
  qed
  let ?c = "c1\<lparr>cpu_esp := cpu_esp c1 + 4\<rparr>"
  have fr: "irq_frame c0 cs fl m1 q" using assms(1) by (rule irq_frame_cong) (auto intro: same_onI m [symmetric])
  have e: "unat (cpu_esp ?c) = q" "cpu_esp ?c = ?e" using assms(2) by (simp_all add: c1)
  have pop: "popad (?c, m1) = (load_frame c0 ?c, m1)"
    using fr assms(3) by (intro popad_saved [OF e(1)]) (simp_all add: irq_frame_def)
  have a: "unat (?e + 32) = q + 32" "unat (?e + 36) = q + 36" "unat (?e + 40) = q + 40"
    using assms(2,3) by (simp_all add: unat_add_small)
  have top: "cpu_esp c0 = ?e + 44"
    using assms(2,3,7) by (simp add: word_unat_eq_iff [where 'a = 32] unat_add_small)
  have l: "cpu_esp (load_frame c0 ?c) = ?e + 32" unfolding load_frame_def by (simp add: c1)
  have "iret (load_frame c0 ?c, m1) = ((cs, fl), ((load_frame c0 ?c)\<lparr>cpu_esp := ?e + 44, eip := eip c0, intr := bit fl 9\<rparr>, m1))"
    using fr by (simp add: iret_def pop32_def l a [simplified add.commute] irq_frame_def add.assoc)
  also have "(load_frame c0 ?c)\<lparr>cpu_esp := ?e + 44, eip := eip c0, intr := bit fl 9\<rparr> = c0"
    unfolding top [symmetric] using assms(6) by (cases c0, cases c1) (simp add: load_frame_def)
  finally have "(let (c, m) = eoi (push32 r (push32 n (c, m))); (c, m) = popad (c\<lparr>cpu_esp := cpu_esp c + 4\<rparr>, m) in iret (c, m))
      = ((cs, fl), c0, m1)"
    by (simp only: p f Let_def prod.case pop)
  with m show ?thesis by blast
qed

section \<open>The keyboard interrupt\<close>

text \<open>A keyboard interrupt is invisible to what it interrupts: with room on the stack, taking the
  interrupt, running \<^verbatim>\<open>irq1_handler\<close> and returning leaves every register, the flags and the instruction
  pointer as they were, and changes no byte of memory outside the 52 bytes below the stack pointer and
  the stack of \<^verbatim>\<open>pic_send_eoi\<close> under them.\<close>

theorem keyboard_interrupt_invisible:
  assumes "cdecl need eoi" "need + 52 \<le> unat (cpu_esp c)" "intr c" "bit fl 9"
  shows "\<exists>m'. irq1_handler eoi r (take_interrupt handler cs fl (c, m)) = ((cs, fl), (c, m'))
     \<and> (\<forall>a. a < unat (cpu_esp c) - 52 - need \<or> unat (cpu_esp c) \<le> a \<longrightarrow> m' a = m a)"
proof -
  define q where "q = unat (cpu_esp c) - 44"
  have q: "unat (cpu_esp c) = q + 44" "need + 8 \<le> q" using assms(2) by (simp_all add: q_def)
  have b: "q + 44 < 2 ^ 32" using unsigned_less [where 'a = nat and w = "cpu_esp c"] by (simp add: q(1))
  obtain c' m' where t: "pushad (take_interrupt handler cs fl (c, m)) = (c', m')" by (metis surj_pair)
  note f = take_interrupt_frame [OF q(1) t]
  obtain m'' where tail: "(let (c, m) = eoi (push32 r (push32 1 (c', m'))); (c, m) = popad (c\<lparr>cpu_esp := cpu_esp c + 4\<rparr>, m) in iret (c, m))
      = ((cs, fl), c, m'')" and m: "\<forall>a. a < q - 8 - need \<or> q \<le> a \<longrightarrow> m'' a = m' a"
    using stub_tail [OF f(1,3) b q(2) assms(1) _ q(1)] assms(3,4) by blast
  have "m'' a = m a" if "a < q - 8 - need \<or> q + 44 \<le> a" for a
  proof -
    have "a < q \<or> q + 44 \<le> a" using that by arith
    moreover have "m'' a = m' a" using m that by auto
    ultimately show ?thesis using f(4) by simp
  qed
  with tail show ?thesis
    by (intro exI [of _ m'']) (simp add: irq1_handler_def Let_def t q(1))
qed

section \<open>The timer interrupt\<close>

text \<open>A call of \<^verbatim>\<open>scheduler_tick\<close> that returns: at once, when there is nothing to switch to, or when a
  later switch comes back.\<close>

inductive comes_back :: "layout \<Rightarrow> nat \<Rightarrow> sched \<Rightarrow> sched \<Rightarrow> bool" for L klo where
  at_once: "room L klo s \<Longrightarrow> cur (scheduler_tick L s) = cur s \<Longrightarrow> comes_back L klo s (scheduler_tick L s)"
| later: "room L klo s \<Longrightarrow> away L klo (cur s) (scheduler_tick L s) s2 \<Longrightarrow> room L klo s2 \<Longrightarrow> switched L s2 s3
    \<Longrightarrow> cur s3 = cur s \<Longrightarrow> comes_back L klo s s3"

text \<open>The compiled function around it: it only lowers the stack pointer and leaves the stack above its
  return address and the stacks of the others alone until it calls \<^verbatim>\<open>context_switch\<close>; when that has
  returned, it returns itself, again with the stack above its return address left alone.\<close>

definition called_tick :: "layout \<Rightarrow> nat \<Rightarrow> sched \<Rightarrow> sched \<Rightarrow> bool" where
  "called_tick L klo s s' \<longleftrightarrow> (\<exists>c m t c' m'.
     unat (cpu_esp c) \<le> unat (cpu_esp (processor s))
     \<and> (\<forall>i < 16. i \<noteq> cur s \<longrightarrow> same_on (stack_lo L klo i) (stack_hi L i) (ram s) m)
     \<and> same_on (unat (cpu_esp (processor s))) (stack_hi L (cur s)) (ram s) m
     \<and> comes_back L klo (s\<lparr>processor := c, ram := m\<rparr>) t
     \<and> cpu_esp c' = cpu_esp (processor s) + 4
     \<and> same_on (unat (cpu_esp (processor s)) + 4) (stack_hi L (cur s)) (ram t) m'
     \<and> s' = t\<lparr>processor := c', ram := m'\<rparr>)"

text \<open>The whole interrupt, from the interrupted process back to it.\<close>

definition timer_interrupt :: "layout \<Rightarrow> nat \<Rightarrow> (machine \<Rightarrow> machine) \<Rightarrow> (u32 \<times> u32 \<times> u32) \<Rightarrow> (u32 \<times> u32)
    \<Rightarrow> sched \<Rightarrow> (u32 \<times> u32) \<times> sched \<Rightarrow> bool" where
  "timer_interrupt L klo eoi = (\<lambda>(handler, post, r) (cs, fl) s (p, s').
     \<exists>t. called_tick L klo
           (let (c, m) = irq0_handler post (take_interrupt handler cs fl (processor s, ram s))
            in s\<lparr>processor := c, ram := m\<rparr>) t
       \<and> (p, s') = (let (p, c, m) = irq0_post_switch eoi r (processor t, ram t)
            in (p, t\<lparr>processor := c, ram := m, ports_out := pic_send_eoi 0 (ports_out t)\<rparr>)))"

lemma comes_back_stack:
  assumes "stacks_ok L klo" "rtranclp (kstep L klo) (process_init s0) s" "comes_back L klo s s'"
  shows "cur s' = cur s" "same_on (unat (cpu_esp (processor s))) (stack_hi L (cur s)) (ram s) (ram s')"
proof -
  have sw: "switched L s (scheduler_tick L s)" by (simp add: switched_def)
  have ok: "contexts_ok L klo s" using assms(1,2) by (rule reached_contexts)
  have "cur s' = cur s \<and> same_on (unat (cpu_esp (processor s))) (stack_hi L (cur s)) (ram s) (ram s')"
    using assms(3)
  proof cases
    case at_once
    from assms(1) ok at_once(2) sw show ?thesis
      by (cases rule: switched_cases) (use at_once in simp_all)
  next
    case (later s2)
    from resumes [OF assms(1,2) later(1) sw later(2-5)] later(5) show ?thesis by simp
  qed
  then show "cur s' = cur s" "same_on (unat (cpu_esp (processor s))) (stack_hi L (cur s)) (ram s) (ram s')" by simp_all
qed

lemma called_tick_frame:
  assumes "stacks_ok L klo" "rtranclp (kstep L klo) (process_init s0) s" "called_tick L klo s s'"
  shows "cpu_esp (processor s') = cpu_esp (processor s) + 4"
    "same_on (unat (cpu_esp (processor s)) + 4) (stack_hi L (cur s)) (ram s) (ram s')"
proof -
  let ?e = "unat (cpu_esp (processor s))" and ?h = "stack_hi L (cur s)"
  obtain c m t c' m' where f: "unat (cpu_esp c) \<le> ?e"
      "\<And>i. i < 16 \<Longrightarrow> i \<noteq> cur s \<Longrightarrow> same_on (stack_lo L klo i) (stack_hi L i) (ram s) m"
      "same_on ?e ?h (ram s) m" "comes_back L klo (s\<lparr>processor := c, ram := m\<rparr>) t"
      "cpu_esp c' = cpu_esp (processor s) + 4" "same_on (?e + 4) ?h (ram t) m'" "s' = t\<lparr>processor := c', ram := m'\<rparr>"
    using assms(3) unfolding called_tick_def by blast
  have "kstep L klo s (s\<lparr>processor := c, ram := m\<rparr>)" using f(2) by (intro kstep.quiet quiet.compute)
  with assms(2) have "rtranclp (kstep L klo) (process_init s0) (s\<lparr>processor := c, ram := m\<rparr>)"
    by (rule rtranclp.rtrancl_into_rtrancl)
  from comes_back_stack(2) [OF assms(1) this f(4)] have "same_on (unat (cpu_esp c)) ?h m (ram t)" by simp
  then have "same_on ?e ?h m (ram t)" using f(1) by (rule same_on_mono) simp
  with f(3) have "same_on ?e ?h (ram s) (ram t)" by (rule same_on_trans)
  then have "same_on (?e + 4) ?h (ram s) (ram t)" by (rule same_on_mono) simp_all
  then show "same_on (?e + 4) ?h (ram s) (ram s')" using f(6,7) by (auto intro: same_on_trans)
  show "cpu_esp (processor s') = cpu_esp (processor s) + 4" by (simp add: f(7,5))
qed

lemma irq0_entered:
  assumes L: "stacks_ok L klo" "cur s < 16"
    and e: "unat (cpu_esp (processor s)) = q + 44" "stack_lo L klo (cur s) + 8 \<le> q" "q + 44 \<le> stack_hi L (cur s)"
    and enter: "irq0_handler post (take_interrupt h cs fl (processor s, ram s)) = (c, m)"
  shows "irq_frame (processor s) cs fl m q" "unat (cpu_esp c) + 4 = q"
    "\<And>x. x < q - 4 \<or> q + 44 \<le> x \<Longrightarrow> m x = ram s x"
    "\<And>i. i < 16 \<Longrightarrow> i \<noteq> cur s \<Longrightarrow> same_on (stack_lo L klo i) (stack_hi L i) (ram s) m"
proof -
  obtain c1 m1 where t: "pushad (take_interrupt h cs fl (processor s, ram s)) = (c1, m1)" by (metis surj_pair)
  note f = take_interrupt_frame [OF e(1) t]
  have d: "unat (cpu_esp c1 - 4) = q - 4" using f(3) e(2) by (simp add: unat_minus_small)
  have eq: "c = c1\<lparr>cpu_esp := cpu_esp c1 - 4\<rparr>" "m = wr32 m1 (q - 4) post"
    using enter by (simp_all add: irq0_handler_def t push32_def d)
  show "unat (cpu_esp c) + 4 = q" using e(2) by (simp add: eq d)
  show mem: "m x = ram s x" if "x < q - 4 \<or> q + 44 \<le> x" for x
  proof -
    have "m x = m1 x" unfolding eq by (rule wr32_other) (use that in arith)
    also have "\<dots> = ram s x" by (rule f(4)) (use that in arith)
    finally show ?thesis .
  qed
  show "irq_frame (processor s) cs fl m q"
    using f(1) unfolding eq by (rule irq_frame_cong) (use e(2) in \<open>auto intro!: same_onI wr32_other [symmetric]\<close>)
  show "same_on (stack_lo L klo i) (stack_hi L i) (ram s) m" if i: "i < 16" "i \<noteq> cur s" for i
    using stacks_apart [OF L(1) i(1) L(2) i(2)] e(2,3)
    by (intro same_onI mem [symmetric]) auto
qed

text \<open>C31. A timer interrupt is invisible to the process it interrupts: however long the other processes
  run before a switch comes back, when \<^verbatim>\<open>irq0_post_switch\<close> returns, every register, the flags and the
  instruction pointer are those at the interrupt, and no byte of the process's stack from its stack
  pointer up has changed.\<close>

theorem timer_interrupt_invisible:
  assumes "stacks_ok L klo" "rtranclp (kstep L klo) (process_init s0) s"
    and "cdecl need eoi" "stack_lo L klo (cur s) + need + 52 \<le> unat (cpu_esp (processor s))"
      "unat (cpu_esp (processor s)) \<le> stack_hi L (cur s)"
    and "intr (processor s)" "bit fl 9"
    and "timer_interrupt L klo eoi a (cs, fl) s (p, s')"
  shows "p = (cs, fl) \<and> processor s' = processor s
     \<and> same_on (unat (cpu_esp (processor s))) (stack_hi L (cur s)) (ram s) (ram s')"
proof -
  define q where "q = unat (cpu_esp (processor s)) - 44"
  have q: "unat (cpu_esp (processor s)) = q + 44" "need + 8 \<le> q" "stack_lo L klo (cur s) + 8 \<le> q" "q + 44 \<le> stack_hi L (cur s)"
    using assms(4,5) by (simp_all add: q_def)
  have b: "q + 44 < 2 ^ 32" using unsigned_less [where 'a = nat and w = "cpu_esp (processor s)"] by (simp add: q(1))
  obtain h post r where a: "a = (h, post, r)" by (cases a)
  obtain c m where enter: "irq0_handler post (take_interrupt h cs fl (processor s, ram s)) = (c, m)" by (metis surj_pair)
  let ?s = "s\<lparr>processor := c, ram := m\<rparr>"
  obtain u where u: "called_tick L klo ?s u"
    and s': "(p, s') = (let (p, c, m) = irq0_post_switch eoi r (processor u, ram u)
            in (p, u\<lparr>processor := c, ram := m, ports_out := pic_send_eoi 0 (ports_out u)\<rparr>))"
    using assms(8) by (auto simp: timer_interrupt_def a enter)
  have "cur s < 16" using reached_contexts [OF assms(1,2)] by (simp add: contexts_ok_def sched_ok_def)
  note f = irq0_entered [OF assms(1) this q(1,3,4) enter]
  have "rtranclp (kstep L klo) (process_init s0) ?s"
    using assms(2) kstep.quiet [OF quiet.compute [OF f(4)]] by (rule rtranclp.rtrancl_into_rtrancl)
  note tick = called_tick_frame [OF assms(1) this u]
  have e: "unat (cpu_esp (processor u)) = q"
    using tick(1) f(2) b by (simp add: unat_add_small)
  have st: "same_on q (stack_hi L (cur s)) m (ram u)" using tick(2) f(2) by simp
  have "irq_frame (processor s) cs fl (ram u) q"
    using f(1) by (rule irq_frame_cong) (rule same_on_mono [OF st], use q(4) in simp_all)
  from stub_tail [OF this e b q(2) assms(3) _ q(1), of r 0] assms(6,7)
  obtain m' where tail: "irq0_post_switch eoi r (processor u, ram u) = ((cs, fl), processor s, m')"
    and m': "\<And>x. q \<le> x \<Longrightarrow> m' x = ram u x"
    by (auto simp: irq0_post_switch_def Let_def)
  have "same_on (q + 44) (stack_hi L (cur s)) (ram s) m'"
  proof (rule same_onI)
    fix x assume x: "q + 44 \<le> x" "x < stack_hi L (cur s)"
    then have "m x = ram u x" by (intro same_onD [OF st]) simp_all
    with x f(3) [of x] m' [of x] show "ram s x = m' x" by simp
  qed
  with s' show ?thesis by (simp add: tail q(1))
qed

section \<open>The properties at work\<close>

text \<open>A compiled \<^verbatim>\<open>pic_send_eoi\<close> that loads its argument, clobbers EAX and EDX and saves EBX on the stack.\<close>

definition demo_eoi :: "machine \<Rightarrow> machine" where
  "demo_eoi = (\<lambda>(c, m).
     (c\<lparr>eax := 0x20, edx := rd32 m (unat (cpu_esp c + 4)), cpu_esp := cpu_esp c + 4, eip := rd32 m (unat (cpu_esp c))\<rparr>,
      wr32 m (unat (cpu_esp c) - 4) (ebx c)))"

lemma demo_eoi_cdecl: "cdecl 4 demo_eoi"
  unfolding cdecl_def
proof (intro allI impI conjI)
  fix c :: cpu and m a assume r: "4 \<le> unat (cpu_esp c)" "a < unat (cpu_esp c) - 4 \<or> unat (cpu_esp c) + 8 \<le> a"
  then show "snd (demo_eoi (c, m)) a = m a"
    by (simp add: demo_eoi_def) (rule wr32_other, arith)
qed (simp_all add: demo_eoi_def)

theorem keyboard_interrupt_invisible_witness:
  "\<exists>m'. irq1_handler demo_eoi 0x10460 (take_interrupt 0x10450 8 0x202 (demo_cpu\<lparr>intr := True\<rparr>, demo_ram))
     = ((8, 0x202), (demo_cpu\<lparr>intr := True\<rparr>, m')) \<and> m' 0x1020 = 0x77"
proof -
  have "bit (0x202 :: u32) 9" by simp
  moreover have "demo_ram 0x1020 = 0x77" by (simp add: demo_ram_def wr32_def)
  ultimately show ?thesis
    using keyboard_interrupt_invisible [OF demo_eoi_cdecl, of "demo_cpu\<lparr>intr := True\<rparr>" "0x202" "0x10460" "0x10450" 8 demo_ram]
    by (force simp: demo_cpu_def)
qed

text \<open>A tick interrupts the kernel of \<open>Contexts\<close>'s example; the new process runs, yields, and the kernel
  goes on.\<close>

definition demo_busy :: sched where
  "demo_busy = demo_created\<lparr>processor := demo_cpu\<lparr>cpu_esp := 0x8FF00, intr := True\<rparr>\<rparr>"

lemma demo_busy_facts: "rtranclp (kstep demo_layout 0x80000) demo_boot demo_busy" "cur demo_busy = 0"
  "st demo_busy = st demo_created" "ram demo_busy = ram demo_created"
proof -
  have "quiet demo_layout 0x80000 demo_created demo_busy"
    using quiet.compute [of demo_created _ _ "ram demo_created"] by (simp add: demo_busy_def)
  then have "kstep demo_layout 0x80000 demo_created demo_busy" by (rule kstep.quiet)
  with demo_reach show "rtranclp (kstep demo_layout 0x80000) demo_boot demo_busy"
    by (rule rtranclp.rtrancl_into_rtrancl)
qed (simp_all add: demo_busy_def demo_created_facts(2))

lemma demo_timer: "\<exists>p s'. timer_interrupt demo_layout 0x80000 demo_eoi (0x10400, 0x10410, 0x10420) (8, 0x202) demo_busy (p, s')"
proof -
  obtain c m where enter: "irq0_handler 0x10410 (take_interrupt 0x10400 8 0x202 (processor demo_busy, ram demo_busy)) = (c, m)"
    by (metis surj_pair)
  have e: "unat (cpu_esp (processor demo_busy)) = 0x8FED4 + 44" by (simp add: demo_busy_def)
  note f = irq0_entered [OF demo_stacks _ e _ _ enter]
  have sp: "unat (cpu_esp c) = 0x8FED0" using f(2) demo_busy_facts(2) by (simp add: stack_lo_def stack_hi_def)
  have far: "i < 16 \<Longrightarrow> i \<noteq> 0 \<Longrightarrow> same_on (stack_lo demo_layout 0x80000 i) (stack_hi demo_layout i) (ram demo_created) m" for i
    using f(4) [of i] demo_busy_facts(2,4) by (simp add: stack_lo_def stack_hi_def)
  let ?u = "demo_created\<lparr>processor := c, ram := m\<rparr>"
  have q: "quiet demo_layout 0x80000 demo_created ?u"
    using far by (intro quiet.compute) (simp add: demo_created_facts(2))
  have rm: "room demo_layout 0x80000 ?u"
    using demo_created_facts(2) sp by (simp add: room_def cur_def stack_lo_def stack_hi_def)
  have "st ?u = st demo_created" by (simp add: st_def fun_eq_iff)
  note r = demo_round [OF q this rm]
  let ?t = "scheduler_yield demo_layout (scheduler_tick demo_layout ?u)"
  have "comes_back demo_layout 0x80000 ?u ?t"
    using rm r(3,5,6) away.here [of "scheduler_tick demo_layout ?u" "cur ?u"] r(1,2) by (intro comes_back.later) simp_all
  then have "called_tick demo_layout 0x80000 ?u (?t\<lparr>processor := c\<lparr>cpu_esp := cpu_esp c + 4\<rparr>, ram := ram ?t\<rparr>)"
    unfolding called_tick_def
    by (intro exI [of _ c] exI [of _ m] exI [of _ ?t] exI [of _ "c\<lparr>cpu_esp := cpu_esp c + 4\<rparr>"] exI [of _ "ram ?t"] conjI) simp_all
  moreover have "demo_busy\<lparr>processor := c, ram := m\<rparr> = ?u" by (simp add: demo_busy_def)
  ultimately show ?thesis
    unfolding timer_interrupt_def prod.case enter Let_def by (metis surj_pair)
qed

theorem timer_interrupt_invisible_witness:
  "\<exists>s'. timer_interrupt demo_layout 0x80000 demo_eoi (0x10400, 0x10410, 0x10420) (8, 0x202) demo_busy ((8, 0x202), s')
     \<and> processor s' = demo_cpu\<lparr>cpu_esp := 0x8FF00, intr := True\<rparr>"
proof -
  obtain p s' where t: "timer_interrupt demo_layout 0x80000 demo_eoi (0x10400, 0x10410, 0x10420) (8, 0x202) demo_busy (p, s')"
    using demo_timer by blast
  have "bit (0x202 :: u32) 9" by simp
  with timer_interrupt_invisible [OF demo_stacks demo_busy_facts(1) [unfolded demo_boot_def] demo_eoi_cdecl _ _ _ _ t]
    demo_busy_facts(2) t show ?thesis
    by (auto simp: demo_busy_def stack_lo_def stack_hi_def)
qed

end
