(* ===== verification/RaceLoss.thy ===== *)
theory RaceLoss
  imports RaceRuns
begin

text \<open>
  What \<^verbatim>\<open>race\<close>, the command without the mutex, can end with: the two threads interleave their loads and
  stores of \<^verbatim>\<open>myglobal\<close>, so increments are lost. An invariant over reachable states bounds the total from
  both sides, and for every number in between there is a schedule that ends with it.
\<close>

section \<open>The bounds\<close>

text \<open>A step of an unprotected thread: only the store changes the counter, and it completes an increment.\<close>

definition plain :: "thread \<Rightarrow> bool" where
  "plain t \<longleftrightarrow> \<not> use_mutex (prog t)
     \<and> pc t \<in> {LoopTest, LoadG, StoreG, NextI, SetColor, Print, DoneLoad, DoneStore, ExitCall, Halt}"

lemma plain_step:
  assumes "plain t" "index_ok iters t" "thread_step iters t w = Inr (t', w')"
  shows "plain t'" "index_ok iters t'"
    "completed t' = completed t + (if pc t = StoreG then 1 else 0)"
    "myglobal w' = (if pc t = StoreG then reg t + 1 else myglobal w)"
    "pc t' = StoreG \<Longrightarrow> pc t = LoadG \<and> reg t' = myglobal w \<and> idx t' = completed t"
    "pc t = StoreG \<Longrightarrow> completed t' = idx t + 1"
  using assms
  by (cases "pc t"; auto simp: plain_def step_defs completed_def index_ok_def world_simps split: if_splits option.splits)+

text \<open>A thread that stores after its first iteration has loaded at least 1, since no store stores less.\<close>

definition loss_inv :: "int \<Rightarrow> nat set \<Rightarrow> world \<Rightarrow> bool" where
  "loss_inv iters D w \<longleftrightarrow> finite D \<and> dom (threads w) = D
     \<and> (\<forall>p t. threads w p = Some t \<longrightarrow> plain t \<and> index_ok iters t \<and> 0 \<le> idx t \<and> (1 \<le> completed t \<longrightarrow> 1 \<le> myglobal w)
          \<and> (pc t = StoreG \<longrightarrow> 0 \<le> reg t \<and> reg t \<le> (\<Sum>q\<in>D. completed (the (threads w q))) \<and> (1 \<le> idx t \<longrightarrow> 1 \<le> reg t)))
     \<and> 0 \<le> myglobal w \<and> myglobal w \<le> (\<Sum>q\<in>D. completed (the (threads w q)))
     \<and> ((\<exists>q. q \<in> D) \<and> (\<forall>q\<in>D. 2 \<le> completed (the (threads w q))) \<longrightarrow> 2 \<le> myglobal w)"

lemma loss_inv_cong:
  "threads w' = threads w \<Longrightarrow> myglobal w' = myglobal w \<Longrightarrow> loss_inv iters D w' = loss_inv iters D w"
  by (simp add: loss_inv_def)

lemma loss_inv_step:
  assumes inv: "loss_inv iters D w" and step: "wstep iters w w'"
  shows "loss_inv iters D w'"
  using step
proof cases
  case irq
  then show ?thesis using inv loss_inv_cong [of w' w] by (simp add: world_simps)
next
  case run
  show ?thesis
  proof (cases "threads w (cur w)")
    case None
    with run inv show ?thesis by (simp add: run_current_def)
  next
    case (Some t)
    then obtain t' v where s: "thread_step iters t w = Inr (t', v)"
      and w': "w' = v\<lparr>threads := (threads v)(cur w \<mapsto> t')\<rparr>"
      using run by (auto simp: run_current_def split: sum.splits)
    let ?S = "\<lambda>w. \<Sum>q\<in>D. completed (the (threads w q))"
    have D: "finite D" "dom (threads w) = D" "cur w \<in> D"
      and ok: "plain t" "index_ok iters t" "0 \<le> idx t" "1 \<le> completed t \<longrightarrow> 1 \<le> myglobal w"
        "pc t = StoreG \<longrightarrow> 0 \<le> reg t \<and> reg t \<le> ?S w \<and> (1 \<le> idx t \<longrightarrow> 1 \<le> reg t)"
      and g: "0 \<le> myglobal w" "myglobal w \<le> ?S w"
        "(\<exists>q. q \<in> D) \<and> (\<forall>q\<in>D. 2 \<le> completed (the (threads w q))) \<longrightarrow> 2 \<le> myglobal w"
      using inv Some by (auto simp: loss_inv_def)
    note p = plain_step [OF ok(1,2) s]
    have thr: "threads w' = (threads w)(cur w \<mapsto> t')" and gl: "myglobal w' = myglobal v"
      using thread_step_keeps [OF s] by (simp_all add: w')
    have sum: "?S w' = ?S w + (if pc t = StoreG then 1 else 0)"
      using sum_upd [OF D(1,3), of "\<lambda>p. completed (the (threads w' p))" "\<lambda>p. completed (the (threads w p))"]
      by (simp add: thr Some p(3))
    have idx: "0 \<le> idx t'" "0 \<le> completed t" using s ok(3)
      by (cases "pc t"; auto simp: step_defs completed_def split: if_splits option.splits)+
    have up: "1 \<le> myglobal w \<longrightarrow> 1 \<le> myglobal w'" "0 \<le> myglobal w'" "myglobal w' \<le> ?S w'"
      using p(4) ok(5) g by (auto simp: gl sum split: if_splits)
    have "plain u \<and> index_ok iters u \<and> 0 \<le> idx u \<and> (1 \<le> completed u \<longrightarrow> 1 \<le> myglobal w')
        \<and> (pc u = StoreG \<longrightarrow> 0 \<le> reg u \<and> reg u \<le> ?S w' \<and> (1 \<le> idx u \<longrightarrow> 1 \<le> reg u))"
      if u: "threads w' q = Some u" for q u
    proof (cases "q = cur w")
      case True
      then have u': "u = t'" using u by (simp add: thr)
      show ?thesis
        using p ok g up idx sum by (auto simp: u' gl split: if_splits)
    next
      case False
      then have "threads w q = Some u" using u by (simp add: thr)
      then have "plain u \<and> index_ok iters u \<and> 0 \<le> idx u \<and> (1 \<le> completed u \<longrightarrow> 1 \<le> myglobal w)
        \<and> (pc u = StoreG \<longrightarrow> 0 \<le> reg u \<and> reg u \<le> ?S w \<and> (1 \<le> idx u \<longrightarrow> 1 \<le> reg u))"
        using inv by (auto simp: loss_inv_def)
      then show ?thesis using up(1) by (auto simp: sum)
    qed
    moreover have "2 \<le> myglobal w'" if all: "\<forall>q\<in>D. 2 \<le> completed (the (threads w' q))"
    proof (cases "pc t = StoreG")
      case True
      have "2 \<le> completed t'" using all D(3) by (auto simp: thr)
      with True p(6) have "1 \<le> idx t" by simp
      with True ok(5) p(4) show ?thesis by (simp add: gl)
    next
      case False
      have "2 \<le> completed (the (threads w q))" if "q \<in> D" for q
        using all [rule_format, OF that] False p(3) Some by (auto simp: thr split: if_splits)
      with g(3) D(3) False p(4) show ?thesis by (auto simp: gl)
    qed
    moreover have "dom (threads w') = D" using D by (auto simp: thr)
    ultimately show ?thesis using D(1) up unfolding loss_inv_def by blast
  qed
qed

interpretation losses: preserved "wstep iters" "loss_inv iters D" for iters D
  by unfold_locales (rule loss_inv_step)


section \<open>The start\<close>

lemma use_mutex_race [simp]: "\<not> use_mutex race_a" "\<not> use_mutex race_b"
  by (simp_all add: race_a_def race_b_def)

abbreviation (input) stsA :: "nat \<Rightarrow> process_state" where
  "stsA \<equiv> sts4 PROCESS_READY PROCESS_RUNNING PROCESS_READY PROCESS_FREE"

abbreviation (input) stsB :: "nat \<Rightarrow> process_state" where
  "stsB \<equiv> sts4 PROCESS_READY PROCESS_READY PROCESS_RUNNING PROCESS_FREE"

abbreviation (input) stsE :: "nat \<Rightarrow> process_state" where
  "stsE \<equiv> sts4 PROCESS_READY PROCESS_TERMINATED PROCESS_RUNNING PROCESS_FREE"

text \<open>A thread at a program counter, with its loop index and register; the two threads of \<^verbatim>\<open>race\<close>.\<close>

definition thread_at :: "prog \<Rightarrow> tpc \<times> int \<times> int \<Rightarrow> thread" where
  "thread_at p = (\<lambda>(l, i, r). \<lparr>pc = l, prog = p, idx = i, reg = r, wake = 0\<rparr>)"

definition duo :: "(nat \<Rightarrow> process_state) \<Rightarrow> nat \<Rightarrow> int \<Rightarrow> int \<Rightarrow> tpc \<times> int \<times> int \<Rightarrow> tpc \<times> int \<times> int \<Rightarrow> conf" where
  "duo f c d g a b = \<lparr>sts = f, now = c, cmtx = \<lparr>locked = 0, owner = 0, waiters = replicate 16 0, nwaiters = 0\<rparr>,
     glob = g, dn = d, thr = [2 \<mapsto> thread_at race_b b, 1 \<mapsto> thread_at race_a a]\<rparr>"

lemma race_boot:
  "sched_ok (race_command S ea eb boot_world)
   \<and> conf_of (race_command S ea eb boot_world) =
     duo (sts4 PROCESS_RUNNING PROCESS_READY PROCESS_READY PROCESS_FREE) 0 0 0 (LoopTest, 0, 0) (LoopTest, 0, 0)"
proof -
  let ?w = "boot_world\<lparr>myglobal := 0, race_done := 0\<rparr>"
  obtain v where v: "spawn S (bytes ''race_a'', ea, race_a) ?w = v" by blast
  have "for_find (\<lambda>i. st ?w i = PROCESS_FREE) 1 16 = Some 1"
    by (simp add: for_find.simps world_simps)
  from spawn_conf [OF _ this, of S "bytes ''race_a''" ea race_a, unfolded v]
  have a: "sched_ok v" "conf_of v = (conf_of ?w)\<lparr>sts := (st ?w)(1 := PROCESS_READY), thr := (threads ?w)(1 \<mapsto> fresh race_a)\<rparr>"
    by (simp_all add: world_simps)
  have st: "st v = (st boot_world)(1 := PROCESS_READY)" and thr: "threads v = [1 \<mapsto> fresh race_a]"
    using arg_cong [OF a(2), of sts] arg_cong [OF a(2), of thr] by (simp_all add: world_simps)
  have "for_find (\<lambda>i. st v i = PROCESS_FREE) 1 16 = Some 2"
    by (simp add: st for_find.simps)
  from spawn_conf [OF a(1) this, of S "bytes ''race_b''" eb race_b]
  have b: "sched_ok (race_command S ea eb boot_world)"
    "conf_of (race_command S ea eb boot_world) = (conf_of v)\<lparr>sts := (st v)(2 := PROCESS_READY), thr := (threads v)(2 \<mapsto> fresh race_b)\<rparr>"
    unfolding race_command_def Let_def v [symmetric] by simp_all
  have "(st boot_world)(1 := PROCESS_READY, 2 := PROCESS_READY) = sts4 PROCESS_RUNNING PROCESS_READY PROCESS_READY PROCESS_FREE"
    by (auto simp: sts4_def fun_eq_iff)
  with b show ?thesis
    unfolding a(2) st thr by (auto simp: conf_of_def world_simps duo_def thread_at_def fun_eq_iff)
qed

section \<open>Pieces of a schedule\<close>

lemma duo_start:
  "c_reach iters (duo (sts4 PROCESS_RUNNING PROCESS_READY PROCESS_READY PROCESS_FREE) 0 d g a b) (duo stsA 1 d g a b)"
  by (rule c_reach_run [of _ "[True]"]) (simp add: duo_def c_switch_def Let_def)

lemma duo_to_b: "c_reach iters (duo stsA 1 d g a b) (duo stsB 2 d g a b)"
  by (rule c_reach_run [of _ "[True]"]) (simp add: duo_def c_switch_def Let_def)

lemma duo_to_a: "c_reach iters (duo stsB 2 d g a b) (duo stsA 1 d g a b)"
  by (rule c_reach_run [of _ "[True, True]"]) (simp add: duo_def c_switch_def Let_def)

lemma duo_load_a: "i < iters \<Longrightarrow> c_reach iters (duo f 1 d g (LoopTest, i, r) b) (duo f 1 d g (StoreG, i, g) b)"
  by (rule c_reach_run [of _ "[False, False]"]) (simp add: duo_def thread_at_def c_step_def c_thread_def Let_def)

lemma duo_store_a: "c_reach iters (duo f 1 d g (StoreG, i, r) b) (duo f 1 d (r + 1) (LoopTest, i + 1, r) b)"
  by (rule c_reach_run [of _ "[False, False]"]) (simp add: duo_def thread_at_def c_step_def c_thread_def Let_def)

lemma duo_load_b: "i < iters \<Longrightarrow> c_reach iters (duo f 2 d g a (LoopTest, i, r)) (duo f 2 d g a (StoreG, i, g))"
  by (rule c_reach_run [of _ "[False, False]"]) (simp add: duo_def thread_at_def c_step_def c_thread_def Let_def fun_upd_twist)

lemma duo_store_b: "c_reach iters (duo f 2 d g a (StoreG, i, r)) (duo f 2 d (r + 1) a (LoopTest, i + 1, r))"
  by (rule c_reach_run [of _ "[False, False]"]) (simp add: duo_def thread_at_def c_step_def c_thread_def Let_def fun_upd_twist)

lemma duo_loop_a:
  "i + int n \<le> iters \<Longrightarrow> \<exists>r'. c_reach iters (duo f 1 d g (LoopTest, i, r) b) (duo f 1 d (g + int n) (LoopTest, i + int n, r') b)"
proof (induction n)
  case (Suc n)
  then obtain r1 where "c_reach iters (duo f 1 d g (LoopTest, i, r) b) (duo f 1 d (g + int n) (LoopTest, i + int n, r1) b)" by auto
  moreover have "i + int n < iters" using Suc.prems by simp
  ultimately show ?case
    using c_reach_trans [OF c_reach_trans [OF _ duo_load_a] duo_store_a] by (fastforce simp: ac_simps)
qed (auto intro: exI [of _ r])

lemma duo_loop_b:
  "i + int n \<le> iters \<Longrightarrow> \<exists>r'. c_reach iters (duo f 2 d g a (LoopTest, i, r)) (duo f 2 d (g + int n) a (LoopTest, i + int n, r'))"
proof (induction n)
  case (Suc n)
  then obtain r1 where "c_reach iters (duo f 2 d g a (LoopTest, i, r)) (duo f 2 d (g + int n) a (LoopTest, i + int n, r1))" by auto
  moreover have "i + int n < iters" using Suc.prems by simp
  ultimately show ?case
    using c_reach_trans [OF c_reach_trans [OF _ duo_load_b] duo_store_b] by (fastforce simp: ac_simps)
qed (auto intro: exI [of _ r])

text \<open>Thread 1 ends while thread 2 still has something to do; then thread 2 ends.\<close>

lemma duo_end_a:
  "c_reach iters (duo stsA 1 0 g (LoopTest, iters, r) b) (duo stsE 2 1 g (Halt, iters, 0) b)"
  by (rule c_reach_run [of _ "[False, False, False, False, False, False, True]"])
    (simp add: duo_def thread_at_def c_step_def c_thread_def c_switch_def Let_def)

lemma duo_end_b:
  "c_reach iters (duo stsE 2 1 g a (LoopTest, iters, r))
     (duo (sts4 PROCESS_READY PROCESS_TERMINATED PROCESS_TERMINATED PROCESS_FREE) 2 2 g a (Halt, iters, 1))"
  by (rule c_reach_run [of _ "[False, False, False, False, False, False]"])
    (simp add: duo_def thread_at_def c_step_def c_thread_def Let_def fun_upd_twist)


section \<open>Every total in between\<close>

definition boot_duo :: conf where
  "boot_duo = duo (sts4 PROCESS_RUNNING PROCESS_READY PROCESS_READY PROCESS_FREE) 0 0 0 (LoopTest, 0, 0) (LoopTest, 0, 0)"

definition end_duo :: "int \<Rightarrow> int \<Rightarrow> conf" where
  "end_duo iters g =
     duo (sts4 PROCESS_READY PROCESS_TERMINATED PROCESS_TERMINATED PROCESS_FREE) 2 2 g (Halt, iters, 0) (Halt, iters, 1)"

lemma duo_finish:
  assumes "j + int n = iters"
  shows "c_reach iters (duo stsA 1 0 g (LoopTest, iters, r) (LoopTest, j, s)) (end_duo iters (g + int n))"
proof -
  have "j + int n \<le> iters" using assms by simp
  then obtain r' where b: "c_reach iters (duo stsE 2 1 g (Halt, iters, 0) (LoopTest, j, s))
      (duo stsE 2 1 (g + int n) (Halt, iters, 0) (LoopTest, iters, r'))"
    using duo_loop_b unfolding assms [symmetric] by blast
  show ?thesis
    unfolding end_duo_def by (rule c_reach_trans [OF c_reach_trans [OF duo_end_a b] duo_end_b])
qed

text \<open>The first store of thread 1 undoes \<open>m\<close> increments of thread 2.\<close>

lemma race_high:
  assumes "m \<le> N" "1 \<le> N"
  shows "c_reach (int N) boot_duo (end_duo (int N) (2 * int N - int m))"
proof -
  have l: "0 + int m \<le> int N" "0 + 1 + int (N - 1) \<le> int N" "0 < int N" using assms by simp_all
  obtain r1 where 1: "c_reach (int N) (duo stsB 2 0 0 (StoreG, 0, 0) (LoopTest, 0, 0))
      (duo stsB 2 0 (0 + int m) (StoreG, 0, 0) (LoopTest, 0 + int m, r1))"
    using duo_loop_b [OF l(1)] by blast
  obtain r2 where 2: "c_reach (int N) (duo stsA 1 0 (0 + 1) (LoopTest, 0 + 1, 0) (LoopTest, 0 + int m, r1))
      (duo stsA 1 0 (0 + 1 + int (N - 1)) (LoopTest, 0 + 1 + int (N - 1), r2) (LoopTest, 0 + int m, r1))"
    using duo_loop_a [OF l(2)] by blast
  have 3: "c_reach (int N) (duo stsA 1 0 (0 + 1 + int (N - 1)) (LoopTest, 0 + 1 + int (N - 1), r2) (LoopTest, 0 + int m, r1))
      (end_duo (int N) (int N + int (N - m)))"
    using duo_finish [of "int m" "N - m" "int N" "int N" r2 r1] assms by simp
  have "c_reach (int N) boot_duo (end_duo (int N) (int N + int (N - m)))"
    unfolding boot_duo_def
    by (rule c_reach_trans [OF duo_start c_reach_trans [OF duo_load_a [OF l(3)] c_reach_trans [OF duo_to_b
        c_reach_trans [OF 1 c_reach_trans [OF duo_to_a c_reach_trans [OF duo_store_a c_reach_trans [OF 2 3]]]]]]])
  moreover have "int N + int (N - m) = 2 * int N - int m" using assms by simp
  ultimately show ?thesis by simp
qed

text \<open>The first store of thread 1 undoes all but the last increment of thread 2, whose last store undoes
  all but \<open>k\<close> of the others of thread 1.\<close>

lemma race_low:
  assumes "k < N"
  shows "c_reach (int N) boot_duo (end_duo (int N) (2 + int k))"
proof -
  have l: "0 + int (N - 1) \<le> int N" "0 + int (N - 1) < int N" "0 < int N" "0 + 1 + int (N - 1 - k) \<le> int N"
    "0 + 1 + int (N - 1 - k) + int k \<le> int N" using assms by simp_all
  obtain r1 where 1: "c_reach (int N) (duo stsB 2 0 0 (StoreG, 0, 0) (LoopTest, 0, 0))
      (duo stsB 2 0 (0 + int (N - 1)) (StoreG, 0, 0) (LoopTest, 0 + int (N - 1), r1))"
    using duo_loop_b [OF l(1)] by blast
  obtain r2 where 2: "c_reach (int N) (duo stsA 1 0 (0 + 1) (LoopTest, 0 + 1, 0) (StoreG, 0 + int (N - 1), 0 + 1))
      (duo stsA 1 0 (0 + 1 + int (N - 1 - k)) (LoopTest, 0 + 1 + int (N - 1 - k), r2) (StoreG, 0 + int (N - 1), 0 + 1))"
    using duo_loop_a [OF l(4)] by blast
  obtain r3 where 3: "c_reach (int N) (duo stsA 1 0 (0 + 1 + 1) (LoopTest, 0 + 1 + int (N - 1 - k), r2) (LoopTest, 0 + int (N - 1) + 1, 0 + 1))
      (duo stsA 1 0 (0 + 1 + 1 + int k) (LoopTest, 0 + 1 + int (N - 1 - k) + int k, r3) (LoopTest, 0 + int (N - 1) + 1, 0 + 1))"
    using duo_loop_a [OF l(5)] by blast
  have 4: "c_reach (int N) (duo stsA 1 0 (0 + 1 + 1 + int k) (LoopTest, 0 + 1 + int (N - 1 - k) + int k, r3) (LoopTest, 0 + int (N - 1) + 1, 0 + 1))
      (end_duo (int N) (2 + int k))"
    using duo_finish [of "int N" 0 "int N" "2 + int k" r3 1] assms by simp
  show ?thesis
    unfolding boot_duo_def
    by (rule c_reach_trans [OF duo_start c_reach_trans [OF duo_load_a [OF l(3)] c_reach_trans [OF duo_to_b
        c_reach_trans [OF 1 c_reach_trans [OF duo_to_a c_reach_trans [OF duo_store_a c_reach_trans [OF duo_to_b
        c_reach_trans [OF duo_load_b [OF l(2)] c_reach_trans [OF duo_to_a c_reach_trans [OF 2 c_reach_trans [OF duo_to_b
        c_reach_trans [OF duo_store_b c_reach_trans [OF duo_to_a c_reach_trans [OF 3 4]]]]]]]]]]]]]])
qed

section \<open>The outcomes\<close>

definition race_outcome :: "u32 \<Rightarrow> u32 \<Rightarrow> u32 \<Rightarrow> int \<Rightarrow> int \<Rightarrow> bool" where
  "race_outcome stacks ea eb iters g \<longleftrightarrow>
     (\<exists>w t u. reach iters (race_command stacks ea eb boot_world) w \<and> threads w 1 = Some t \<and> threads w 2 = Some u
        \<and> pc t = Halt \<and> pc u = Halt \<and> myglobal w = g)"

lemma race_can_end:
  assumes "c_reach iters boot_duo (end_duo iters g)"
  shows "race_outcome stacks ea eb iters g"
proof -
  obtain bs where "c_run iters bs (conf_of (race_command stacks ea eb boot_world)) = Some (end_duo iters g)"
    using assms unfolding c_reach_def conjunct2 [OF race_boot] boot_duo_def by blast
  from c_run_reach [OF conjunct1 [OF race_boot] this] obtain w where
    w: "reach iters (race_command stacks ea eb boot_world) w" and c: "conf_of w = end_duo iters g" by blast
  have "threads w = [2 \<mapsto> thread_at race_b (Halt, iters, 1), 1 \<mapsto> thread_at race_a (Halt, iters, 0)]" "myglobal w = g"
    using arg_cong [OF c, of thr] arg_cong [OF c, of glob] by (simp_all add: end_duo_def duo_def)
  with w show ?thesis unfolding race_outcome_def by (intro exI [of _ w]) (simp add: thread_at_def)
qed

lemma race_start: "0 \<le> iters \<Longrightarrow> loss_inv iters {1, 2} (race_command stacks ea eb boot_world)"
proof -
  let ?w = "race_command stacks ea eb boot_world"
  assume i: "0 \<le> iters"
  note c = conjunct2 [OF race_boot, of stacks ea eb]
  have "threads ?w = [2 \<mapsto> thread_at race_b (LoopTest, 0, 0), 1 \<mapsto> thread_at race_a (LoopTest, 0, 0)]" "myglobal ?w = 0"
    using arg_cong [OF c, of thr] arg_cong [OF c, of glob] by (simp_all add: duo_def)
  with i show ?thesis by (auto simp: loss_inv_def thread_at_def plain_def index_ok_def completed_def)
qed

lemma race_bounds:
  assumes "2 \<le> iters" "race_outcome stacks ea eb iters g"
  shows "2 \<le> g \<and> g \<le> 2 * iters"
proof -
  obtain w t u where w: "reach iters (race_command stacks ea eb boot_world) w" "threads w 1 = Some t" "threads w 2 = Some u"
      "pc t = Halt" "pc u = Halt" "myglobal w = g"
    using assms(2) unfolding race_outcome_def by blast
  have "0 \<le> iters" using assms(1) by simp
  from losses.run [OF w(1) [unfolded reach_rtranclp] race_start [OF this]] have inv: "loss_inv iters {1, 2} w" .
  have "index_ok iters t" "index_ok iters u" using inv w(2,3) unfolding loss_inv_def by blast+
  then have "completed t = iters" "completed u = iters" using w(4,5) by (auto simp: index_ok_def completed_def)
  then show ?thesis using inv w(2,3,6) assms(1) by (auto simp: loss_inv_def)
qed

text \<open>C22. Without the mutex increments are lost, as many as can be: the values \<^verbatim>\<open>myglobal\<close> can have when
  both threads of the command \<^verbatim>\<open>race\<close> have ended are exactly those from 2 to twice the number of
  iterations.\<close>

theorem race_outcomes:
  "{g. race_outcome stacks ea eb RACE_ITERS g} = {2 .. 2 * RACE_ITERS}"
proof
  show "{g. race_outcome stacks ea eb RACE_ITERS g} \<subseteq> {2 .. 2 * RACE_ITERS}"
    using race_bounds [of RACE_ITERS stacks ea eb] by (auto simp: RACE_ITERS_def)
  show "{2 .. 2 * RACE_ITERS} \<subseteq> {g. race_outcome stacks ea eb RACE_ITERS g}"
  proof
    fix g assume g: "g \<in> {2 .. 2 * RACE_ITERS}"
    have N: "RACE_ITERS = int 100000" by (simp add: RACE_ITERS_def)
    have "c_reach (int 100000) boot_duo (end_duo (int 100000) g)"
    proof (cases "int 100000 \<le> g")
      case True
      have "nat (200000 - g) \<le> 100000" "2 * int 100000 - int (nat (200000 - g)) = g" using True g by (simp_all add: N)
      with race_high [of "nat (200000 - g)" 100000] show ?thesis by simp
    next
      case False
      have "nat (g - 2) < 100000" "2 + int (nat (g - 2)) = g" using False g by simp_all
      with race_low [of "nat (g - 2)" 100000] show ?thesis by simp
    qed
    then have "race_outcome stacks ea eb RACE_ITERS g" unfolding N by (rule race_can_end)
    then show "g \<in> {g. race_outcome stacks ea eb RACE_ITERS g}" by simp
  qed
qed

end
