(* ===== verification/RaceSafe.thy ===== *)
theory RaceSafe
  imports RaceRuns
begin

text \<open>
  The two threads of \<^verbatim>\<open>racem\<close> use the waiter list safely: an invariant over their interleavings says that
  the list holds a thread exactly while that thread is blocked and the other has not popped it yet.
  (With three threads it does not hold, see \<open>RaceRuns\<close>.)
\<close>

section \<open>Every step of a world is a step of its configuration\<close>

definition known :: "thread \<Rightarrow> bool" where
  "known t \<longleftrightarrow> prog t \<in> {race_a, race_b, racem_a, racem_b}"

lemma c_thread_known:
  assumes "known t" "pc t = Enqueue \<Longrightarrow> 0 \<le> nwaiters (cmtx k) \<and> nwaiters (cmtx k) < 16"
    "pc t = PopRead \<Longrightarrow> 0 \<le> reg t \<and> reg t < 16"
  shows "\<exists>t' k'. c_thread iters t k = Some (t', k')"
  using assms by (cases "pc t") (simp_all add: c_thread_def Let_def known_def)

section \<open>The invariant\<close>

abbreviation (input) popping :: "tpc set" where
  "popping \<equiv> {PopLoad, PopStore, PopRead, Wake}"

text \<open>If \<open>x\<close> is blocked, its entry is on the list, or the other thread has it in its register.\<close>

definition listed :: "conf \<Rightarrow> nat \<Rightarrow> thread \<Rightarrow> nat \<Rightarrow> thread \<Rightarrow> bool" where
  "listed k x t y u \<longleftrightarrow> (sts k x = PROCESS_BLOCKED \<longrightarrow>
     pc t \<in> {YieldCall, Xchg} \<and> (now k = x \<longrightarrow> pc t = YieldCall) \<and> sts k y \<noteq> PROCESS_BLOCKED \<and> pc u \<noteq> Enqueue
     \<and> (nwaiters (cmtx k) = 1 \<and> waiters (cmtx k) ! 0 = of_nat x \<and> pc u \<notin> {PopRead, Wake} \<and> (pc u = PopStore \<longrightarrow> reg u = 1)
       \<or> nwaiters (cmtx k) = 0 \<and> pc u = PopRead \<and> reg u = 0 \<and> waiters (cmtx k) ! 0 = of_nat x
       \<or> nwaiters (cmtx k) = 0 \<and> pc u = Wake \<and> wake u = of_nat x))"

definition team :: "conf \<Rightarrow> nat \<Rightarrow> thread \<Rightarrow> nat \<Rightarrow> thread \<Rightarrow> bool" where
  "team k x t y u \<longleftrightarrow> x \<noteq> y \<and> 0 < x \<and> x < 16 \<and> 0 < y \<and> y < 16 \<and> thr k = [x \<mapsto> t, y \<mapsto> u]
     \<and> known t \<and> known u \<and> use_mutex (prog t) \<and> use_mutex (prog u)"

definition shell_ready :: "conf \<Rightarrow> bool" where
  "shell_ready k \<longleftrightarrow> now k < 16 \<and> sts k 0 \<in> {PROCESS_READY, PROCESS_RUNNING} \<and> (now k \<noteq> 0 \<longrightarrow> sts k 0 = PROCESS_READY)"

definition held :: "conf \<Rightarrow> thread \<Rightarrow> thread \<Rightarrow> bool" where
  "held k t u \<longleftrightarrow> (locked (cmtx k) = 1 \<longrightarrow> in_cs t \<or> in_cs u) \<and> \<not> (pc t = Enqueue \<and> pc u = Enqueue)"

text \<open>While nobody is blocked the list is empty and nobody pops.\<close>

definition unused :: "conf \<Rightarrow> nat \<Rightarrow> thread \<Rightarrow> nat \<Rightarrow> thread \<Rightarrow> bool" where
  "unused k x t y u \<longleftrightarrow> length (waiters (cmtx k)) = 16
     \<and> (sts k x \<noteq> PROCESS_BLOCKED \<and> sts k y \<noteq> PROCESS_BLOCKED \<longrightarrow>
          nwaiters (cmtx k) = 0 \<and> pc t \<notin> popping \<and> pc u \<notin> popping)"

definition pair :: "conf \<Rightarrow> nat \<Rightarrow> thread \<Rightarrow> nat \<Rightarrow> thread \<Rightarrow> bool" where
  "pair k x t y u \<longleftrightarrow> team k x t y u \<and> shell_ready k \<and> held k t u \<and> unused k x t y u
     \<and> listed k x t y u \<and> listed k y u x t"

lemma pair_sym: "pair k x t y u \<Longrightarrow> pair k y u x t"
  by (auto simp: pair_def team_def held_def unused_def fun_upd_twist)

lemma pair_switch:
  assumes "pair k x t y u"
  shows "pair (c_switch k) x t y u"
proof (cases "next_of (sts k) (now k) = now k")
  case True
  with assms show ?thesis by (simp add: c_switch_def Let_def)
next
  case False
  let ?n = "next_of (sts k) (now k)"
  have k: "c_switch k = k\<lparr>sts := ((if sts k (now k) = PROCESS_RUNNING then (sts k)(now k := PROCESS_READY) else sts k)
      (?n := PROCESS_RUNNING)), now := ?n\<rparr>"
    using False by (simp add: c_switch_def Let_def)
  have r: "sts k ?n = PROCESS_READY" using next_of_ready [OF False] .
  have p: "team k x t y u" "shell_ready k" "held k t u" "unused k x t y u" "listed k x t y u" "listed k y u x t"
    using assms by (simp_all add: pair_def)
  have b: "sts (c_switch k) z = PROCESS_BLOCKED \<longleftrightarrow> sts k z = PROCESS_BLOCKED" for z
    using r by (auto simp: k)
  have m: "cmtx (c_switch k) = cmtx k" "thr (c_switch k) = thr k" "now (c_switch k) = ?n" by (simp_all add: k)
  have l: "listed (c_switch k) p v q w" if "listed k p v q w" for p v q w
    using that r by (auto simp: listed_def b m)
  have "shell_ready (c_switch k)"
  proof -
    have "?n < 16" using p(2) by (auto simp: shell_ready_def intro: next_of_less)
    then show ?thesis using p(2) False r by (auto simp: shell_ready_def k)
  qed
  moreover have "team (c_switch k) x t y u" "held (c_switch k) t u" "unused (c_switch k) x t y u"
    using p by (simp_all add: team_def held_def unused_def b m)
  ultimately show ?thesis using l [OF p(5)] l [OF p(6)] by (simp add: pair_def)
qed

text \<open>A step of \<open>x\<close>. Most steps neither touch the lock and its list nor a state.\<close>

lemma pair_local:
  assumes inv: "pair k x t y u" and x: "sts k x \<noteq> PROCESS_BLOCKED"
    and t: "prog t' = prog t" "in_cs t' = in_cs t" "pc t' \<noteq> Enqueue" "pc t \<notin> popping" "pc t' \<notin> popping"
    and k: "sts k' = sts k" "now k' = now k" "waiters (cmtx k') = waiters (cmtx k)" "locked (cmtx k') = locked (cmtx k)"
      "nwaiters (cmtx k') = nwaiters (cmtx k)" "thr k' = (thr k)(x \<mapsto> t')"
  shows "pair k' x t' y u"
proof -
  have p: "team k x t y u" "shell_ready k" "held k t u" "unused k x t y u" "listed k x t y u" "listed k y u x t"
    using inv by (simp_all add: pair_def)
  have "team k' x t' y u" using p(1) t(1) k(6) by (auto simp: team_def known_def fun_upd_twist)
  moreover have "shell_ready k'" using p(2) by (simp add: shell_ready_def k)
  moreover have "held k' t' u" using p(3) t(2,3) by (auto simp: held_def k)
  moreover have "unused k' x t' y u" using p(4) t(5) by (simp add: unused_def k)
  moreover have "listed k' x t' y u" using x by (simp add: listed_def k)
  moreover have "listed k' y u x t'" using p(6) t(3-5) by (auto simp: listed_def k)
  ultimately show ?thesis by (simp add: pair_def)
qed

lemma pair_change:
  assumes "pair k x t y u" "thr k' = (thr k)(x \<mapsto> t')" "prog t' = prog t" "now k' = now k" "sts k' 0 = sts k 0"
    and "held k' t' u" "unused k' x t' y u" "listed k' x t' y u" "listed k' y u x t'"
  shows "pair k' x t' y u"
proof -
  have "team k' x t' y u" using assms(1-3) by (auto simp: pair_def team_def known_def fun_upd_twist)
  moreover have "shell_ready k'" using assms(1,4,5) by (simp add: pair_def shell_ready_def)
  ultimately show ?thesis using assms(6-9) by (simp add: pair_def)
qed

text \<open>Who pops, pops the other, which is blocked.\<close>

lemma pair_popping:
  assumes "pair k x t y u" "now k = x" "pc t \<in> popping"
  shows "sts k y = PROCESS_BLOCKED" "pc u \<in> {YieldCall, Xchg}"
    "pc t \<in> {PopLoad, PopStore} \<Longrightarrow> nwaiters (cmtx k) = 1 \<and> waiters (cmtx k) ! 0 = of_nat y"
    "pc t = PopStore \<Longrightarrow> reg t = 1"
    "pc t = PopRead \<Longrightarrow> nwaiters (cmtx k) = 0 \<and> reg t = 0 \<and> waiters (cmtx k) ! 0 = of_nat y"
    "pc t = Wake \<Longrightarrow> nwaiters (cmtx k) = 0 \<and> wake t = of_nat y"
proof -
  have p: "unused k x t y u" "listed k x t y u" "listed k y u x t" using assms(1) by (simp_all add: pair_def)
  have "sts k x \<noteq> PROCESS_BLOCKED" using p(2) assms(2,3) by (auto simp: listed_def)
  with p(1) assms(3) show b: "sts k y = PROCESS_BLOCKED" by (auto simp: unused_def)
  show "pc u \<in> {YieldCall, Xchg}" "pc t \<in> {PopLoad, PopStore} \<Longrightarrow> nwaiters (cmtx k) = 1 \<and> waiters (cmtx k) ! 0 = of_nat y"
    "pc t = PopStore \<Longrightarrow> reg t = 1"
    "pc t = PopRead \<Longrightarrow> nwaiters (cmtx k) = 0 \<and> reg t = 0 \<and> waiters (cmtx k) ! 0 = of_nat y"
    "pc t = Wake \<Longrightarrow> nwaiters (cmtx k) = 0 \<and> wake t = of_nat y"
    using p(3) b by (auto simp: listed_def)
qed

lemma pair_lock:
  assumes inv: "pair k x t y u" and now: "now k = x" and pc: "pc t \<in> {Xchg, Enqueue, YieldCall}"
  shows "\<exists>t' k'. c_thread iters t k = Some (t', k') \<and> pair (k'\<lparr>thr := (thr k)(x \<mapsto> t')\<rparr>) x t' y u"
proof -
  have p: "team k x t y u" "shell_ready k" "held k t u" "unused k x t y u" "listed k x t y u" "listed k y u x t"
    using inv by (simp_all add: pair_def)
  have free: "pc t \<noteq> YieldCall \<Longrightarrow> sts k x \<noteq> PROCESS_BLOCKED" using p(5) now by (auto simp: listed_def)
  note run = c_thread_def Let_def
  note parts = pair_def team_def shell_ready_def held_def unused_def listed_def in_cs_def known_def
  from pc consider "pc t = Xchg" | "pc t = Enqueue" | "pc t = YieldCall" by blast
  then show ?thesis
  proof cases
    case 1
    let ?t = "t\<lparr>pc := (if locked (cmtx k) = 1 then Enqueue else SetOwner)\<rparr>"
    let ?k = "k\<lparr>cmtx := (cmtx k)\<lparr>locked := 1\<rparr>, thr := (thr k)(x \<mapsto> ?t)\<rparr>"
    have other: "in_cs u" "sts k y \<noteq> PROCESS_BLOCKED" if "locked (cmtx k) = 1"
      using that 1 p(3,6) by (auto simp: held_def in_cs_def listed_def)
    have "pair ?k x ?t y u"
    proof (rule pair_change [OF inv])
      show "held ?k ?t u" using other by (auto simp: held_def in_cs_def)
      show "unused ?k x ?t y u" using p(4) by (simp add: unused_def)
      show "listed ?k x ?t y u" using free 1 by (simp add: listed_def)
      show "listed ?k y u x ?t" using p(6) other(2) free 1 by (auto simp: listed_def)
    qed simp_all
    with 1 show ?thesis by (simp add: run)
  next
    case 2
    then show ?thesis using p now free by (auto simp: run parts fun_upd_twist)
  next
    case 3
    have "next_of (sts k) x \<noteq> x"
      using next_of_closer [of x 0 "sts k"] p(1,2) now by (auto simp: team_def shell_ready_def)
    then have "now (c_switch k) \<noteq> x" by (simp add: c_switch_def Let_def now)
    moreover have "pair (c_switch k) x t y u" using inv by (rule pair_switch)
    ultimately have "pair ((c_switch k)\<lparr>thr := (thr k)(x \<mapsto> t\<lparr>pc := Xchg\<rparr>)\<rparr>) x (t\<lparr>pc := Xchg\<rparr>) y u"
      using 3 p(1) by (auto simp: parts fun_upd_twist)
    then show ?thesis using 3 by (simp add: run)
  qed
qed

lemma pair_unlocking:
  assumes inv: "pair k x t y u" and now: "now k = x"
    and pc: "pc t \<in> {Release, TestWaiters, PopLoad, PopStore, PopRead}" "pc t' \<noteq> Enqueue" "prog t' = prog t"
    and k': "thr k' = (thr k)(x \<mapsto> t')" "sts k' = sts k" "now k' = now k" "waiters (cmtx k') = waiters (cmtx k)"
      "locked (cmtx k') = 1 \<Longrightarrow> locked (cmtx k) = 1 \<and> pc t \<noteq> Release"
    and list: "sts k y \<noteq> PROCESS_BLOCKED \<Longrightarrow> nwaiters (cmtx k') = 0 \<and> pc t' \<notin> popping" "listed k' y u x t'"
  shows "pair k' x t' y u"
proof (rule pair_change [OF inv])
  have p: "held k t u" "unused k x t y u" "listed k x t y u" using inv by (simp_all add: pair_def)
  have free: "sts k x \<noteq> PROCESS_BLOCKED" using p(3) now pc(1) by (auto simp: listed_def)
  show "held k' t' u" using p(1) pc k'(5) by (auto simp: held_def in_cs_def)
  show "unused k' x t' y u" using p(2) k' list(1) free by (auto simp: unused_def)
  show "listed k' x t' y u" using free by (simp add: listed_def k')
qed (simp_all add: pc k' list)

lemma pair_unlock:
  assumes inv: "pair k x t y u" and now: "now k = x"
    and pc: "pc t \<in> {Release, TestWaiters, PopLoad, PopStore, PopRead}"
  shows "\<exists>t' k'. c_thread iters t k = Some (t', k') \<and> pair (k'\<lparr>thr := (thr k)(x \<mapsto> t')\<rparr>) x t' y u"
proof -
  have p: "unused k x t y u" "listed k y u x t" "sts k x \<noteq> PROCESS_BLOCKED"
    using inv now pc by (auto simp: pair_def listed_def)
  note upd = pair_unlocking [OF inv now pc] and q = pair_popping [OF inv now]
  from pc consider "pc t = Release" | "pc t = TestWaiters" | "pc t = PopLoad" | "pc t = PopStore" | "pc t = PopRead"
    by blast
  then show ?thesis
  proof cases
    case 1
    have "pair (k\<lparr>cmtx := (cmtx k)\<lparr>locked := 0\<rparr>, thr := (thr k)(x \<mapsto> t\<lparr>pc := TestWaiters\<rparr>)\<rparr>) x (t\<lparr>pc := TestWaiters\<rparr>) y u"
      by (rule upd) (use 1 p in \<open>auto simp: unused_def listed_def\<close>)
    with 1 show ?thesis by (simp add: c_thread_def Let_def)
  next
    case 2
    let ?t = "t\<lparr>pc := (if 0 < nwaiters (cmtx k) then PopLoad else NextI)\<rparr>"
    have "pair (k\<lparr>thr := (thr k)(x \<mapsto> ?t)\<rparr>) x ?t y u"
      by (rule upd) (use 2 p in \<open>auto simp: unused_def listed_def\<close>)
    with 2 show ?thesis by (simp add: c_thread_def Let_def)
  next
    case 3
    let ?t = "t\<lparr>pc := PopStore, reg := nwaiters (cmtx k)\<rparr>"
    have "pair (k\<lparr>thr := (thr k)(x \<mapsto> ?t)\<rparr>) x ?t y u"
      by (rule upd) (use 3 p q in \<open>auto simp: listed_def\<close>)
    with 3 show ?thesis by (simp add: c_thread_def Let_def)
  next
    case 4
    let ?t = "t\<lparr>pc := PopRead, reg := reg t - 1\<rparr>"
    have "pair (k\<lparr>cmtx := (cmtx k)\<lparr>nwaiters := reg t - 1\<rparr>, thr := (thr k)(x \<mapsto> ?t)\<rparr>) x ?t y u"
      by (rule upd) (use 4 p q in \<open>auto simp: listed_def\<close>)
    with 4 show ?thesis by (simp add: c_thread_def Let_def)
  next
    case 5
    let ?t = "t\<lparr>pc := Wake, wake := waiters (cmtx k) ! nat (reg t)\<rparr>"
    have "pair (k\<lparr>thr := (thr k)(x \<mapsto> ?t)\<rparr>) x ?t y u"
      by (rule upd) (use 5 p q in \<open>auto simp: listed_def\<close>)
    with 5 q(5) show ?thesis by (simp add: c_thread_def Let_def)
  qed
qed

lemma pair_wake:
  assumes inv: "pair k x t y u" and now: "now k = x" and pc: "pc t = Wake"
  shows "\<exists>t' k'. c_thread iters t k = Some (t', k') \<and> pair (k'\<lparr>thr := (thr k)(x \<mapsto> t')\<rparr>) x t' y u"
proof -
  have p: "team k x t y u" "held k t u" "unused k x t y u" "sts k x \<noteq> PROCESS_BLOCKED"
    using inv now pc by (auto simp: pair_def listed_def)
  note q = pair_popping [OF inv now]
  have x: "unat (of_nat y :: u32) = y" "(of_nat y :: u32) < 16"
    using p(1) by (auto simp: team_def unat_of_nat word_less_nat_alt)
  let ?t = "t\<lparr>pc := NextI\<rparr>"
  let ?k = "k\<lparr>sts := (sts k)(y := PROCESS_READY), thr := (thr k)(x \<mapsto> ?t)\<rparr>"
  have "pair ?k x ?t y u"
  proof (rule pair_change [OF inv])
    show "held ?k ?t u" using p(2) pc by (auto simp: held_def in_cs_def)
    show "unused ?k x ?t y u" using p(3) q pc by (auto simp: unused_def)
  qed (use p pc in \<open>simp_all add: team_def listed_def\<close>)
  with q pc x show ?thesis by (simp add: c_thread_def Let_def)
qed

lemma pair_exit:
  assumes inv: "pair k x t y u" and now: "now k = x" and pc: "pc t = ExitCall"
  shows "\<exists>t' k'. c_thread iters t k = Some (t', k') \<and> pair (k'\<lparr>thr := (thr k)(x \<mapsto> t')\<rparr>) x t' y u"
proof -
  have p: "team k x t y u" "held k t u" "unused k x t y u" "listed k y u x t" "sts k x \<noteq> PROCESS_BLOCKED"
    using inv now pc by (auto simp: pair_def listed_def)
  let ?t = "t\<lparr>pc := Halt\<rparr>"
  let ?k = "k\<lparr>sts := (sts k)(x := PROCESS_TERMINATED), thr := (thr k)(x \<mapsto> ?t)\<rparr>"
  have "pair ?k x ?t y u"
  proof (rule pair_change [OF inv])
    show "held ?k ?t u" using p(2) pc by (auto simp: held_def in_cs_def)
    show "unused ?k x ?t y u" using p pc by (auto simp: unused_def team_def)
    show "listed ?k y u x ?t" using p pc by (auto simp: listed_def team_def)
  qed (use p(1) in \<open>simp_all add: team_def listed_def\<close>)
  moreover have "x \<noteq> 0" using p(1) by (simp add: team_def)
  ultimately show ?thesis using pc by (simp add: c_thread_def Let_def now)
qed

lemma pair_step:
  assumes inv: "pair k x t y u" and now: "now k = x"
  shows "\<exists>t' k'. c_thread iters t k = Some (t', k') \<and> pair (k'\<lparr>thr := (thr k)(x \<mapsto> t')\<rparr>) x t' y u"
proof (cases "pc t \<in> {Xchg, Enqueue, YieldCall, Release, TestWaiters, PopLoad, PopStore, PopRead, Wake, ExitCall}")
  case True
  then consider "pc t \<in> {Xchg, Enqueue, YieldCall}" | "pc t \<in> {Release, TestWaiters, PopLoad, PopStore, PopRead}"
    | "pc t = Wake" | "pc t = ExitCall" by blast
  then show ?thesis
    by cases (rule pair_lock [OF assms] pair_unlock [OF assms] pair_wake [OF assms] pair_exit [OF assms]; assumption)+
next
  case False
  have "sts k x \<noteq> PROCESS_BLOCKED" using inv now False by (auto simp: pair_def listed_def)
  note local = pair_local [OF inv this]
  have use: "use_mutex (prog t)" "prog t \<in> {race_a, race_b, racem_a, racem_b}" using inv by (auto simp: pair_def team_def known_def)
  note run = c_thread_def Let_def in_cs_def
  show ?thesis
  proof (cases "pc t")
    case Print
    then show ?thesis using use(2) by (simp add: c_thread_def) (rule local, simp_all add: in_cs_def)
  qed (use False use(1) in \<open>auto simp: run intro!: local\<close>)
qed


section \<open>On worlds\<close>

definition pair_inv :: "nat \<Rightarrow> nat \<Rightarrow> world \<Rightarrow> bool" where
  "pair_inv x y w \<longleftrightarrow> sched_ok w \<and> (\<exists>t u. pair (conf_of w) x t y u)"

lemma pair_c_step:
  assumes "pair k x t y u"
  shows "\<exists>k' t' u'. c_step iters k = Some k' \<and> pair k' x t' y u'"
proof -
  have thr: "thr k = [x \<mapsto> t, y \<mapsto> u]" "x \<noteq> y" using assms by (simp_all add: pair_def team_def)
  consider "now k = x" | "now k = y" | "now k \<noteq> x" "now k \<noteq> y" by blast
  then show ?thesis
  proof cases
    case 1
    from pair_step [OF assms 1] thr 1 show ?thesis by (fastforce simp: c_step_def)
  next
    case 2
    from pair_step [OF pair_sym [OF assms] 2, of iters] obtain t' k' where
      "c_thread iters u k = Some (t', k')" "pair (k'\<lparr>thr := (thr k)(y \<mapsto> t')\<rparr>) x t y t'" using pair_sym by blast
    with thr 2 show ?thesis by (simp add: c_step_def) blast
  next
    case 3
    with thr have "c_step iters k = Some k" by (simp add: c_step_def)
    with assms show ?thesis by blast
  qed
qed

lemma pair_inv_run:
  assumes "pair_inv x y w"
  shows "\<exists>w'. run_current iters w = Inr w' \<and> pair_inv x y w'"
proof -
  obtain t u where p: "sched_ok w" "pair (conf_of w) x t y u" using assms by (auto simp: pair_inv_def)
  from pair_c_step [OF p(2)] obtain k' t' u' where k': "c_step iters (conf_of w) = Some k'" "pair k' x t' y u'" by blast
  from run_current_conf [OF p(1) k'(1)] k'(2) show ?thesis by (auto simp: pair_inv_def)
qed

lemma pair_inv_step:
  assumes inv: "pair_inv x y w" and step: "wstep iters w w'"
  shows "pair_inv x y w'"
  using step
proof cases
  case run
  with pair_inv_run [OF inv, of iters] show ?thesis by auto
next
  case irq
  obtain t u where p: "sched_ok w" "pair (conf_of w) x t y u" using inv by (auto simp: pair_inv_def)
  from pair_switch [OF p(2)] conf_reschedule [OF p(1)] irq show ?thesis by (auto simp: pair_inv_def)
qed

interpretation pairs: preserved "wstep iters" "pair_inv x y" for iters x y
  by unfold_locales (rule pair_inv_step)

lemma racem_pair:
  assumes "sched_ok w" "cur w = 0" "st w 0 = PROCESS_RUNNING" "threads w = Map.empty" "length (waiters (mtx w)) = 16"
    and "1 \<le> i" "i < j" "j < 16" "st w i = PROCESS_FREE" "st w j = PROCESS_FREE"
  shows "\<exists>x y. pair_inv x y (racem_command stacks ea eb w)"
proof -
  let ?w = "w\<lparr>myglobal := 0, race_done := 0, mtx := mutex_init (mtx w)\<rparr>"
  have ok: "sched_ok ?w" and st0: "st ?w = st w" using assms(1) by (simp_all add: world_simps)
  obtain x where x: "for_find (\<lambda>i. st ?w i = PROCESS_FREE) 1 16 = Some x"
    using assms(6-9) by (cases "for_find (\<lambda>i. st ?w i = PROCESS_FREE) 1 16") (auto simp: loop_simps st0)
  obtain v where v: "spawn stacks (bytes ''racem_a'', ea, racem_a) ?w = v" by blast
  note a = spawn_conf [OF ok x, of stacks "bytes ''racem_a''" ea racem_a, unfolded v]
  have st: "st v = (st w)(x := PROCESS_READY)" and thr: "threads v = [x \<mapsto> fresh racem_a]"
    using arg_cong [OF conjunct2 [OF a], of sts] arg_cong [OF conjunct2 [OF a], of thr] assms(4) by (simp_all add: st0)
  obtain z where "z < 16" "1 \<le> z" "z \<noteq> x" "st w z = PROCESS_FREE" using assms(6-10) by (metis less_trans nat_neq_iff order_trans less_imp_le)
  then obtain y where y: "for_find (\<lambda>i. st v i = PROCESS_FREE) 1 16 = Some y"
    by (cases "for_find (\<lambda>i. st v i = PROCESS_FREE) 1 16") (auto simp: loop_simps st)
  note b = spawn_conf [OF conjunct1 [OF a] y, of stacks "bytes ''racem_b''" eb racem_b]
  have eq: "racem_command stacks ea eb w = spawn stacks (bytes ''racem_b'', eb, racem_b) v"
    unfolding racem_command_def Let_def v [symmetric] by simp
  have xy: "1 \<le> x" "x < 16" "1 \<le> y" "y < 16" "x \<noteq> y" using x y by (auto simp: loop_simps st)
  have "pair (conf_of (racem_command stacks ea eb w)) x (fresh racem_a) y (fresh racem_b)"
    unfolding eq conjunct2 [OF b] conjunct2 [OF a] st thr using xy assms
    by (simp add: pair_def team_def shell_ready_def held_def unused_def listed_def known_def mutex_init_def world_simps)
  then show ?thesis unfolding pair_inv_def eq using b by blast
qed

text \<open>C23. The two threads of the command \<^verbatim>\<open>racem\<close> never make a wrong access: however their steps and timer
  ticks are interleaved, the running one can always go on, that is no index into the waiter list is out
  of range and every report fits its arguments, and the list holds at most one waiter.\<close>

theorem racem_never_faults:
  assumes "length (process_table w0) = 16" "current_pid w0 = 0" "state (process_table w0 ! 0) = PROCESS_RUNNING"
    and "threads w0 = Map.empty" "length (waiters (mtx w0)) = 16"
    and "1 \<le> i" "i < j" "j < 16" "state (process_table w0 ! i) = PROCESS_FREE" "state (process_table w0 ! j) = PROCESS_FREE"
    and "reach iters (racem_command stacks ea eb w0) w"
  shows "(\<exists>w'. run_current iters w = Inr w') \<and> 0 \<le> nwaiters (mtx w) \<and> nwaiters (mtx w) \<le> 1"
proof -
  obtain x y where "pair_inv x y (racem_command stacks ea eb w0)"
    using racem_pair [of w0 i j stacks ea eb] assms(1-10) by (auto simp: sched_ok_def cur_def st_def)
  from pairs.run [OF assms(11) [unfolded reach_rtranclp] this] have inv: "pair_inv x y w" .
  then obtain t u where "pair (conf_of w) x t y u" by (auto simp: pair_inv_def)
  then have "nwaiters (mtx w) = 0 \<or> nwaiters (mtx w) = 1" by (auto simp: pair_def unused_def listed_def)
  with pair_inv_run [OF inv, of iters] show ?thesis by auto
qed

theorem racem_never_faults_witness:
  "\<exists>w'. run_current RACE_ITERS (racem_command 0x20000 0x10234 0x10300 boot_world) = Inr w'"
proof -
  have f: "state (process_table boot_world ! k) = (if k = 0 then PROCESS_RUNNING else PROCESS_FREE)" if "k < 16" for k
    using boot_world_simps(6) [OF that] by (simp add: st_def)
  have "length (process_table boot_world) = 16" "current_pid boot_world = 0"
    using boot_world_simps(1,2) by (simp_all add: sched_ok_def cur_def unat_eq_zero)
  from racem_never_faults [OF this _ _ _ _ _ _ _ _ reach.reach_refl, of 1 2 RACE_ITERS "0x20000" "0x10234" "0x10300"]
  show ?thesis by (simp add: f)
qed

end
