(* ===== verification/RaceHazards.thy ===== *)
theory RaceHazards
  imports RaceRuns
begin

text \<open>
  What the shell's other commands do to threads that share the mutex: \<^verbatim>\<open>kill\<close> ends a thread wherever it
  is, also between taking and releasing the lock, and a second \<^verbatim>\<open>racem\<close> initialises the mutex again
  while threads of the first may hold it.
\<close>

section \<open>Killing the holder\<close>









section \<open>Starting again\<close>







end
