(* ===== verification/Spec2Isabelle.thy ===== *)
theory Spec2Isabelle
  imports FsProps FsConfined VgaText VgaRace ShellProps ShellOutput CreateRace Irq RaceLoss RaceSafe RaceHazards
begin

text \<open>
  Verification of SENG21213-OS, a 32-bit teaching kernel in freestanding C (\<^verbatim>\<open>kernel/\<close>, \<^verbatim>\<open>include/fs.h\<close>)
  that \<^verbatim>\<open>boot/\<close> loads from a floppy image.

  \<^bold>\<open>The program.\<close> \<^verbatim>\<open>kernel_main\<close> sets up the screen, the keyboard, the interrupt table, the interrupt
  controllers and the timer, the frame allocator, the RAM disk and the process table, starts two
  demonstration tasks, enables interrupts and becomes the shell (process 0). The shell reads lines from the
  keyboard and calls the other parts: the RAM disk for files, the process table for \<^verbatim>\<open>ps\<close> and
  \<^verbatim>\<open>kill\<close>, the allocator's counters for \<^verbatim>\<open>meminfo\<close>, threads and a mutex for the race demonstrations; it
  prints through the screen driver. The timer interrupt calls the scheduler, which switches stacks with
  the assembly routine \<^verbatim>\<open>context_switch\<close>.

  \<^bold>\<open>Common ground.\<close> \<open>Prelude\<close> (integer types, the two \<^verbatim>\<open>for\<close> loop schemes \<^verbatim>\<open>for_do\<close> and
  \<^verbatim>\<open>for_find\<close>, word arithmetic), \<open>Memory\<close> (little-endian accesses to bytes), \<open>Cstr\<close> (C strings and
  bounded copies), \<open>Bitmap\<close> (the interface of a bitmap and of a first-fit allocator as the locales
  \<^verbatim>\<open>bitmap\<close> and \<^verbatim>\<open>first_fit\<close>). The interface is interpreted three times on the code's own functions: the
  frame bitmap in \<open>Pmm\<close>, the inode and the block bitmap in \<open>FsView\<close>. \<open>Steps\<close> holds the rule of
  invariants over runs of a step relation (locale \<^verbatim>\<open>preserved\<close>), interpreted for the mutex invariant,
  the counters, the lost updates, the process table, the saved contexts and the unused slots.

  \<^bold>\<open>Frame allocator\<close> (\<open>Pmm\<close>; \<^verbatim>\<open>kernel/pmm.c\<close>). State: the bitmap as bytes and the two counters.
  Allocation is lowest-fit, frees restore, a client never gets a frame twice; \<^verbatim>\<open>pmm_init_exact\<close> says
  which frames are free after initialisation, with and without a memory map.

  \<^bold>\<open>Screen\<close> (\<open>Vga\<close>, \<open>VgaText\<close>, \<open>VgaRace\<close>; \<^verbatim>\<open>kernel/vga.c\<close>). State: the frame buffer
  over all integer indices (so that a store outside the screen is visible), cursor, attribute and the trace
  of port writes. Formatted output gives \<^term>\<open>None\<close> when a conversion reads an argument of the wrong kind or past the last one. Output stays
  on the screen, scrolling is exact, and \<open>VgaText\<close> shows formatted output equal to printing the text of a
  reference formatter. \<open>VgaRace\<close> splits \<^verbatim>\<open>vga_putchar\<close> into its statements and interleaves processes that
  print: alone they print as the function does, together they leave the frame buffer.

  \<^bold>\<open>RAM disk\<close> (\<open>FsDisk\<close>, \<open>Fs\<close>: \<^verbatim>\<open>kernel/fs.c\<close> over the bytes of the disk and the descriptor table).
  \<open>FsView\<close> reads the bytes as typed structures, \<open>FsInv\<close> states the on-disk invariant, \<open>FsSpec\<close> the
  abstract file system (names, byte strings, open files, free blocks) and the abstraction, \<open>FsDir\<close>,
  \<open>FsData\<close> and \<open>FsMount\<close> prove each operation a simulation, \<open>FsProps\<close> holds the properties: the
  refinement of every trace of calls (through the locale \<^verbatim>\<open>file_system\<close>, interpreted on the code's
  operations), round trips, block accounting, completeness of writes. \<open>FsConfined\<close> shows that no call
  touches the superblock or memory behind the disk.

  \<^bold>\<open>Interrupt set-up\<close> (\<open>Hw\<close>; \<^verbatim>\<open>kernel/idt.c\<close>, \<^verbatim>\<open>kernel/pic.c\<close>, \<^verbatim>\<open>kernel/pit.c\<close>). Gates as bytes in
  memory, programming as sequences of port writes: present gates, unmasked lines, the timer's rate.

  \<^bold>\<open>Keyboard\<close> (\<open>Keyboard\<close>; \<^verbatim>\<open>kernel/keyboard.c\<close>). The environment is the list of bytes the port reads
  return; a read that would wait for ever is \<^term>\<open>None\<close>. The driver equals a line editor on the characters
  of the keys, returns exactly when the line is complete and stays inside its buffer.

  \<^bold>\<open>Processes\<close> (\<open>Process\<close>, \<open>Switch\<close>, \<open>Scheduler\<close>, \<open>Contexts\<close>, \<open>CreateRace\<close>; \<^verbatim>\<open>kernel/process.c\<close>,
  \<^verbatim>\<open>kernel/switch.asm\<close>, \<^verbatim>\<open>kernel/scheduler.c\<close>). Control blocks and stacks in memory; the context switch
  instruction by instruction. \<open>Scheduler\<close>: scheduling is fair within fifteen ticks, slots are never
  reused. \<open>Contexts\<close> follows one process through a run of kernel steps in which the other processes may
  write any memory but its stack: a new process starts at its function, a switched-out one resumes with
  its registers and stack, and the process table keeps its types. A call is one step there;
  \<open>CreateRace\<close> splits \<^verbatim>\<open>process_create\<close> into its stores and says what a tick does after each of them.

  \<^bold>\<open>Interrupts\<close> (\<open>Irq\<close>; \<^verbatim>\<open>kernel/isr_stub.asm\<close>). The two stubs instruction by instruction, from the
  processor's entry to \<^verbatim>\<open>iret\<close>. Of the C functions they call, the compiled code is known by the calling
  convention only. Both interrupts are invisible to what they interrupt, the timer also when it switches
  to other processes for any time.

  \<^bold>\<open>Threads\<close> (\<open>Mutex\<close>, \<open>Race\<close>, \<open>RaceRuns\<close>, \<open>RaceLoss\<close>, \<open>RaceSafe\<close>, \<open>RaceHazards\<close>;
  \<^verbatim>\<open>kernel/mutex.c\<close>, \<^verbatim>\<open>kernel/thread.c\<close>, the race functions of \<^verbatim>\<open>kernel/kernel.c\<close>). A thread is a
  program counter and its registers; one step is one access to shared memory (the two stores that enqueue
  a waiter and block it are one step, as are calls into the scheduler), and the inductive step relation
  \<^verbatim>\<open>wstep\<close> interleaves the steps of the running thread with timer ticks. An invariant over reachable
  states gives mutual exclusion for any number of threads and the exact total of \<^verbatim>\<open>racem\<close>. \<open>RaceLoss\<close>
  determines the possible results of \<^verbatim>\<open>race\<close>, \<open>RaceSafe\<close> shows that two \<^verbatim>\<open>racem\<close> threads index the
  waiter list within its bounds, and concrete runs in \<open>RaceRuns\<close> and \<open>RaceHazards\<close> show the lost
  wake-up, the waiter popped twice, the mutex that dies with its killed holder and the second \<^verbatim>\<open>racem\<close>
  that breaks exclusion.

  \<^bold>\<open>Shell\<close> (\<open>ShellText\<close>, \<open>Shell\<close>, \<open>ShellFiles\<close>, \<open>ShellProps\<close>, \<open>ShellOutput\<close>; \<^verbatim>\<open>kernel/kernel.c\<close>). The record
  \<^verbatim>\<open>kernel\<close> joins the states of all parts; every command is a function on it, the command loop runs over
  the keyboard input, and \<^verbatim>\<open>kernel_boot\<close> follows \<^verbatim>\<open>kernel_main\<close> up to the shell. Nothing that is typed
  makes a command fail or leaves the file system inconsistent; \<^verbatim>\<open>write\<close> and \<^verbatim>\<open>cat\<close> are stated on the
  abstract file system; \<open>ShellOutput\<close> gives the exact text \<^verbatim>\<open>ls\<close>, \<^verbatim>\<open>ps\<close> and \<^verbatim>\<open>meminfo\<close> print.

  \<^bold>\<open>Bounds and loops.\<close> There is no fuel. Counting loops are \<^verbatim>\<open>for_do\<close> and \<^verbatim>\<open>for_find\<close>, loops over input
  terminate because the list of port reads is finite, the transfer loops of the file system by the bytes
  left, and the one loop that need not end (\<^verbatim>\<open>cat\<close>) is a partial function for which returning is proved.
  Sizes are those of the code: 64 inodes, 256 blocks of 4 KiB, 128 directory entries, 32 descriptors, 8192
  frames, 16 processes.

  \<^bold>\<open>Not modelled.\<close> The boot sector and the entry to the kernel (\<^verbatim>\<open>boot/boot.asm\<close>,
  \<^verbatim>\<open>kernel/kernel_entry.asm\<close>) run before any C code, in part in 16-bit mode; \<^verbatim>\<open>boot/switch.asm\<close>,
  \<^verbatim>\<open>kernel/shell.c\<close> and the headers in \<^verbatim>\<open>include/\<close> other than \<^verbatim>\<open>fs.h\<close> are fragments or superseded
  copies. The components' memories (disk,
  frame buffer, frame bitmap, stacks) are separate, as the linker places them; addresses the linker
  chooses are arguments. A shell command is a single step: its preemption by the timer is modelled only
  where processes share data: the counter and the mutex, the cursor, and the slot being created. In these
  models the accesses happen in the order of the source, which an optimising compiler may change.
\<close>

end
